(* ===== verification/Consumer_Prelude.thy ===== *)
theory Consumer_Prelude
  imports Main "HOL-Library.Word" "HOL-Library.Finite_Map" "HOL-Library.Multiset"
begin

text \<open>
  Shared vocabulary of the development.

  \<^item> Go's fixed-width integers are words: \<open>int32\<close> for partition numbers and \<open>int64\<close>
    for offsets, so \<open>maxOffset + 1\<close> wraps around as it does in Go. \<open>time.Duration\<close> is
    an \<open>int\<close> number of nanoseconds; where the code adds or multiplies durations the
    wrap-around at 64 bits is written out with \<open>wrap64\<close>.
  \<^item> A Go map is a finite map. A \<open>range\<close> loop over a Go map visits the keys in an order
    that the language leaves open: where the order can be observed it is an argument of
    the definition, a list that \<open>enumerates\<close> the map.
  \<^item> A run-time panic is a value of \<open>panic\<close>; an operation that can panic returns
    \<open>panic + 'a\<close>, and \<open>go_bind\<close> sequences such operations.
  \<^item> A transition system is a locale with the invariant rule every component that is
    modelled by a step relation uses.
\<close>

type_synonym int32 = "32 word"
type_synonym int64 = "64 word"
type_synonym bytes = "8 word list"
type_synonym duration = int

abbreviation Millisecond :: duration where "Millisecond \<equiv> 1000000"
abbreviation Second :: duration where "Second \<equiv> 1000000000"

text \<open>\<open>time.Duration.Milliseconds\<close>: the division truncates towards zero.\<close>

definition Milliseconds :: "duration \<Rightarrow> int" where
  "Milliseconds d = (if d < 0 then - ((- d) div Millisecond) else d div Millisecond)"

text \<open>The value of an integer expression after the wrap-around of Go's \<open>int64\<close>.\<close>

definition wrap64 :: "int \<Rightarrow> int" where
  "wrap64 x = sint (word_of_int x :: int64)"

text \<open>
  The panics that the modelled code can raise. \<open>OtherGoroutine e\<close> is how a goroutine sees the
  panic \<open>e\<close> of another one that does not recover it: the process ends, no deferred call runs.
\<close>

datatype panic =
    AlreadyInFlight int32 int64 int64
  | OffsetMismatch int32 int64 int64
  | SendOnClosedChannel
  | CloseOfClosedChannel
  | IndexOutOfRange
  | MakeSliceNegative
  | MakeChanNegative
  | NonPositiveTicker
  | NilDereference
  | ProcessorPanic string
  | MustRegister string
  | OtherGoroutine panic

definition go_bind :: "panic + 'a \<Rightarrow> ('a \<Rightarrow> panic + 'b) \<Rightarrow> panic + 'b" where
  "go_bind x f = (case x of Inl e \<Rightarrow> Inl e | Inr a \<Rightarrow> f a)"

definition panics :: "panic + 'a \<Rightarrow> bool" where
  "panics x = (case x of Inl _ \<Rightarrow> True | Inr _ \<Rightarrow> False)"

text \<open>The list is one of the orders in which a \<open>range\<close> loop may visit the map.\<close>

definition enumerates :: "'k list \<Rightarrow> ('k, 'v) fmap \<Rightarrow> bool" where
  "enumerates ord m \<longleftrightarrow> distinct ord \<and> fset_of_list ord = fmdom m"

text \<open>Facts that unfold a component's operations, and facts on maps and lists.\<close>

named_theorems coordinator_defs
named_theorems dispatcher_defs
named_theorems pollloop_defs
named_theorems frame_simps

subsection \<open>Panics and sequencing\<close>

lemma go_bind_simps [simp]:
  "go_bind (Inl e) f = Inl e"
  "go_bind (Inr a) f = f a"
  by (simp_all add: go_bind_def)

lemma go_bind_Inr_iff:
  "go_bind x f = Inr b \<longleftrightarrow> (\<exists>a. x = Inr a \<and> f a = Inr b)"
  by (cases x) auto

lemma map_sum_Inl_iff: "map_sum f g z = Inl x \<longleftrightarrow> (\<exists>y. z = Inl y \<and> f y = x)"
  by (cases z) auto

lemma go_bind_Inl_iff:
  "go_bind x f = Inl e \<longleftrightarrow> x = Inl e \<or> (\<exists>a. x = Inr a \<and> f a = Inl e)"
  by (cases x) auto

lemma panics_simps [simp]: "panics (Inl e)" "\<not> panics (Inr a)"
  by (simp_all add: panics_def)

lemma not_panicsE: "\<not> panics x \<Longrightarrow> (\<And>a. x = Inr a \<Longrightarrow> P) \<Longrightarrow> P"
  by (cases x) auto

lemma panics_map_sum [simp]: "panics (map_sum id f x) = panics x"
  by (cases x) simp_all

subsection \<open>Machine integers\<close>

lemma wrap64_id: "- (2 ^ 63) \<le> x \<Longrightarrow> x < 2 ^ 63 \<Longrightarrow> wrap64 x = x"
  by (simp add: wrap64_def sint_sbintrunc' signed_take_bit_int_eq_self)

lemma wrap64_range: "- (2 ^ 63) \<le> wrap64 x \<and> wrap64 x < 2 ^ 63"
  unfolding wrap64_def
  using sint_greater_eq [of "word_of_int x :: int64"] sint_less [of "word_of_int x :: int64"]
  by simp

lemma sint_plus_one:
  fixes w :: int64
  assumes "sint w < 2 ^ 63 - 1"
  shows "sint (w + 1) = sint w + 1"
proof -
  have "- (2 ^ 63) \<le> sint w"
    using sint_greater_eq [of w] by simp
  with assms have "signed_take_bit 63 (sint w + 1) = sint w + 1"
    by (intro signed_take_bit_int_eq_self) simp_all
  then show ?thesis
    by (simp add: sint_word_ariths(1))
qed

subsection \<open>Finite maps and iteration orders\<close>

lemma enumerates_set: "enumerates ord m \<Longrightarrow> p \<in> set ord \<longleftrightarrow> fmlookup m p \<noteq> None"
  unfolding enumerates_def
  by (metis fmlookup_dom_iff fset_of_list_elem not_None_eq)

lemma enumerates_distinct: "enumerates ord m \<Longrightarrow> distinct ord"
  by (simp add: enumerates_def)

lemma enumerates_fmempty: "enumerates [] fmempty"
  by (simp add: enumerates_def)

lemma fmdom_empty_iff [simp]: "fmdom m = {||} \<longleftrightarrow> m = fmempty"
  by (metis fmap_ext fmdom_empty fmdom_notD fmempty_lookup fempty_iff)

lemma fmempty_iff: "m = fmempty \<longleftrightarrow> (\<forall>k. fmlookup m k = None)"
  by (auto intro: fmap_ext)

lemma fmfilter_eq_fmempty_iff:
  "fmfilter P m = fmempty \<longleftrightarrow> (\<forall>k. P k \<longrightarrow> fmlookup m k = None)"
  by (auto simp: fmempty_iff)

lemma fmmap_eq_fmempty_iff [simp]: "fmmap f m = fmempty \<longleftrightarrow> m = fmempty"
  by (auto simp: fmempty_iff)

text \<open>Lists split by a key, visited in any order of the keys.\<close>

lemma mset_concat_filter:
  "distinct ps \<Longrightarrow> mset (concat (map (\<lambda>p. filter (\<lambda>x. f x = p) xs) ps))
     = filter_mset (\<lambda>x. f x \<in> set ps) (mset xs)"
  by (induction ps) (auto intro!: multiset_eqI)

subsection \<open>Transition systems\<close>

text \<open>
  The generic part of every proof about reachable states: a predicate that holds at the
  start and is kept by every step holds in every reachable state, also when the step may
  rely on another invariant.
\<close>

locale transition_system =
  fixes init :: "'s \<Rightarrow> bool"
    and step :: "'s \<Rightarrow> 's \<Rightarrow> bool"
begin

inductive reach :: "'s \<Rightarrow> bool" where
  reach_init: "init s \<Longrightarrow> reach s"
| reach_step: "reach s \<Longrightarrow> step s t \<Longrightarrow> reach t"

lemma invariant_rule:
  assumes "\<And>s. init s \<Longrightarrow> I s"
    and "\<And>s t. reach s \<Longrightarrow> I s \<Longrightarrow> step s t \<Longrightarrow> I t"
    and "reach s"
  shows "I s"
  using assms(3)
proof induction
  case (reach_init s)
  then show ?case by (rule assms(1))
next
  case (reach_step s t)
  then show ?case using assms(2) by blast
qed

lemma invariant_with:
  assumes J: "\<And>s. reach s \<Longrightarrow> J s"
    and "\<And>s. init s \<Longrightarrow> I s"
    and "\<And>s t. J s \<Longrightarrow> J t \<Longrightarrow> I s \<Longrightarrow> step s t \<Longrightarrow> I t"
    and "reach s"
  shows "I s"
proof (rule invariant_rule [OF assms(2) _ assms(4)])
  fix s t
  assume "reach s" and "I s" and "step s t"
  moreover from this have "reach t" by (blast intro: reach_step)
  ultimately show "I t" using J assms(3) by blast
qed simp

text \<open>
  A predicate that every step reflects (if it holds after the step it held before) can be
  carried backwards, so an invariant may be proved under it.
\<close>

lemma invariant_under:
  assumes "\<And>s. init s \<Longrightarrow> I s"
    and refl: "\<And>s t. step s t \<Longrightarrow> B t \<Longrightarrow> B s"
    and "\<And>s t. reach s \<Longrightarrow> I s \<Longrightarrow> B s \<Longrightarrow> B t \<Longrightarrow> step s t \<Longrightarrow> I t"
    and "reach s" and "B s"
  shows "I s"
proof -
  have "B s \<longrightarrow> I s"
  proof (rule invariant_rule [where I = "\<lambda>s. B s \<longrightarrow> I s", OF _ _ assms(4)])
    fix s assume "init s"
    then show "B s \<longrightarrow> I s" using assms(1) by blast
  next
    fix s t
    assume "reach s" and "B s \<longrightarrow> I s" and "step s t"
    then show "B t \<longrightarrow> I t" using refl assms(3) by blast
  qed
  with assms(5) show ?thesis by blast
qed

end

end
