(* ===== verification/Message_Types.thy ===== *)
theory Message_Types
  imports Consumer_Prelude
begin

text \<open>
  The shared domain types of \<^verbatim>\<open>internal/types\<close>: messages and headers, Go errors with
  their wrapping chains, the non-retryable classification, and the partition type of
  \<^verbatim>\<open>internal/dispatcher/dispatcher.go\<close>.

  A Go error is a tree: \<open>fmt.Errorf("...%w", err)\<close> and \<open>ErrNonRetryable\<close> have one
  child, \<open>errors.Join\<close> has several. \<open>errors.Is\<close> and \<open>errors.As\<close> search the tree.
  A package-level error variable is compared by identity: it is a constructor of
  \<open>sentinel\<close>.
\<close>

subsection \<open>Messages\<close>

record header =
  h_Key :: string
  h_Value :: bytes

text \<open>\<open>Key\<close> and \<open>Value\<close> may be nil: \<open>None\<close>. Time stamps are instants in nanoseconds.\<close>

record message =
  m_Topic :: string
  m_Partition :: int32
  m_Offset :: int64
  m_Key :: "bytes option"
  m_Value :: "bytes option"
  m_Timestamp :: int
  m_Headers :: "header list"
  m_PolledAt :: int

record partition =
  p_Topic :: string
  p_Partition :: int32

subsection \<open>Errors\<close>

datatype sentinel =
    ErrBackpressure
  | ErrOpenState
  | ErrTooManyRequests
  | ContextCanceled
  | ContextDeadlineExceeded
  | ErrServerClosed

datatype go_error =
    Sentinel sentinel
  | ErrorString string
  | Wrapped string go_error
  | Joined "go_error list"
  | ErrNonRetryable "go_error option"

fun sentinel_text :: "sentinel \<Rightarrow> string" where
  "sentinel_text ErrBackpressure = ''dispatcher: at capacity''"
| "sentinel_text ErrOpenState = ''circuit breaker is open''"
| "sentinel_text ErrTooManyRequests = ''too many requests''"
| "sentinel_text ContextCanceled = ''context canceled''"
| "sentinel_text ContextDeadlineExceeded = ''context deadline exceeded''"
| "sentinel_text ErrServerClosed = ''http: Server closed''"

text \<open>The strings with a separator between them (\<open>strings.Join\<close>).\<close>

fun Join :: "string list \<Rightarrow> string \<Rightarrow> string" where
  "Join [] sep = ''''"
| "Join [s] sep = s"
| "Join (s # t # ss) sep = s @ sep @ Join (t # ss) sep"

text \<open>
  The text of an error; \<open>Wrapped\<close> carries the text in front of its \<open>%w\<close>, and
  \<open>errors.Join\<close> puts a newline between its errors.
\<close>

fun Error :: "go_error \<Rightarrow> string" where
  "Error (Sentinel s) = sentinel_text s"
| "Error (ErrorString s) = s"
| "Error (Wrapped s e) = s @ Error e"
| "Error (Joined es) = Join (map Error es) [CHR 0x0A]"
| "Error (ErrNonRetryable e) =
     ''non-retryable: '' @ (case e of None \<Rightarrow> ''<nil>'' | Some x \<Rightarrow> Error x)"

text \<open>The errors directly under an error (\<open>Unwrap\<close>).\<close>

fun Unwrap :: "go_error \<Rightarrow> go_error list" where
  "Unwrap (Sentinel s) = []"
| "Unwrap (ErrorString s) = []"
| "Unwrap (Wrapped s e) = [e]"
| "Unwrap (Joined es) = es"
| "Unwrap (ErrNonRetryable e) = (case e of None \<Rightarrow> [] | Some x \<Rightarrow> [x])"

fun errors_Is :: "go_error \<Rightarrow> sentinel \<Rightarrow> bool" where
  "errors_Is (Sentinel s) t = (s = t)"
| "errors_Is (ErrorString s) t = False"
| "errors_Is (Wrapped s e) t = errors_Is e t"
| "errors_Is (Joined es) t = list_ex (\<lambda>e. errors_Is e t) es"
| "errors_Is (ErrNonRetryable e) t = (case e of None \<Rightarrow> False | Some x \<Rightarrow> errors_Is x t)"

fun IsNonRetryable :: "go_error \<Rightarrow> bool" where
  "IsNonRetryable (ErrNonRetryable e) = True"
| "IsNonRetryable (Sentinel s) = False"
| "IsNonRetryable (ErrorString s) = False"
| "IsNonRetryable (Wrapped s e) = IsNonRetryable e"
| "IsNonRetryable (Joined es) = list_ex IsNonRetryable es"

subsection \<open>The classification finds the marker at any depth\<close>

text \<open>The errors an error can be unwrapped to, itself included.\<close>

inductive in_chain :: "go_error \<Rightarrow> go_error \<Rightarrow> bool" where
  here: "in_chain e e"
| there: "x \<in> set (Unwrap e) \<Longrightarrow> in_chain x y \<Longrightarrow> in_chain e y"

inductive_simps in_chain_Wrapped: "in_chain (Wrapped s e) y"
inductive_simps in_chain_Joined: "in_chain (Joined es) y"
inductive_simps in_chain_ErrNonRetryable: "in_chain (ErrNonRetryable e) y"
inductive_simps in_chain_ErrorString: "in_chain (ErrorString s) y"
inductive_simps in_chain_Sentinel: "in_chain (Sentinel s) y"

lemmas in_chain_simps =
  in_chain_Wrapped in_chain_Joined in_chain_ErrNonRetryable in_chain_ErrorString in_chain_Sentinel

lemma errors_Is_in_chain: "errors_Is e s \<longleftrightarrow> in_chain e (Sentinel s)"
  by (induction e s rule: errors_Is.induct)
    (auto simp: in_chain_simps list_ex_iff split: option.splits)

lemma IsNonRetryable_in_chain: "IsNonRetryable e \<longleftrightarrow> (\<exists>x. in_chain e (ErrNonRetryable x))"
  by (induction e rule: IsNonRetryable.induct) (auto simp: in_chain_simps list_ex_iff)

text \<open>
  C39: an error is classified as non-retryable exactly when unwrapping it, through any
  nesting of \<open>%w\<close> wrapping and \<open>errors.Join\<close>, reaches an \<open>ErrNonRetryable\<close>; in
  particular wrapping never hides the marker and never invents one.
\<close>

theorem nonretryable_classification:
  "(IsNonRetryable e \<longleftrightarrow> (\<exists>x. in_chain e (ErrNonRetryable x)))
    \<and> IsNonRetryable (Wrapped s e) = IsNonRetryable e
    \<and> IsNonRetryable (Joined (es @ [e])) = (IsNonRetryable (Joined es) \<or> IsNonRetryable e)
    \<and> IsNonRetryable (ErrNonRetryable (Some e))"
  by (auto simp: IsNonRetryable_in_chain [symmetric])

end
