(* ===== verification/Offset_Coordinator.thy ===== *)
theory Offset_Coordinator
  imports Message_Types
begin

text \<open>
  The offset coordinator, \<^verbatim>\<open>internal/offset\<close>: at most one batch in flight per partition,
  the offset after a completed batch is committable.

  The concrete coordinator is a map from partitions to \<open>partitionState\<close>; its mutex makes
  every operation atomic, so an operation is a function on the state. The interface
  \<open>Coordinator\<close> of \<^verbatim>\<open>coordinator.go\<close> is the locale \<open>coordinator_contract\<close>, stated over an
  abstract view: per partition idle, in flight with an offset, or completed with an offset.
  The concrete coordinator is an interpretation of it.
\<close>

subsection \<open>State and operations\<close>

record partitionState =
  ps_maxOffset :: int64
  ps_inFlight :: bool
  ps_completed :: bool

record coordinator =
  co_partitions :: "(int32, partitionState) fmap"

definition NewCoordinator :: coordinator where
  "NewCoordinator = \<lparr>co_partitions = fmempty\<rparr>"

definition BatchDispatched :: "int32 \<Rightarrow> int64 \<Rightarrow> coordinator \<Rightarrow> panic + coordinator" where
  "BatchDispatched p maxOffset c =
     (let dispatched = c\<lparr>co_partitions := fmupd p
            \<lparr>ps_maxOffset = maxOffset, ps_inFlight = True, ps_completed = False\<rparr>
            (co_partitions c)\<rparr>
      in case fmlookup (co_partitions c) p of
           None \<Rightarrow> Inr dispatched
         | Some state \<Rightarrow>
             if ps_inFlight state then Inl (AlreadyInFlight p (ps_maxOffset state) maxOffset)
             else Inr dispatched)"

definition BatchComplete :: "int32 \<Rightarrow> int64 \<Rightarrow> coordinator \<Rightarrow> panic + coordinator" where
  "BatchComplete p maxOffset c =
     (case fmlookup (co_partitions c) p of
        None \<Rightarrow> Inr c
      | Some state \<Rightarrow>
          if ps_completed state \<and> ps_maxOffset state = maxOffset then Inr c
          else if ps_maxOffset state \<noteq> maxOffset
          then Inl (OffsetMismatch p maxOffset (ps_maxOffset state))
          else Inr (c\<lparr>co_partitions := fmupd p
                 (state\<lparr>ps_inFlight := False, ps_completed := True\<rparr>) (co_partitions c)\<rparr>))"

text \<open>The loop of \<open>Committable\<close>, over the partitions in the order the map is visited.\<close>

primrec committable_range ::
  "(int32, partitionState) fmap \<Rightarrow> int32 list \<Rightarrow> (int32, int64) fmap \<Rightarrow> (int32, int64) fmap"
where
  "committable_range parts [] result = result"
| "committable_range parts (p # ps) result =
     committable_range parts ps
       (case fmlookup parts p of
          None \<Rightarrow> result
        | Some state \<Rightarrow>
            if ps_completed state then fmupd p (ps_maxOffset state + 1) result else result)"

text \<open>What the loop returns, whatever the order (\<open>committable_any_order\<close> below).\<close>

definition Committable :: "coordinator \<Rightarrow> (int32, int64) fmap" where
  "Committable c =
     fmmap (\<lambda>state. ps_maxOffset state + 1)
       (fmfilter (\<lambda>p. case fmlookup (co_partitions c) p of
                         None \<Rightarrow> False | Some state \<Rightarrow> ps_completed state)
         (co_partitions c))"

definition Reset :: "int32 \<Rightarrow> coordinator \<Rightarrow> coordinator" where
  "Reset p c = c\<lparr>co_partitions := fmdrop p (co_partitions c)\<rparr>"

lemmas [coordinator_defs] =
  NewCoordinator_def BatchDispatched_def BatchComplete_def Committable_def Reset_def Let_def

subsection \<open>The abstract specification\<close>

datatype slot = Idle | InFlight int64 | Completed int64

type_synonym slots = "int32 \<Rightarrow> slot"

fun slot_of :: "partitionState option \<Rightarrow> slot" where
  "slot_of None = Idle"
| "slot_of (Some state) =
     (if ps_inFlight state then InFlight (ps_maxOffset state)
      else if ps_completed state then Completed (ps_maxOffset state) else Idle)"

definition coord_view :: "coordinator \<Rightarrow> slots" where
  "coord_view c p = slot_of (fmlookup (co_partitions c) p)"

text \<open>Every recorded partition is either in flight or completed, never both.\<close>

definition coord_wf :: "coordinator \<Rightarrow> bool" where
  "coord_wf c = fmpred (\<lambda>_ state. ps_inFlight state \<noteq> ps_completed state) (co_partitions c)"

definition spec_dispatched :: "int32 \<Rightarrow> int64 \<Rightarrow> slots \<Rightarrow> panic + slots" where
  "spec_dispatched p m v =
     (case v p of InFlight k \<Rightarrow> Inl (AlreadyInFlight p k m) | _ \<Rightarrow> Inr (v(p := InFlight m)))"

definition spec_complete :: "int32 \<Rightarrow> int64 \<Rightarrow> slots \<Rightarrow> panic + slots" where
  "spec_complete p m v =
     (case v p of
        Idle \<Rightarrow> Inr v
      | InFlight k \<Rightarrow> if k = m then Inr (v(p := Completed m)) else Inl (OffsetMismatch p m k)
      | Completed k \<Rightarrow> if k = m then Inr v else Inl (OffsetMismatch p m k))"

definition spec_committable :: "slots \<Rightarrow> int32 \<Rightarrow> int64 option" where
  "spec_committable v p = (case v p of Completed m \<Rightarrow> Some (m + 1) | _ \<Rightarrow> None)"

subsection \<open>The interface and what its clients get from it\<close>

locale coordinator_contract =
  fixes inv :: "'c \<Rightarrow> bool"
    and view :: "'c \<Rightarrow> slots"
    and new :: 'c
    and dispatched :: "int32 \<Rightarrow> int64 \<Rightarrow> 'c \<Rightarrow> panic + 'c"
    and complete :: "int32 \<Rightarrow> int64 \<Rightarrow> 'c \<Rightarrow> panic + 'c"
    and committable :: "'c \<Rightarrow> (int32, int64) fmap"
    and reset :: "int32 \<Rightarrow> 'c \<Rightarrow> 'c"
  assumes inv_new: "inv new"
    and view_new: "view new = (\<lambda>_. Idle)"
    and view_dispatched: "inv c \<Longrightarrow> map_sum id view (dispatched p m c) = spec_dispatched p m (view c)"
    and inv_dispatched: "inv c \<Longrightarrow> dispatched p m c = Inr c' \<Longrightarrow> inv c'"
    and view_complete: "inv c \<Longrightarrow> map_sum id view (complete p m c) = spec_complete p m (view c)"
    and inv_complete: "inv c \<Longrightarrow> complete p m c = Inr c' \<Longrightarrow> inv c'"
    and lookup_committable:
      "inv c \<Longrightarrow> fmlookup (committable c) p = spec_committable (view c) p"
    and view_reset: "inv c \<Longrightarrow> view (reset p c) = (view c)(p := Idle)"
    and inv_reset: "inv c \<Longrightarrow> inv (reset p c)"
begin

lemma dispatched_cases:
  assumes "inv c"
  shows "(\<exists>k. view c p = InFlight k \<and> dispatched p m c = Inl (AlreadyInFlight p k m))
    \<or> ((\<forall>k. view c p \<noteq> InFlight k)
        \<and> (\<exists>c'. dispatched p m c = Inr c' \<and> inv c' \<and> view c' = (view c)(p := InFlight m)))"
  using view_dispatched [OF assms, of p m] inv_dispatched [OF assms, of p m]
  by (cases "dispatched p m c"; cases "view c p") (auto simp: spec_dispatched_def)

lemma complete_in_flight:
  assumes "inv c" and "view c p = InFlight m"
  shows "\<exists>c'. complete p m c = Inr c' \<and> inv c' \<and> view c' = (view c)(p := Completed m)"
  using view_complete [OF assms(1), of p m] inv_complete [OF assms(1), of p m] assms(2)
  by (cases "complete p m c") (auto simp: spec_complete_def)

lemma complete_no_panic:
  assumes "inv c" and "\<And>k. view c p = InFlight k \<or> view c p = Completed k \<Longrightarrow> k = m"
  shows "\<exists>c'. complete p m c = Inr c' \<and> inv c'
           \<and> view c' = (case view c p of Idle \<Rightarrow> view c | _ \<Rightarrow> (view c)(p := Completed m))"
  using view_complete [OF assms(1), of p m] inv_complete [OF assms(1), of p m] assms(2)
  by (cases "complete p m c"; cases "view c p") (auto simp: spec_complete_def)

text \<open>A dispatch followed by its completion makes the next offset committable.\<close>

lemma dispatch_complete_committable:
  assumes "inv c" and "\<And>k. view c p \<noteq> InFlight k"
  obtains c1 c2 where "dispatched p m c = Inr c1" and "complete p m c1 = Inr c2"
    and "inv c2" and "view c2 = (view c)(p := Completed m)"
    and "fmlookup (committable c2) p = Some (m + 1)"
    and "\<And>q. q \<noteq> p \<Longrightarrow> fmlookup (committable c2) q = fmlookup (committable c) q"
proof -
  from dispatched_cases [OF assms(1), of p m] assms(2)
  obtain c1 where c1: "dispatched p m c = Inr c1" "inv c1" "view c1 = (view c)(p := InFlight m)"
    by blast
  then obtain c2 where c2: "complete p m c1 = Inr c2" "inv c2" "view c2 = (view c1)(p := Completed m)"
    using complete_in_flight [of c1 p m] by auto
  show thesis
  proof (rule that [OF c1(1) c2(1) c2(2)])
    show "view c2 = (view c)(p := Completed m)" using c1(3) c2(3) by simp
    show "fmlookup (committable c2) p = Some (m + 1)"
      using c1(3) c2 by (simp add: lookup_committable spec_committable_def)
    show "fmlookup (committable c2) q = fmlookup (committable c) q" if "q \<noteq> p" for q
      using c1(3) c2 assms(1) that by (simp add: lookup_committable spec_committable_def)
  qed
qed

text \<open>While a batch is in flight its partition has nothing to commit.\<close>

lemma in_flight_not_committable:
  "inv c \<Longrightarrow> view c p = InFlight m \<Longrightarrow> fmlookup (committable c) p = None"
  by (simp add: lookup_committable spec_committable_def)

text \<open>After a reset a late completion changes nothing.\<close>

lemma late_complete_ignored:
  assumes "inv c"
  shows "\<exists>c'. complete p m (reset p c) = Inr c' \<and> view c' = (view c)(p := Idle)
    \<and> fmlookup (committable c') p = None"
  using view_complete [OF inv_reset [OF assms], of p m p] inv_complete [OF inv_reset [OF assms], of p m p]
    view_reset [OF assms, of p] lookup_committable
  by (cases "complete p m (reset p c)") (auto simp: spec_complete_def spec_committable_def)

end

subsection \<open>The concrete coordinator implements the interface\<close>

lemma coord_wfD:
  "coord_wf c \<Longrightarrow> fmlookup (co_partitions c) p = Some st \<Longrightarrow> ps_inFlight st = (\<not> ps_completed st)"
  unfolding coord_wf_def by (auto dest: fmpredD)

lemma slot_of_cases:
  assumes "coord_wf c"
  obtains (idle) "fmlookup (co_partitions c) p = None" and "coord_view c p = Idle"
  | (in_flight) m where "coord_view c p = InFlight m"
      and "fmlookup (co_partitions c) p
             = Some \<lparr>ps_maxOffset = m, ps_inFlight = True, ps_completed = False\<rparr>"
  | (completed) m where "coord_view c p = Completed m"
      and "fmlookup (co_partitions c) p
             = Some \<lparr>ps_maxOffset = m, ps_inFlight = False, ps_completed = True\<rparr>"
proof (cases "fmlookup (co_partitions c) p")
  case None
  then show thesis using idle by (simp add: coord_view_def)
next
  case (Some st)
  with coord_wfD [OF assms Some] show thesis
    using in_flight completed by (cases st) (auto simp: coord_view_def split: if_splits)
qed

lemma coord_wf_new: "coord_wf NewCoordinator"
  by (simp add: coord_wf_def NewCoordinator_def)

lemma coord_view_upd:
  "coord_view (c\<lparr>co_partitions := fmupd p st (co_partitions c)\<rparr>)
     = (coord_view c)(p := slot_of (Some st))"
  by (rule ext) (simp add: coord_view_def)

lemma coord_wf_upd:
  "coord_wf c \<Longrightarrow> ps_inFlight st \<noteq> ps_completed st
    \<Longrightarrow> coord_wf (c\<lparr>co_partitions := fmupd p st (co_partitions c)\<rparr>)"
  by (auto simp: coord_wf_def)

lemma dispatched_refines:
  "coord_wf c \<Longrightarrow> map_sum id coord_view (BatchDispatched p m c) = spec_dispatched p m (coord_view c)"
  by (erule slot_of_cases [where p = p])
    (simp_all add: BatchDispatched_def spec_dispatched_def coord_view_upd Let_def)

lemma complete_refines:
  "coord_wf c \<Longrightarrow> map_sum id coord_view (BatchComplete p m c) = spec_complete p m (coord_view c)"
  by (erule slot_of_cases [where p = p])
    (auto simp: BatchComplete_def spec_complete_def coord_view_upd)

lemma coord_wf_dispatched: "coord_wf c \<Longrightarrow> BatchDispatched p m c = Inr c' \<Longrightarrow> coord_wf c'"
  by (auto simp: BatchDispatched_def Let_def intro!: coord_wf_upd split: option.splits if_splits)

lemma coord_wf_complete: "coord_wf c \<Longrightarrow> BatchComplete p m c = Inr c' \<Longrightarrow> coord_wf c'"
  by (auto simp: BatchComplete_def intro!: coord_wf_upd split: option.splits if_splits)

lemma coord_wf_Reset: "coord_wf c \<Longrightarrow> coord_wf (Reset p c)"
  by (auto simp: coord_wf_def Reset_def)

lemma coord_view_Reset: "coord_view (Reset p c) = (coord_view c)(p := Idle)"
  by (rule ext) (simp add: coord_view_def Reset_def)

lemma Committable_lookup:
  "fmlookup (Committable c) p =
     (case fmlookup (co_partitions c) p of
        None \<Rightarrow> None
      | Some st \<Rightarrow> if ps_completed st then Some (ps_maxOffset st + 1) else None)"
  by (simp add: Committable_def split: option.splits)

lemma Committable_refines:
  "coord_wf c \<Longrightarrow> fmlookup (Committable c) p = spec_committable (coord_view c) p"
  by (erule slot_of_cases [where p = p]) (simp_all add: Committable_lookup spec_committable_def)

interpretation oc: coordinator_contract
  coord_wf coord_view NewCoordinator BatchDispatched BatchComplete Committable Reset
proof
  show "coord_wf NewCoordinator" by (rule coord_wf_new)
  show "coord_view NewCoordinator = (\<lambda>_. Idle)"
    by (rule ext) (simp add: coord_view_def NewCoordinator_def)
qed (blast intro: dispatched_refines complete_refines coord_wf_dispatched coord_wf_complete
      Committable_refines coord_view_Reset coord_wf_Reset)+

subsection \<open>Iteration order\<close>

lemma committable_range_lookup:
  "fmlookup (committable_range parts ps result) q =
     (if q \<in> set ps
      then (case fmlookup parts q of
              None \<Rightarrow> fmlookup result q
            | Some st \<Rightarrow> if ps_completed st then Some (ps_maxOffset st + 1) else fmlookup result q)
      else fmlookup result q)"
  by (induction ps arbitrary: result) (auto split: option.splits)

lemma committable_range_eq:
  assumes "enumerates ord (co_partitions c)"
  shows "committable_range (co_partitions c) ord fmempty = Committable c"
proof (rule fmap_ext)
  fix q
  show "fmlookup (committable_range (co_partitions c) ord fmempty) q = fmlookup (Committable c) q"
    using enumerates_set [OF assms, of q]
    by (auto simp: committable_range_lookup Committable_lookup split: option.splits)
qed

subsection \<open>Properties\<close>

text \<open>
  C10: the coordinator implements its interface contract. Over the view that gives each
  partition one of idle, in flight or completed, every operation of the mutex-protected map
  does what the interface promises, on every branch: a second dispatch panics with the two
  offsets, a completion with another offset panics, a repeated or unknown completion is a
  no-op, \<open>Committable\<close> reports exactly the completed partitions at \<open>maxOffset + 1\<close>, and
  \<open>Reset\<close> forgets its partition only. The well-formedness it needs is kept.
\<close>

theorem coordinator_refinement:
  assumes "coord_wf c"
  shows "map_sum id coord_view (BatchDispatched p m c) = spec_dispatched p m (coord_view c)
    \<and> map_sum id coord_view (BatchComplete p m c) = spec_complete p m (coord_view c)
    \<and> (\<forall>q. fmlookup (Committable c) q = spec_committable (coord_view c) q)
    \<and> coord_view (Reset p c) = (coord_view c)(p := Idle)
    \<and> pred_sum (\<lambda>_. True) coord_wf (BatchDispatched p m c)
    \<and> pred_sum (\<lambda>_. True) coord_wf (BatchComplete p m c)
    \<and> coord_wf (Reset p c)"
proof (intro conjI)
  show "pred_sum (\<lambda>_. True) coord_wf (BatchDispatched p m c)"
    using oc.inv_dispatched [OF assms] by (cases "BatchDispatched p m c") auto
  show "pred_sum (\<lambda>_. True) coord_wf (BatchComplete p m c)"
    using oc.inv_complete [OF assms] by (cases "BatchComplete p m c") auto
qed (use assms in \<open>simp_all add: oc.view_dispatched oc.view_complete oc.lookup_committable
       oc.view_reset oc.inv_reset\<close>)

theorem coordinator_refinement_witness:
  "coord_wf NewCoordinator
    \<and> map_sum id coord_view (BatchDispatched 3 41 NewCoordinator)
        = Inr ((\<lambda>_. Idle)(3 := InFlight 41))"
  using coordinator_refinement [OF coord_wf_new, of 3 41] coord_wf_new
  by (simp add: spec_dispatched_def oc.view_new)

text \<open>
  C32: the loop of \<open>Committable\<close> computes the same map in whatever order Go visits the
  partitions.
\<close>

theorem committable_any_order:
  assumes "enumerates ord (co_partitions c)"
  shows "committable_range (co_partitions c) ord fmempty = Committable c"
  using assms by (rule committable_range_eq)

theorem committable_any_order_witness:
  "let parts = fmupd 1 \<lparr>ps_maxOffset = 9, ps_inFlight = False, ps_completed = True\<rparr>
        (fmupd 0 \<lparr>ps_maxOffset = 5, ps_inFlight = True, ps_completed = False\<rparr> fmempty)
   in enumerates [1, 0] parts
      \<and> committable_range parts [1, 0] fmempty = Committable \<lparr>co_partitions = parts\<rparr>
      \<and> fmlookup (Committable \<lparr>co_partitions = parts\<rparr>) 1 = Some 10"
  using committable_any_order [of "[1, 0]" "\<lparr>co_partitions =
      fmupd 1 \<lparr>ps_maxOffset = 9, ps_inFlight = False, ps_completed = True\<rparr>
        (fmupd 0 \<lparr>ps_maxOffset = 5, ps_inFlight = True, ps_completed = False\<rparr> fmempty)\<rparr>"]
  by (simp add: enumerates_def Committable_lookup)

text \<open>
  A completed batch is reported at exactly one more than its highest offset (no
  wrap-around below the largest offset), repeatedly until the state changes; the report is
  stable under another completion of the same batch, is withdrawn while the next batch is in
  flight, and after a reset a late completion reports nothing.
\<close>

theorem committable_lifecycle:
  assumes "coord_wf c" and "coord_view c p = InFlight m" and "sint m < 2 ^ 63 - 1"
  shows "fmlookup (Committable c) p = None
    \<and> (\<exists>c'. BatchComplete p m c = Inr c'
        \<and> (\<exists>off. fmlookup (Committable c') p = Some off \<and> sint off = sint m + 1)
        \<and> BatchComplete p m c' = Inr c'
        \<and> (\<exists>c''. BatchDispatched p k c' = Inr c'' \<and> fmlookup (Committable c'') p = None))
    \<and> (\<exists>c'. BatchComplete p m (Reset p c) = Inr c' \<and> fmlookup (Committable c') p = None)"
proof (intro conjI)
  show "fmlookup (Committable c) p = None"
    using assms(1,2) by (rule oc.in_flight_not_committable)
next
  obtain c' where c': "BatchComplete p m c = Inr c'" "coord_wf c'"
      and v: "coord_view c' = (coord_view c)(p := Completed m)"
    using oc.complete_in_flight [OF assms(1,2)] by blast
  have "fmlookup (Committable c') p = Some (m + 1)"
    using c' v by (simp add: oc.lookup_committable spec_committable_def)
  moreover have "BatchComplete p m c' = Inr c'"
    using c'(2) v by - (erule slot_of_cases [where p = p], simp_all add: BatchComplete_def)
  moreover obtain c'' where "BatchDispatched p k c' = Inr c''" "coord_wf c''"
      "coord_view c'' = (coord_view c')(p := InFlight k)"
    using oc.dispatched_cases [OF c'(2), of p k] v by auto
  moreover from this have "fmlookup (Committable c'') p = None"
    by (simp add: oc.in_flight_not_committable)
  ultimately show "\<exists>c'. BatchComplete p m c = Inr c'
        \<and> (\<exists>off. fmlookup (Committable c') p = Some off \<and> sint off = sint m + 1)
        \<and> BatchComplete p m c' = Inr c'
        \<and> (\<exists>c''. BatchDispatched p k c' = Inr c'' \<and> fmlookup (Committable c'') p = None)"
    using c'(1) sint_plus_one [OF assms(3)] by auto
next
  show "\<exists>c'. BatchComplete p m (Reset p c) = Inr c' \<and> fmlookup (Committable c') p = None"
    using oc.late_complete_ignored [OF assms(1), of p m] by blast
qed

theorem committable_lifecycle_witness:
  "\<exists>c'. BatchComplete 7 99 \<lparr>co_partitions = fmupd 7
        \<lparr>ps_maxOffset = 99, ps_inFlight = True, ps_completed = False\<rparr> fmempty\<rparr> = Inr c'
      \<and> fmlookup (Committable c') 7 = Some 100"
proof -
  let ?c = "\<lparr>co_partitions = fmupd 7
      \<lparr>ps_maxOffset = 99, ps_inFlight = True, ps_completed = False\<rparr> fmempty\<rparr>"
  have "coord_wf ?c" "coord_view ?c 7 = InFlight 99"
    by (simp_all add: coord_wf_def coord_view_def fmpred_upd)
  from committable_lifecycle [OF this, of 0] show ?thesis
    by (auto simp: BatchComplete_def Committable_lookup)
qed

end
