(* ===== verification/Dispatcher_Config.thy ===== *)
theory Dispatcher_Config
  imports Complex_Main Message_Types
begin

text \<open>
  The dispatcher's configuration (\<^verbatim>\<open>internal/dispatcher/config.go\<close>), the rounding of
  \<open>float64\<close> arithmetic, the retry delays (\<^verbatim>\<open>retry.go\<close>), the circuit-breaker state type
  (\<^verbatim>\<open>internal/circuit/state.go\<close>) and the breaker settings that
  \<open>NewUnorderedDispatcher\<close> passes to gobreaker: the trip decision and the state-change
  callback.

  gobreaker itself is not part of the repository: its states are the datatype
  \<open>gobreaker_state\<close>, and what it answers to a request is an argument of the worker's
  definitions (theory \<open>Batch_Processing\<close>). The rounding of \<open>float64\<close> operations is the
  argument \<open>fl\<close>; \<open>float64_rounding\<close> states the two IEEE 754 facts that are used.
\<close>

subsection \<open>Configuration\<close>

record config =
  dc_WorkerCount :: int
  dc_ChannelCap :: int
  dc_BatchSize :: int
  dc_LingerTime :: duration
  dc_MaxRetries :: int
  dc_CBMinRequests :: int
  dc_CBFailureThreshold :: rat
  dc_CBOpenTimeout :: duration
  dc_CBMaxRequests :: int
  dc_CBInterval :: duration

definition DefaultDispatcherConfig :: config where
  "DefaultDispatcherConfig =
     \<lparr>dc_WorkerCount = 4, dc_ChannelCap = 100, dc_BatchSize = 50,
      dc_LingerTime = 100 * Millisecond, dc_MaxRetries = 3, dc_CBMinRequests = 3,
      dc_CBFailureThreshold = 6 / 10, dc_CBOpenTimeout = 30 * Second,
      dc_CBMaxRequests = 1, dc_CBInterval = 60 * Second\<rparr>"

subsection \<open>Rounding\<close>

text \<open>Rounding is monotone and exact on integers of at most 53 bits.\<close>

definition float64_rounding :: "(rat \<Rightarrow> rat) \<Rightarrow> bool" where
  "float64_rounding fl \<longleftrightarrow> mono fl \<and> (\<forall>n::int. \<bar>n\<bar> \<le> 2 ^ 53 \<longrightarrow> fl (of_int n) = of_int n)"

subsection \<open>Retry delays\<close>

definition retryBaseDelay :: duration where "retryBaseDelay = 100 * Millisecond"

definition retryMaxDelay :: duration where "retryMaxDelay = 30 * Second"

definition jitterFactor :: rat where "jitterFactor = 1 / 2"

text \<open>
  \<open>rnd\<close> is the number \<open>rand.Float64\<close> returns. The conversion to \<open>time.Duration\<close>
  truncates; the delay is never negative, so this is the floor.
\<close>

definition backoff :: "(rat \<Rightarrow> rat) \<Rightarrow> rat \<Rightarrow> int \<Rightarrow> duration" where
  "backoff fl rnd attempt =
     (let exponential = of_int retryBaseDelay * 2 powi attempt;
          delay = (if exponential > of_int retryMaxDelay then of_int retryMaxDelay else exponential);
          jitter = fl (fl (delay * jitterFactor) * rnd)
      in \<lfloor>fl (delay + jitter)\<rfloor>)"

text \<open>What the \<open>select\<close> of \<open>sleepWithContext\<close> received from.\<close>

datatype sleep_outcome = TimerFired | ContextDone go_error

fun sleepWithContext :: "sleep_outcome \<Rightarrow> go_error option" where
  "sleepWithContext (ContextDone err) = Some err"
| "sleepWithContext TimerFired = None"

subsection \<open>Circuit state\<close>

datatype circuit_state = Closed | Open | HalfOpen

fun circuit_value :: "circuit_state \<Rightarrow> int" where
  "circuit_value Closed = 0"
| "circuit_value Open = 1"
| "circuit_value HalfOpen = 2"

text \<open>\<open>String\<close> is a method of the underlying integer, so it has a default branch.\<close>

definition circuit_String :: "int \<Rightarrow> string" where
  "circuit_String s =
     (if s = circuit_value Closed then ''closed''
      else if s = circuit_value Open then ''open''
      else if s = circuit_value HalfOpen then ''half-open''
      else ''unknown'')"

datatype gobreaker_state = StateClosed | StateHalfOpen | StateOpen | StateOther int

fun gobreakerStateToCircuit :: "gobreaker_state \<Rightarrow> circuit_state" where
  "gobreakerStateToCircuit StateClosed = Closed"
| "gobreakerStateToCircuit StateOpen = Open"
| "gobreakerStateToCircuit StateHalfOpen = HalfOpen"
| "gobreakerStateToCircuit (StateOther n) = Closed"

text \<open>
  The trip decision. The counters are \<open>uint32\<close> and the configured minimum is converted to
  \<open>uint32\<close>; the failure rate is a \<open>float64\<close> division.
\<close>

definition readyToTrip :: "(rat \<Rightarrow> rat) \<Rightarrow> config \<Rightarrow> 32 word \<Rightarrow> 32 word \<Rightarrow> bool" where
  "readyToTrip fl cfg requests totalFailures =
     (if requests < word_of_int (dc_CBMinRequests cfg) then False
      else if requests = 0
      then totalFailures \<noteq> 0 \<comment> \<open>\<open>+Inf\<close>; \<open>0/0\<close> is a NaN, which compares false\<close>
      else fl (of_int (uint totalFailures) / of_int (uint requests)) \<ge> dc_CBFailureThreshold cfg)"

text \<open>
  The state-change callback: the gauge is set to the numeric value of the state and the
  state is sent, without blocking, on a channel of capacity 3.
\<close>

definition circuitStateCap :: nat where "circuitStateCap = 3"

definition onStateChange ::
  "gobreaker_state \<Rightarrow> circuit_state list \<times> int \<Rightarrow> circuit_state list \<times> int"
where
  "onStateChange to chg =
     (let newState = gobreakerStateToCircuit to; ch = fst chg
      in (if length ch < circuitStateCap then ch @ [newState] else ch, circuit_value newState))"

subsection \<open>Lemmas\<close>

lemma float64_mono: "float64_rounding fl \<Longrightarrow> x \<le> y \<Longrightarrow> fl x \<le> fl y"
  by (auto simp: float64_rounding_def dest: monoD)

lemma float64_int: "float64_rounding fl \<Longrightarrow> \<bar>n\<bar> \<le> 2 ^ 53 \<Longrightarrow> fl (of_int n) = of_int n"
  by (simp add: float64_rounding_def)

lemma float64_rounding_id: "float64_rounding (\<lambda>x. x)"
  by (simp add: float64_rounding_def mono_def)

text \<open>The delay before the jitter, as an integer number of nanoseconds.\<close>

definition capped_delay :: "nat \<Rightarrow> int" where
  "capped_delay n = min (retryBaseDelay * 2 ^ n) retryMaxDelay"

lemma capped_delay_rat:
  "(if of_int retryBaseDelay * 2 powi int n > (of_int retryMaxDelay :: rat) then of_int retryMaxDelay
    else of_int retryBaseDelay * 2 powi int n) = (of_int (capped_delay n) :: rat)"
proof -
  have e: "(of_int retryBaseDelay * 2 powi int n :: rat) = of_int (retryBaseDelay * 2 ^ n)"
    by simp
  show ?thesis unfolding e of_int_less_iff by (simp add: capped_delay_def min_def)
qed

lemma capped_delay_bounds: "0 < capped_delay n" "capped_delay n \<le> retryMaxDelay"
  by (simp_all add: capped_delay_def retryBaseDelay_def retryMaxDelay_def)

lemma capped_delay_even: "\<exists>k. capped_delay n = 2 * k"
proof -
  have "even (capped_delay n)"
    by (simp add: capped_delay_def retryBaseDelay_def retryMaxDelay_def min_def)
  then show ?thesis by (auto elim: evenE)
qed

lemma backoff_between:
  assumes fl: "float64_rounding fl" and r: "0 \<le> rnd" "rnd \<le> 1"
  shows "capped_delay n \<le> backoff fl rnd (int n)"
    and "backoff fl rnd (int n) \<le> capped_delay n + capped_delay n div 2"
proof -
  define d where "d = capped_delay n"
  obtain k where k: "d = 2 * k" using capped_delay_even d_def by blast
  have b: "0 < d" "d \<le> 30000000000"
    using capped_delay_bounds [of n] by (simp_all add: d_def retryMaxDelay_def)
  have half: "fl (of_int d * jitterFactor) = of_int k"
    using b k float64_int [OF fl, of k] by (simp add: jitterFactor_def)
  define j where "j = fl (of_int k * rnd)"
  have "0 \<le> of_int k * rnd" "of_int k * rnd \<le> of_int k"
    using r b k by (auto simp: mult_left_le)
  from this [THEN float64_mono [OF fl]] have j: "0 \<le> j" "j \<le> of_int k"
    using float64_int [OF fl, of 0] float64_int [OF fl, of k] b k by (simp_all add: j_def)
  have eq: "backoff fl rnd (int n) = \<lfloor>fl (of_int d + j)\<rfloor>"
    unfolding backoff_def Let_def capped_delay_rat j_def half [symmetric] d_def by simp
  have "fl (of_int d) \<le> fl (of_int d + j)" "fl (of_int d + j) \<le> fl (of_int (d + k))"
    using j by (auto intro!: float64_mono [OF fl])
  then have bnd: "of_int d \<le> fl (of_int d + j)" "fl (of_int d + j) \<le> of_int (d + k)"
    using float64_int [OF fl, of d] float64_int [OF fl, of "d + k"] b k by simp_all
  show "capped_delay n \<le> backoff fl rnd (int n)"
    using bnd(1) unfolding eq d_def by (simp add: le_floor_iff)
  show "backoff fl rnd (int n) \<le> capped_delay n + capped_delay n div 2"
    using bnd(2) k unfolding eq d_def by (simp add: floor_le_iff)
qed

lemma fold_onStateChange:
  "length ch \<le> 3 \<Longrightarrow> fold onStateChange ts (ch, g)
     = (take 3 (ch @ map gobreakerStateToCircuit ts),
        if ts = [] then g else circuit_value (gobreakerStateToCircuit (last ts)))"
proof (induction ts arbitrary: ch g)
  case (Cons t ts)
  show ?case
  proof (cases "length ch < 3")
    case True
    then show ?thesis
      using Cons.IH [of "ch @ [gobreakerStateToCircuit t]"]
      by (simp add: onStateChange_def Let_def circuitStateCap_def)
  next
    case False
    with Cons.prems show ?thesis
      using Cons.IH [of ch] by (simp add: onStateChange_def Let_def circuitStateCap_def)
  qed
qed simp

subsection \<open>Properties\<close>

text \<open>
  C35: the retry delay before attempt \<open>n + 1\<close> is at least \<open>min (100ms * 2^n) 30s\<close> and at most
  half as much again, under any rounding of the \<open>float64\<close> jitter; it doubles up to the cap,
  and the jitter is added after the cap, so the delay can be up to 45s.
\<close>

theorem backoff_bounds:
  assumes "float64_rounding fl" and "0 \<le> rnd" and "rnd < 1"
  shows "min (100 * Millisecond * 2 ^ n) (30 * Second) \<le> backoff fl rnd (int n)
    \<and> 2 * backoff fl rnd (int n) \<le> 3 * min (100 * Millisecond * 2 ^ n) (30 * Second)
    \<and> backoff fl rnd (int n) \<le> 45 * Second
    \<and> (9 \<le> n \<longrightarrow> 30 * Second \<le> backoff fl rnd (int n))"
proof -
  have d: "capped_delay n = min (100 * Millisecond * 2 ^ n) (30 * Second)"
    by (simp add: capped_delay_def retryBaseDelay_def retryMaxDelay_def)
  have nine: "30 * Second \<le> capped_delay n" if "9 \<le> n"
  proof -
    have "(2::int) ^ 9 \<le> 2 ^ n" using that by (intro power_increasing) simp_all
    then show ?thesis by (simp add: d)
  qed
  show ?thesis
    using backoff_between [OF assms(1,2), of n] assms(3) capped_delay_bounds [of n] nine
    unfolding d [symmetric] by (auto simp: retryMaxDelay_def)
qed

theorem backoff_bounds_witness:
  "float64_rounding (\<lambda>x. x) \<and> (0::rat) \<le> 1/2 \<and> (1/2::rat) < 1
    \<and> backoff (\<lambda>x. x) (1/2) (int 9) \<le> 45 * Second
    \<and> backoff (\<lambda>x. x) (1/2) 12 = 37500000000"
  using backoff_bounds [OF float64_rounding_id, of "1/2" 9] float64_rounding_id
  by (simp add: backoff_def Let_def jitterFactor_def retryBaseDelay_def retryMaxDelay_def)

text \<open>
  The breaker trips on a failed request only when at least \<open>CBMinRequests\<close> requests were
  counted, and then certainly when the exact failure ratio has reached the threshold; when
  every counted request failed it trips for every threshold up to 1, and with no failure it
  does not trip for a positive threshold.
\<close>

theorem ready_to_trip:
  assumes fl: "float64_rounding fl" and t: "fl (dc_CBFailureThreshold cfg) = dc_CBFailureThreshold cfg"
    and m: "0 < dc_CBMinRequests cfg" "dc_CBMinRequests cfg < 2 ^ 32"
  shows "(uint requests < dc_CBMinRequests cfg \<longrightarrow> \<not> readyToTrip fl cfg requests failures)
    \<and> (dc_CBMinRequests cfg \<le> uint requests
        \<and> dc_CBFailureThreshold cfg * of_int (uint requests) \<le> of_int (uint failures)
       \<longrightarrow> readyToTrip fl cfg requests failures)
    \<and> (dc_CBMinRequests cfg \<le> uint requests \<and> dc_CBFailureThreshold cfg \<le> 1
       \<longrightarrow> readyToTrip fl cfg requests requests)
    \<and> (0 < dc_CBFailureThreshold cfg \<longrightarrow> \<not> readyToTrip fl cfg requests 0)"
proof -
  have u: "uint (word_of_int (dc_CBMinRequests cfg) :: 32 word) = dc_CBMinRequests cfg"
    using m by (simp add: uint_word_of_int)
  have lt: "requests < word_of_int (dc_CBMinRequests cfg) \<longleftrightarrow> uint requests < dc_CBMinRequests cfg"
    by (simp add: word_less_def u)
  have pos: "requests \<noteq> 0 \<and> (0::rat) < of_int (uint requests)" if "dc_CBMinRequests cfg \<le> uint requests"
  proof -
    have "0 < uint requests" using that m by linarith
    then have "requests \<noteq> 0" by auto
    with \<open>0 < uint requests\<close> show ?thesis by (simp only: of_int_0_less_iff) simp
  qed
  have trip: "readyToTrip fl cfg requests f
      \<longleftrightarrow> dc_CBFailureThreshold cfg \<le> fl (of_int (uint f) / of_int (uint requests))"
    if "dc_CBMinRequests cfg \<le> uint requests" for f
  proof -
    have "\<not> requests < word_of_int (dc_CBMinRequests cfg)" using that lt by linarith
    with pos [OF that] show ?thesis by (simp only: readyToTrip_def if_False simp_thms)
  qed
  have ge: "dc_CBFailureThreshold cfg \<le> fl x" if "dc_CBFailureThreshold cfg \<le> x" for x
    using float64_mono [OF fl that] t by simp
  have one: "dc_CBFailureThreshold cfg \<le> fl 1" if "dc_CBFailureThreshold cfg \<le> 1"
    using ge [OF that] .
  have zero: "fl 0 = 0" using float64_int [OF fl, of 0] by simp
  show ?thesis
  proof (intro conjI impI)
    assume "uint requests < dc_CBMinRequests cfg"
    then show "\<not> readyToTrip fl cfg requests failures" by (simp only: readyToTrip_def lt if_True simp_thms)
  next
    assume a: "dc_CBMinRequests cfg \<le> uint requests
      \<and> dc_CBFailureThreshold cfg * of_int (uint requests) \<le> of_int (uint failures)"
    with pos have "dc_CBFailureThreshold cfg \<le> of_int (uint failures) / of_int (uint requests)"
      by (simp only: pos_le_divide_eq)
    with a ge trip show "readyToTrip fl cfg requests failures" by blast
  next
    assume a: "dc_CBMinRequests cfg \<le> uint requests \<and> dc_CBFailureThreshold cfg \<le> 1"
    with pos have "of_int (uint requests) / of_int (uint requests) = (1::rat)" by simp
    with a one trip show "readyToTrip fl cfg requests requests" by metis
  next
    assume "0 < dc_CBFailureThreshold cfg"
    with zero show "\<not> readyToTrip fl cfg requests 0" by (simp add: readyToTrip_def)
  qed
qed

theorem ready_to_trip_witness:
  "float64_rounding (\<lambda>x. x) \<and> readyToTrip (\<lambda>x. x) DefaultDispatcherConfig 5 3
    \<and> \<not> readyToTrip (\<lambda>x. x) DefaultDispatcherConfig 2 2
    \<and> \<not> readyToTrip (\<lambda>x. x) DefaultDispatcherConfig 5 0"
  using ready_to_trip [OF float64_rounding_id, of DefaultDispatcherConfig 5 3]
    ready_to_trip [OF float64_rounding_id, of DefaultDispatcherConfig 2 2] float64_rounding_id
  by (simp add: DefaultDispatcherConfig_def)

text \<open>
  C36: what the poll loop and the metrics see of a sequence of breaker transitions. The
  notification channel keeps the oldest three unread states and drops every later one, and
  the gauge holds the value of the last transition, 1 for open and 2 for half-open. So a
  poll loop that was busy during open, half-open, open, half-open, closed reads open as the
  last state although the circuit is closed. The gauge does not have its documented encoding:
  the README, the metrics documentation, the help text of the metric and the comment beside the
  code say 1 for half-open and 2 for open.
\<close>

theorem circuit_notifications:
  assumes "length ch \<le> 3"
  shows "fold onStateChange ts (ch, g)
           = (take 3 (ch @ map gobreakerStateToCircuit ts),
              if ts = [] then g else circuit_value (gobreakerStateToCircuit (last ts)))
    \<and> fold onStateChange [StateOpen, StateHalfOpen, StateOpen, StateHalfOpen, StateClosed] ([], 0)
        = ([Open, HalfOpen, Open], 0)
    \<and> snd (onStateChange StateOpen chg) = 1 \<and> snd (onStateChange StateHalfOpen chg) = 2"
  using fold_onStateChange [OF assms]
  by (simp add: onStateChange_def Let_def circuitStateCap_def)

theorem circuit_notifications_witness:
  "length [Open, HalfOpen] \<le> 3
    \<and> fold onStateChange [StateClosed, StateOpen] ([Open, HalfOpen], 2) = ([Open, HalfOpen, Closed], 1)"
  using circuit_notifications [of "[Open, HalfOpen]" "[StateClosed, StateOpen]" 2] by simp

end
