(* ===== verification/Unordered_Dispatcher.thy ===== *)
theory Unordered_Dispatcher
  imports Offset_Coordinator Dispatcher_Config
begin

text \<open>
  The unordered dispatcher, \<^verbatim>\<open>internal/dispatcher/unordered.go\<close>: per-partition buffers,
  batch assembly, the bounded batch channel, linger timers, rebalance notifications and
  shutdown. The retry loop of the workers is theory \<open>Batch_Processing\<close>.

  The code's methods release the mutex between their steps. Each stretch that runs under one
  lock, and each single channel or coordinator operation, is a definition of its own
  (\<open>send_region\<close>, \<open>try_region\<close>, \<open>track\<close>, \<open>chan_send\<close>, \<open>put_back\<close>, ...). A method is
  their composition, which is what it does when no other goroutine interferes; the theory
  \<open>Dispatcher_Concurrency\<close> interleaves the same stretches.

  A timer is a number; \<open>d_timers\<close> holds the timers that are armed with the partition each
  will flush, so that \<open>Stop\<close> and the firing of a timer are operations on that list. A
  channel is the list of its buffered elements. The gauges and counters of
  \<^verbatim>\<open>internal/metrics/dispatcher.go\<close> are integer-valued functions of their labels.
\<close>

subsection \<open>State\<close>

record batch =
  b_partition :: int32
  b_maxOffset :: int64
  b_messages :: "message list"

record partitionBuffer =
  pb_messages :: "message list"
  pb_inFlight :: bool
  pb_lingerTimer :: "nat option"

record dispatcher_metrics =
  dm_MessagesProcessed :: "string \<Rightarrow> int32 \<Rightarrow> int"
  dm_DLQMessages :: "string \<Rightarrow> int32 \<Rightarrow> int"
  dm_InflightMessages :: "int32 \<Rightarrow> int"
  dm_ProcessingTime :: "(int32 \<times> duration) list"
  dm_MessageDelay :: "(int32 \<times> duration) list"
  dm_RecordAge :: "(int32 \<times> duration) list"

record dispatcher =
  d_cfg :: config
  d_coordinator :: coordinator
  d_batchCh :: "batch list"
  d_batchChClosed :: bool
  d_readyCh :: bool
  d_circuitStateCh :: "circuit_state list"
  d_partitions :: "(int32, partitionBuffer) fmap"
  d_closed :: bool
  d_workers :: nat
  d_timers :: "(nat \<times> int32) list"
  d_nextTimer :: nat
  d_m :: dispatcher_metrics

abbreviation StatusSuccess :: string where "StatusSuccess \<equiv> ''success''"
abbreviation StatusNonRetryable :: string where "StatusNonRetryable \<equiv> ''non_retryable''"
abbreviation StatusRetriesExhausted :: string where "StatusRetriesExhausted \<equiv> ''retries_exhausted''"

definition errClosed :: go_error where
  "errClosed = ErrorString ''dispatcher: closed''"

definition NewDispatcherMetrics :: dispatcher_metrics where
  "NewDispatcherMetrics =
     \<lparr>dm_MessagesProcessed = (\<lambda>_ _. 0), dm_DLQMessages = (\<lambda>_ _. 0),
      dm_InflightMessages = (\<lambda>_. 0), dm_ProcessingTime = [], dm_MessageDelay = [],
      dm_RecordAge = []\<rparr>"

subsection \<open>Construction\<close>

text \<open>
  The arguments that may be nil are options; the processor is used by the workers only, so
  here it matters only whether it is nil. The configuration is not validated: a negative
  channel capacity makes \<open>make\<close> panic.
\<close>

definition NewUnorderedDispatcher ::
  "config \<Rightarrow> 'p option \<Rightarrow> coordinator option \<Rightarrow> dispatcher_metrics option
    \<Rightarrow> panic + (go_error + dispatcher)"
where
  "NewUnorderedDispatcher cfg processor coord metrics =
     (case processor of
        None \<Rightarrow> Inr (Inl (ErrorString ''dispatcher: batch processor must not be nil''))
      | Some _ \<Rightarrow>
     (case coord of
        None \<Rightarrow> Inr (Inl (ErrorString ''dispatcher: offset coordinator must not be nil''))
      | Some c \<Rightarrow>
     (case metrics of
        None \<Rightarrow> Inr (Inl (ErrorString ''dispatcher: metrics must not be nil''))
      | Some m \<Rightarrow>
          if dc_ChannelCap cfg < 0 then Inl MakeChanNegative
          else Inr (Inr
            \<lparr>d_cfg = cfg, d_coordinator = c, d_batchCh = [], d_batchChClosed = False,
             d_readyCh = False, d_circuitStateCh = [], d_partitions = fmempty,
             d_closed = False, d_workers = 0, d_timers = [], d_nextTimer = 0, d_m = m\<rparr>))))"

definition Start :: "dispatcher \<Rightarrow> dispatcher" where
  "Start d = d\<lparr>d_workers := d_workers d + nat (dc_WorkerCount (d_cfg d))\<rparr>"

subsection \<open>Buffers and timers\<close>

definition set_buffer :: "int32 \<Rightarrow> partitionBuffer \<Rightarrow> dispatcher \<Rightarrow> dispatcher" where
  "set_buffer p pb d = d\<lparr>d_partitions := fmupd p pb (d_partitions d)\<rparr>"

text \<open>The guarded \<open>Stop\<close>: a timer that has fired already is not armed any more.\<close>

definition stopTimer :: "int32 \<Rightarrow> partitionBuffer \<Rightarrow> dispatcher \<Rightarrow> dispatcher" where
  "stopTimer p pb d =
     (case pb_lingerTimer pb of
        None \<Rightarrow> set_buffer p pb d
      | Some i \<Rightarrow> (set_buffer p (pb\<lparr>pb_lingerTimer := None\<rparr>) d)
                    \<lparr>d_timers := filter (\<lambda>t. fst t \<noteq> i) (d_timers d)\<rparr>)"

definition new_buffer :: "config \<Rightarrow> panic + partitionBuffer" where
  "new_buffer cfg =
     (if dc_BatchSize cfg < 0 then Inl MakeSliceNegative
      else Inr \<lparr>pb_messages = [], pb_inFlight = False, pb_lingerTimer = None\<rparr>)"

definition assembleBatch :: "int32 \<Rightarrow> partitionBuffer \<Rightarrow> dispatcher \<Rightarrow> panic + (batch \<times> dispatcher)"
where
  "assembleBatch p pb d =
     (let size = (if dc_BatchSize (d_cfg d) > int (length (pb_messages pb))
                  then int (length (pb_messages pb)) else dc_BatchSize (d_cfg d))
      in if size < 0 then Inl MakeSliceNegative
         else let msgs = take (nat size) (pb_messages pb);
                  pb' = pb\<lparr>pb_messages := drop (nat size) (pb_messages pb)\<rparr>
              in if msgs = [] then Inl IndexOutOfRange
                 else Inr (\<lparr>b_partition = p, b_maxOffset = m_Offset (last msgs), b_messages = msgs\<rparr>,
                           stopTimer p pb' d))"

definition startLingerTimer :: "int32 \<Rightarrow> dispatcher \<Rightarrow> panic + dispatcher" where
  "startLingerTimer p d =
     (case fmlookup (d_partitions d) p of
        None \<Rightarrow> Inl NilDereference
      | Some pb \<Rightarrow>
          (case pb_lingerTimer pb of
             Some _ \<Rightarrow> Inr d
           | None \<Rightarrow>
               Inr ((set_buffer p (pb\<lparr>pb_lingerTimer := Some (d_nextTimer d)\<rparr>) d)
                 \<lparr>d_timers := d_timers d @ [(d_nextTimer d, p)], d_nextTimer := Suc (d_nextTimer d)\<rparr>)))"

definition set_inFlight :: "int32 \<Rightarrow> bool \<Rightarrow> dispatcher \<Rightarrow> dispatcher" where
  "set_inFlight p f d =
     (case fmlookup (d_partitions d) p of
        None \<Rightarrow> d
      | Some pb \<Rightarrow> set_buffer p (pb\<lparr>pb_inFlight := f\<rparr>) d)"

subsection \<open>Stretches under the mutex\<close>

text \<open>The locked part of \<open>Send\<close>: the closed check and the append.\<close>

definition send_region ::
  "int32 \<Rightarrow> message list \<Rightarrow> dispatcher \<Rightarrow> panic + (go_error option \<times> dispatcher)"
where
  "send_region p msgs d =
     (if d_closed d then Inr (Some errClosed, d)
      else go_bind (case fmlookup (d_partitions d) p of
                      Some pb \<Rightarrow> Inr pb
                    | None \<Rightarrow> new_buffer (d_cfg d))
             (\<lambda>pb. Inr (None, set_buffer p (pb\<lparr>pb_messages := pb_messages pb @ msgs\<rparr>) d)))"

text \<open>The locked part of \<open>tryDispatch\<close>: a full batch, or the linger timer is started.\<close>

definition try_region :: "int32 \<Rightarrow> dispatcher \<Rightarrow> panic + (batch option \<times> dispatcher)" where
  "try_region p d =
     (case fmlookup (d_partitions d) p of
        None \<Rightarrow> Inr (None, d)
      | Some pb \<Rightarrow>
          if pb_inFlight pb \<or> length (pb_messages pb) = 0 then Inr (None, d)
          else if int (length (pb_messages pb)) \<ge> dc_BatchSize (d_cfg d)
          then go_bind (assembleBatch p pb d) (\<lambda>(b, d'). Inr (Some b, set_inFlight p True d'))
          else go_bind (startLingerTimer p d) (\<lambda>d'. Inr (None, d')))"

text \<open>The locked part of \<open>flushPartition\<close>: a batch of whatever is buffered.\<close>

definition flush_region :: "int32 \<Rightarrow> dispatcher \<Rightarrow> panic + (batch option \<times> dispatcher)" where
  "flush_region p d =
     (case fmlookup (d_partitions d) p of
        None \<Rightarrow> Inr (None, d)
      | Some pb \<Rightarrow>
          if pb_inFlight pb \<or> length (pb_messages pb) = 0 then Inr (None, d)
          else go_bind (assembleBatch p pb d) (\<lambda>(b, d'). Inr (Some b, set_inFlight p True d')))"

text \<open>The locked part of the timer callback.\<close>

definition linger_region :: "int32 \<Rightarrow> dispatcher \<Rightarrow> dispatcher" where
  "linger_region p d =
     (case fmlookup (d_partitions d) p of
        None \<Rightarrow> d
      | Some pb \<Rightarrow> set_buffer p (pb\<lparr>pb_lingerTimer := None\<rparr>) d)"

text \<open>
  The steps of \<open>dispatchBatch\<close>; the gauge is increased with the successful send. The channel is
  a buffered one, as every validated configuration makes it: the hand-over of an unbuffered
  channel to a worker that waits (\<open>ChannelCap\<close> 0) is not modelled.
\<close>

definition track :: "batch \<Rightarrow> dispatcher \<Rightarrow> panic + dispatcher" where
  "track b d = go_bind (BatchDispatched (b_partition b) (b_maxOffset b) (d_coordinator d))
                 (\<lambda>c. Inr (d\<lparr>d_coordinator := c\<rparr>))"

definition chan_send :: "batch \<Rightarrow> dispatcher \<Rightarrow> panic + (bool \<times> dispatcher)" where
  "chan_send b d =
     (if d_batchChClosed d then Inl SendOnClosedChannel
      else if int (length (d_batchCh d)) < dc_ChannelCap (d_cfg d)
      then Inr (True, d\<lparr>d_batchCh := d_batchCh d @ [b],
                  d_m := (d_m d)\<lparr>dm_InflightMessages := (dm_InflightMessages (d_m d))
                    (b_partition b := dm_InflightMessages (d_m d) (b_partition b)
                                        + int (length (b_messages b)))\<rparr>\<rparr>)
      else Inr (False, d))"

definition complete :: "batch \<Rightarrow> dispatcher \<Rightarrow> panic + dispatcher" where
  "complete b d = go_bind (BatchComplete (b_partition b) (b_maxOffset b) (d_coordinator d))
                    (\<lambda>c. Inr (d\<lparr>d_coordinator := c\<rparr>))"

definition put_back :: "batch \<Rightarrow> dispatcher \<Rightarrow> panic + dispatcher" where
  "put_back b d =
     (case fmlookup (d_partitions d) (b_partition b) of
        None \<Rightarrow> Inl NilDereference
      | Some pb \<Rightarrow>
          Inr (set_buffer (b_partition b)
                 (pb\<lparr>pb_inFlight := False, pb_messages := b_messages b @ pb_messages pb\<rparr>) d))"

text \<open>
  The locked part of \<open>onBatchDone\<close>: the partition is released and the partitions with
  buffered messages and no batch in flight are collected, in the order the map is visited.
\<close>

definition done_region :: "int32 list \<Rightarrow> int32 \<Rightarrow> dispatcher \<Rightarrow> int32 list \<times> dispatcher" where
  "done_region ord p d =
     (let d' = set_inFlight p False d
      in (filter (\<lambda>q. case fmlookup (d_partitions d') q of
                         None \<Rightarrow> False
                       | Some pb \<Rightarrow> \<not> pb_inFlight pb \<and> length (pb_messages pb) > 0) ord, d'))"

definition signal_ready :: "dispatcher \<Rightarrow> dispatcher" where
  "signal_ready d = d\<lparr>d_readyCh := True\<rparr>"

text \<open>The locked part of \<open>Close\<close>, and one rebalance notification per partition.\<close>

definition stop_all :: "int32 list \<Rightarrow> dispatcher \<Rightarrow> dispatcher" where
  "stop_all = fold (\<lambda>p d. case fmlookup (d_partitions d) p of
                            None \<Rightarrow> d | Some pb \<Rightarrow> stopTimer p pb d)"

definition close_region :: "int32 list \<Rightarrow> dispatcher \<Rightarrow> panic + dispatcher" where
  "close_region ord d =
     (if d_batchChClosed d then Inl CloseOfClosedChannel
      else Inr ((stop_all ord (d\<lparr>d_closed := True\<rparr>))\<lparr>d_batchChClosed := True\<rparr>))"

fun OnPartitionsAssigned :: "partition list \<Rightarrow> dispatcher \<Rightarrow> panic + dispatcher" where
  "OnPartitionsAssigned [] d = Inr d"
| "OnPartitionsAssigned (p # ps) d =
     (case fmlookup (d_partitions d) (p_Partition p) of
        Some _ \<Rightarrow> OnPartitionsAssigned ps d
      | None \<Rightarrow> go_bind (new_buffer (d_cfg d))
                  (\<lambda>pb. OnPartitionsAssigned ps (set_buffer (p_Partition p) pb d)))"

definition revoke_one :: "int32 \<Rightarrow> dispatcher \<Rightarrow> dispatcher" where
  "revoke_one p d =
     (case fmlookup (d_partitions d) p of
        None \<Rightarrow> d
      | Some pb \<Rightarrow> stopTimer p (pb\<lparr>pb_messages := []\<rparr>) d)"

definition OnPartitionsRevoked :: "partition list \<Rightarrow> dispatcher \<Rightarrow> dispatcher" where
  "OnPartitionsRevoked ps = fold (\<lambda>p. revoke_one (p_Partition p)) ps"

subsection \<open>The methods\<close>

definition dispatchBatch :: "batch \<Rightarrow> dispatcher \<Rightarrow> panic + (go_error option \<times> dispatcher)" where
  "dispatchBatch b d =
     (if d_closed d then Inr (Some errClosed, d)
      else go_bind (track b d) (\<lambda>d1.
           go_bind (chan_send b d1) (\<lambda>(sent, d2).
             if sent then Inr (None, d2)
             else go_bind (complete b d2) (\<lambda>d3.
                  go_bind (put_back b d3) (\<lambda>d4.
                  Inr (Some (Sentinel ErrBackpressure), d4))))))"

definition tryDispatch :: "int32 \<Rightarrow> dispatcher \<Rightarrow> panic + (go_error option \<times> dispatcher)" where
  "tryDispatch p d =
     go_bind (try_region p d) (\<lambda>(ob, d').
       case ob of None \<Rightarrow> Inr (None, d') | Some b \<Rightarrow> dispatchBatch b d')"

definition Send ::
  "int32 \<Rightarrow> message list \<Rightarrow> dispatcher \<Rightarrow> panic + (go_error option \<times> dispatcher)"
where
  "Send p msgs d =
     go_bind (send_region p msgs d) (\<lambda>(err, d').
       case err of Some e \<Rightarrow> Inr (Some e, d') | None \<Rightarrow> tryDispatch p d')"

definition flushPartition :: "int32 \<Rightarrow> dispatcher \<Rightarrow> panic + dispatcher" where
  "flushPartition p d =
     go_bind (flush_region p d) (\<lambda>(ob, d').
       case ob of None \<Rightarrow> Inr d' | Some b \<Rightarrow> go_bind (dispatchBatch b d') (\<lambda>(_, d''). Inr d''))"

text \<open>A timer that is armed fires: it is not armed any more and its callback runs.\<close>

definition timer_fires :: "nat \<Rightarrow> int32 \<Rightarrow> dispatcher \<Rightarrow> panic + dispatcher" where
  "timer_fires i p d =
     flushPartition p (linger_region p (d\<lparr>d_timers := filter (\<lambda>t. fst t \<noteq> i) (d_timers d)\<rparr>))"

fun drain_pending :: "int32 list \<Rightarrow> dispatcher \<Rightarrow> panic + dispatcher" where
  "drain_pending [] d = Inr d"
| "drain_pending (p # ps) d =
     go_bind (tryDispatch p d) (\<lambda>(err, d').
       case err of Some _ \<Rightarrow> Inr d' | None \<Rightarrow> drain_pending ps d')"

definition onBatchDone :: "int32 list \<Rightarrow> int32 \<Rightarrow> dispatcher \<Rightarrow> panic + dispatcher" where
  "onBatchDone ord p d =
     (let (pending, d') = done_region ord p d in drain_pending pending (signal_ready d'))"

text \<open>What ends the wait of \<open>Close\<close>: all workers have returned, or the context is done.\<close>

datatype close_outcome = WorkersDrained | CloseDeadline go_error

definition Close :: "int32 list \<Rightarrow> close_outcome \<Rightarrow> dispatcher \<Rightarrow> panic + (go_error option \<times> dispatcher)"
where
  "Close ord outcome d =
     go_bind (close_region ord d) (\<lambda>d'.
       Inr (case outcome of WorkersDrained \<Rightarrow> (None, d') | CloseDeadline err \<Rightarrow> (Some err, d')))"

subsection \<open>Dead letters and metrics of a finished batch\<close>

text \<open>\<open>produce\<close> is the configured producer, if any, with the result it would return.\<close>

definition sendToDLQ ::
  "(message list \<Rightarrow> go_error \<Rightarrow> go_error option) option \<Rightarrow> batch \<Rightarrow> go_error \<Rightarrow> string
    \<Rightarrow> dispatcher_metrics \<Rightarrow> dispatcher_metrics"
where
  "sendToDLQ produce b reason reasonLabel m =
     (case produce of
        None \<Rightarrow> m
      | Some f \<Rightarrow>
          (case f (b_messages b) reason of
             Some _ \<Rightarrow> m
           | None \<Rightarrow> m\<lparr>dm_DLQMessages := (dm_DLQMessages m)
               (reasonLabel := (dm_DLQMessages m reasonLabel)
                 (b_partition b := dm_DLQMessages m reasonLabel (b_partition b)
                                     + int (length (b_messages b))))\<rparr>))"

definition recordBatchMetrics ::
  "batch \<Rightarrow> int \<Rightarrow> int \<Rightarrow> string \<Rightarrow> dispatcher_metrics \<Rightarrow> dispatcher_metrics"
where
  "recordBatchMetrics b start now status m =
     (let p = b_partition b; n = int (length (b_messages b))
      in m\<lparr>dm_MessagesProcessed := (dm_MessagesProcessed m)
             (status := (dm_MessagesProcessed m status)(p := dm_MessagesProcessed m status p + n)),
           dm_ProcessingTime := dm_ProcessingTime m @ [(p, now - start)],
           dm_InflightMessages := (dm_InflightMessages m)(p := dm_InflightMessages m p - n),
           dm_MessageDelay := dm_MessageDelay m @ map (\<lambda>x. (p, now - m_PolledAt x)) (b_messages b),
           dm_RecordAge := dm_RecordAge m @ map (\<lambda>x. (p, now - m_Timestamp x)) (b_messages b)\<rparr>)"

subsection \<open>Views\<close>

definition buffered :: "int32 \<Rightarrow> dispatcher \<Rightarrow> message list" where
  "buffered p d = (case fmlookup (d_partitions d) p of None \<Rightarrow> [] | Some pb \<Rightarrow> pb_messages pb)"

definition in_flight :: "int32 \<Rightarrow> dispatcher \<Rightarrow> bool" where
  "in_flight p d = (case fmlookup (d_partitions d) p of None \<Rightarrow> False | Some pb \<Rightarrow> pb_inFlight pb)"

definition lingering :: "int32 \<Rightarrow> dispatcher \<Rightarrow> bool" where
  "lingering p d =
     (case fmlookup (d_partitions d) p of None \<Rightarrow> False | Some pb \<Rightarrow> pb_lingerTimer pb \<noteq> None)"

text \<open>
  What holds between two method calls: the coordinator is well formed and tracks a batch only
  for partitions that are marked in flight, and the closed flag agrees with the channel.
\<close>

definition disp_ok :: "dispatcher \<Rightarrow> bool" where
  "disp_ok d \<longleftrightarrow> 0 < dc_BatchSize (d_cfg d) \<and> coord_wf (d_coordinator d)
     \<and> (\<forall>p m. coord_view (d_coordinator d) p = InFlight m \<longrightarrow> in_flight p d)
     \<and> d_closed d = d_batchChClosed d"

lemmas buffer_views = buffered_def in_flight_def lingering_def

lemma set_buffer_lookup [simp]:
  "fmlookup (d_partitions (set_buffer p pb d)) q
     = (if q = p then Some pb else fmlookup (d_partitions d) q)"
  by (simp add: set_buffer_def)

lemma set_buffer_frame [frame_simps]:
  "d_cfg (set_buffer p pb d) = d_cfg d"
  "d_coordinator (set_buffer p pb d) = d_coordinator d"
  "d_batchCh (set_buffer p pb d) = d_batchCh d"
  "d_batchChClosed (set_buffer p pb d) = d_batchChClosed d"
  "d_closed (set_buffer p pb d) = d_closed d"
  "d_readyCh (set_buffer p pb d) = d_readyCh d"
  "d_timers (set_buffer p pb d) = d_timers d"
  "d_nextTimer (set_buffer p pb d) = d_nextTimer d"
  "d_m (set_buffer p pb d) = d_m d"
  by (simp_all add: set_buffer_def)

lemma stopTimer_lookup [simp]:
  "fmlookup (d_partitions (stopTimer p pb d)) q
     = (if q = p then Some (pb\<lparr>pb_lingerTimer := None\<rparr>) else fmlookup (d_partitions d) q)"
  by (cases pb) (simp add: stopTimer_def split: option.split)

lemma stopTimer_frame [frame_simps]:
  "d_cfg (stopTimer p pb d) = d_cfg d"
  "d_coordinator (stopTimer p pb d) = d_coordinator d"
  "d_batchCh (stopTimer p pb d) = d_batchCh d"
  "d_batchChClosed (stopTimer p pb d) = d_batchChClosed d"
  "d_closed (stopTimer p pb d) = d_closed d"
  "d_readyCh (stopTimer p pb d) = d_readyCh d"
  "d_m (stopTimer p pb d) = d_m d"
  by (simp_all add: stopTimer_def frame_simps split: option.split)

lemma set_inFlight_lookup [simp]:
  "fmlookup (d_partitions (set_inFlight p f d)) q
     = (if q = p then map_option (\<lambda>pb. pb\<lparr>pb_inFlight := f\<rparr>) (fmlookup (d_partitions d) p)
        else fmlookup (d_partitions d) q)"
  by (simp add: set_inFlight_def split: option.split)

lemma set_inFlight_frame [frame_simps]:
  "d_cfg (set_inFlight p f d) = d_cfg d"
  "d_coordinator (set_inFlight p f d) = d_coordinator d"
  "d_batchCh (set_inFlight p f d) = d_batchCh d"
  "d_batchChClosed (set_inFlight p f d) = d_batchChClosed d"
  "d_closed (set_inFlight p f d) = d_closed d"
  "d_readyCh (set_inFlight p f d) = d_readyCh d"
  "d_m (set_inFlight p f d) = d_m d"
  by (simp_all add: set_inFlight_def frame_simps split: option.split)

lemma signal_ready_frame [frame_simps]:
  "d_cfg (signal_ready d) = d_cfg d" "d_coordinator (signal_ready d) = d_coordinator d"
  "d_batchCh (signal_ready d) = d_batchCh d" "d_batchChClosed (signal_ready d) = d_batchChClosed d"
  "d_closed (signal_ready d) = d_closed d" "d_partitions (signal_ready d) = d_partitions d"
  "d_readyCh (signal_ready d)" "d_m (signal_ready d) = d_m d"
  by (simp_all add: signal_ready_def)

text \<open>The view of another partition's buffer, and of a coordinator update.\<close>

lemma views_cong:
  "fmlookup (d_partitions d') q = fmlookup (d_partitions d) q
    \<Longrightarrow> buffered q d' = buffered q d \<and> in_flight q d' = in_flight q d
        \<and> lingering q d' = lingering q d"
  by (simp add: buffer_views)

subsection \<open>Lemmas on the stretches\<close>

text \<open>Nothing but one partition's buffer and the timers differ.\<close>

definition only_buffer :: "int32 \<Rightarrow> dispatcher \<Rightarrow> dispatcher \<Rightarrow> bool" where
  "only_buffer p d d' \<longleftrightarrow>
     (\<forall>q. q \<noteq> p \<longrightarrow> fmlookup (d_partitions d') q = fmlookup (d_partitions d) q)
     \<and> (fmlookup (d_partitions d) p \<noteq> None \<longrightarrow> fmlookup (d_partitions d') p \<noteq> None)
     \<and> d_cfg d' = d_cfg d \<and> d_coordinator d' = d_coordinator d \<and> d_batchCh d' = d_batchCh d
     \<and> d_batchChClosed d' = d_batchChClosed d \<and> d_closed d' = d_closed d \<and> d_m d' = d_m d
     \<and> d_readyCh d' = d_readyCh d"

definition batch_of :: "int32 \<Rightarrow> message list \<Rightarrow> batch" where
  "batch_of p msgs = \<lparr>b_partition = p, b_maxOffset = m_Offset (last msgs), b_messages = msgs\<rparr>"

lemma batch_of_sel [simp]:
  "b_partition (batch_of p xs) = p" "b_messages (batch_of p xs) = xs"
  "b_maxOffset (batch_of p xs) = m_Offset (last xs)"
  by (simp_all add: batch_of_def)

abbreviation batch_size :: "dispatcher \<Rightarrow> nat" where
  "batch_size d \<equiv> nat (dc_BatchSize (d_cfg d))"

lemma only_bufferD:
  assumes "only_buffer p d d'"
  shows "d_cfg d' = d_cfg d" "d_coordinator d' = d_coordinator d" "d_batchCh d' = d_batchCh d"
    "d_batchChClosed d' = d_batchChClosed d" "d_closed d' = d_closed d" "d_m d' = d_m d"
    "d_readyCh d' = d_readyCh d"
    "q \<noteq> p \<Longrightarrow> buffered q d' = buffered q d" "q \<noteq> p \<Longrightarrow> in_flight q d' = in_flight q d"
    "q \<noteq> p \<Longrightarrow> lingering q d' = lingering q d"
  using assms by (simp_all add: only_buffer_def buffer_views)

lemma only_buffer_refl [simp]: "only_buffer p d d"
  by (simp add: only_buffer_def)

lemma only_buffer_trans: "only_buffer p d d' \<Longrightarrow> only_buffer p d' d'' \<Longrightarrow> only_buffer p d d''"
  by (simp add: only_buffer_def)

text \<open>Taking a batch off a buffer: its first messages, in order, and nothing else.\<close>

lemma assembleBatch_ok:
  assumes "0 < dc_BatchSize (d_cfg d)" and "pb_messages pb \<noteq> []"
    and "fmlookup (d_partitions d) p = Some pb"
  shows "\<exists>d'. assembleBatch p pb d = Inr (batch_of p (take (batch_size d) (pb_messages pb)), d')
    \<and> only_buffer p d d'
    \<and> fmlookup (d_partitions d') p = Some (pb\<lparr>pb_messages := drop (batch_size d) (pb_messages pb),
          pb_lingerTimer := None\<rparr>)"
proof -
  let ?n = "dc_BatchSize (d_cfg d)" and ?xs = "pb_messages pb"
  have sz: "(if int (length ?xs) < ?n then int (length ?xs) else ?n) = min ?n (int (length ?xs))"
    by simp
  have "nat (min ?n (int (length ?xs))) = min (nat ?n) (length ?xs)"
    using assms(1) by simp
  then have "take (nat (min ?n (int (length ?xs)))) ?xs = take (nat ?n) ?xs"
    and "drop (nat (min ?n (int (length ?xs)))) ?xs = drop (nat ?n) ?xs"
    by (simp_all add: min_def)
  moreover have "take (nat ?n) ?xs \<noteq> []" using assms by simp
  ultimately show ?thesis
    using assms(1) unfolding assembleBatch_def sz Let_def
    by (auto simp: frame_simps only_buffer_def batch_of_def)
qed

definition taken :: "int32 \<Rightarrow> dispatcher \<Rightarrow> dispatcher \<Rightarrow> bool" where
  "taken p d d' \<longleftrightarrow> only_buffer p d d' \<and> in_flight p d'
     \<and> buffered p d' = drop (batch_size d) (buffered p d)"

lemma takenD: "taken p d d' \<Longrightarrow> only_buffer p d d'" "taken p d d' \<Longrightarrow> in_flight p d'"
    "taken p d d' \<Longrightarrow> buffered p d' = drop (batch_size d) (buffered p d)"
  by (simp_all add: taken_def)

lemma assemble_taken:
  assumes "0 < dc_BatchSize (d_cfg d)" and "fmlookup (d_partitions d) p = Some pb"
    and "pb_messages pb \<noteq> []"
  shows "\<exists>d'. go_bind (assembleBatch p pb d) (\<lambda>(b, d'). Inr (Some b, set_inFlight p True d'))
      = Inr (Some (batch_of p (take (batch_size d) (buffered p d))), d') \<and> taken p d d'"
proof -
  from assembleBatch_ok [OF assms(1,3,2)] obtain d' where d': "assembleBatch p pb d
        = Inr (batch_of p (take (batch_size d) (pb_messages pb)), d')" "only_buffer p d d'"
      "fmlookup (d_partitions d') p = Some (pb\<lparr>pb_messages := drop (batch_size d) (pb_messages pb),
          pb_lingerTimer := None\<rparr>)"
    by blast
  then have "taken p d (set_inFlight p True d')"
    using assms(2) by (simp add: taken_def only_buffer_def buffer_views frame_simps)
  with d'(1) assms(2) show ?thesis by (simp add: buffered_def)
qed

lemma try_region_cases:
  assumes "0 < dc_BatchSize (d_cfg d)"
  obtains (skip) "in_flight p d \<or> buffered p d = []" and "try_region p d = Inr (None, d)"
  | (full) d' where "\<not> in_flight p d" and "batch_size d \<le> length (buffered p d)"
      and "buffered p d \<noteq> []"
      and "try_region p d = Inr (Some (batch_of p (take (batch_size d) (buffered p d))), d')"
      and "taken p d d'"
  | (wait) d' where "\<not> in_flight p d" and "length (buffered p d) < batch_size d"
      and "buffered p d \<noteq> []" and "try_region p d = Inr (None, d')" and "only_buffer p d d'"
      and "buffered p d' = buffered p d" and "\<not> in_flight p d'" and "lingering p d'"
proof (cases "fmlookup (d_partitions d) p")
  case None
  show thesis by (rule skip) (simp_all add: None buffer_views try_region_def)
next
  case (Some pb)
  have v: "buffered p d = pb_messages pb" "in_flight p d = pb_inFlight pb"
    using Some by (simp_all add: buffer_views)
  consider "pb_inFlight pb \<or> pb_messages pb = []"
    | "\<not> pb_inFlight pb" "pb_messages pb \<noteq> []" "dc_BatchSize (d_cfg d) \<le> int (length (pb_messages pb))"
    | "\<not> pb_inFlight pb" "pb_messages pb \<noteq> []" "int (length (pb_messages pb)) < dc_BatchSize (d_cfg d)"
    by linarith
  then show thesis
  proof cases
    case 1
    then have "try_region p d = Inr (None, d)" using Some by (auto simp: try_region_def)
    with 1 v skip show thesis by simp
  next
    case 2
    with assemble_taken [OF assms Some] full Some v show thesis
      by (force simp: try_region_def)
  next
    case 3
    obtain d' where "startLingerTimer p d = Inr d'" "only_buffer p d d'"
      "buffered p d' = buffered p d" "\<not> in_flight p d'" "lingering p d'"
      using 3(1) Some v
      by (cases "pb_lingerTimer pb")
        (auto simp: startLingerTimer_def only_buffer_def buffer_views frame_simps)
    with wait 3 Some v show thesis by (force simp: try_region_def)
  qed
qed

lemma flush_region_cases:
  assumes "0 < dc_BatchSize (d_cfg d)"
  obtains (skip) "in_flight p d \<or> buffered p d = []" and "flush_region p d = Inr (None, d)"
  | (some) d' where "\<not> in_flight p d" and "buffered p d \<noteq> []"
      and "flush_region p d = Inr (Some (batch_of p (take (batch_size d) (buffered p d))), d')"
      and "taken p d d'"
proof (cases "fmlookup (d_partitions d) p")
  case None
  show thesis by (rule skip) (simp_all add: None buffer_views flush_region_def)
next
  case (Some pb)
  show thesis
  proof (cases "pb_inFlight pb \<or> pb_messages pb = []")
    case True
    then have "flush_region p d = Inr (None, d)" using Some by (auto simp: flush_region_def)
    with True Some skip show thesis by (simp add: buffer_views)
  next
    case False
    with assemble_taken [OF assms Some] some Some show thesis
      by (force simp: flush_region_def buffer_views)
  qed
qed

text \<open>
  \<open>dispatchBatch\<close> on a dispatcher that is not disturbed: the batch goes to the channel, or it
  comes back to the front of the buffer.
\<close>

lemma track_ok:
  assumes "coord_wf (d_coordinator d)" and "\<And>m. coord_view (d_coordinator d) (b_partition b) \<noteq> InFlight m"
  obtains c where "track b d = Inr (d\<lparr>d_coordinator := c\<rparr>)" and "coord_wf c"
    and "coord_view c = (coord_view (d_coordinator d))(b_partition b := InFlight (b_maxOffset b))"
  using oc.dispatched_cases [OF assms(1), of "b_partition b" "b_maxOffset b"] assms(2)
  by (auto simp: track_def)

lemma complete_ok:
  assumes "coord_wf (d_coordinator d)"
    and "coord_view (d_coordinator d) (b_partition b) = InFlight (b_maxOffset b)"
  obtains c where "complete b d = Inr (d\<lparr>d_coordinator := c\<rparr>)" and "coord_wf c"
    and "coord_view c = (coord_view (d_coordinator d))(b_partition b := Completed (b_maxOffset b))"
  using oc.complete_in_flight [OF assms] by (auto simp: complete_def)

lemma dispatchBatch_cases:
  assumes wf: "coord_wf (d_coordinator d)"
    and nf: "\<And>m. coord_view (d_coordinator d) (b_partition b) \<noteq> InFlight m"
    and ex: "fmlookup (d_partitions d) (b_partition b) = Some pb"
    and cl: "d_closed d = d_batchChClosed d"
  obtains (closed) "d_closed d" and "dispatchBatch b d = Inr (Some errClosed, d)"
  | (sent) d' where "\<not> d_closed d" and "int (length (d_batchCh d)) < dc_ChannelCap (d_cfg d)"
      and "dispatchBatch b d = Inr (None, d')"
      and "d_batchCh d' = d_batchCh d @ [b]" and "d_partitions d' = d_partitions d"
      and "coord_wf (d_coordinator d')"
      and "coord_view (d_coordinator d')
             = (coord_view (d_coordinator d))(b_partition b := InFlight (b_maxOffset b))"
      and "d_cfg d' = d_cfg d" and "d_closed d' = d_closed d"
      and "d_batchChClosed d' = d_batchChClosed d" and "d_readyCh d' = d_readyCh d"
  | (full) d' where "\<not> d_closed d" and "dc_ChannelCap (d_cfg d) \<le> int (length (d_batchCh d))"
      and "dispatchBatch b d = Inr (Some (Sentinel ErrBackpressure), d')"
      and "d_batchCh d' = d_batchCh d"
      and "d_partitions d' = fmupd (b_partition b)
             (pb\<lparr>pb_inFlight := False, pb_messages := b_messages b @ pb_messages pb\<rparr>) (d_partitions d)"
      and "coord_wf (d_coordinator d')"
      and "coord_view (d_coordinator d')
             = (coord_view (d_coordinator d))(b_partition b := Completed (b_maxOffset b))"
      and "d_cfg d' = d_cfg d" and "d_closed d' = d_closed d"
      and "d_batchChClosed d' = d_batchChClosed d" and "d_readyCh d' = d_readyCh d"
proof (cases "d_closed d")
  case True
  then show thesis using closed by (simp add: dispatchBatch_def)
next
  case False
  obtain c where c: "track b d = Inr (d\<lparr>d_coordinator := c\<rparr>)" "coord_wf c"
    "coord_view c = (coord_view (d_coordinator d))(b_partition b := InFlight (b_maxOffset b))"
    using track_ok [OF wf nf] .
  show thesis
  proof (cases "int (length (d_batchCh d)) < dc_ChannelCap (d_cfg d)")
    case True
    let ?m = "(d_m d)\<lparr>dm_InflightMessages := (dm_InflightMessages (d_m d))
                (b_partition b := dm_InflightMessages (d_m d) (b_partition b)
                                    + int (length (b_messages b)))\<rparr>"
    show thesis
      by (rule sent [of "d\<lparr>d_coordinator := c, d_batchCh := d_batchCh d @ [b], d_m := ?m\<rparr>"])
        (use False True c cl in \<open>simp_all add: dispatchBatch_def chan_send_def\<close>)
  next
    case full_ch: False
    obtain c' where c': "complete b (d\<lparr>d_coordinator := c\<rparr>) = Inr (d\<lparr>d_coordinator := c'\<rparr>)"
      "coord_wf c'" "coord_view c' = (coord_view c)(b_partition b := Completed (b_maxOffset b))"
      using complete_ok [of "d\<lparr>d_coordinator := c\<rparr>" b] c by auto
    show thesis
      by (rule full [of "d\<lparr>d_coordinator := c', d_partitions := fmupd (b_partition b)
             (pb\<lparr>pb_inFlight := False, pb_messages := b_messages b @ pb_messages pb\<rparr>) (d_partitions d)\<rparr>"])
        (use False full_ch c c' cl ex in \<open>simp_all add: dispatchBatch_def chan_send_def put_back_def
           set_buffer_def\<close>)
  qed
qed

lemma disp_okD:
  assumes "disp_ok d"
  shows "0 < dc_BatchSize (d_cfg d)" "coord_wf (d_coordinator d)"
    "coord_view (d_coordinator d) p = InFlight m \<Longrightarrow> in_flight p d"
    "d_closed d = d_batchChClosed d"
  using assms by (auto simp: disp_ok_def)

text \<open>\<open>tryDispatch\<close> on an undisturbed dispatcher, on every branch.\<close>

lemma tryDispatch_cases:
  assumes ok: "disp_ok d"
  obtains (skip) "in_flight p d \<or> buffered p d = []" and "tryDispatch p d = Inr (None, d)"
  | (wait) d' where "\<not> in_flight p d" and "length (buffered p d) < batch_size d"
      and "buffered p d \<noteq> []" and "tryDispatch p d = Inr (None, d')" and "only_buffer p d d'"
      and "buffered p d' = buffered p d" and "\<not> in_flight p d'" and "lingering p d'"
  | (closed) d' where "\<not> in_flight p d" and "batch_size d \<le> length (buffered p d)"
      and "buffered p d \<noteq> []" and "d_closed d" and "tryDispatch p d = Inr (Some errClosed, d')"
      and "taken p d d'"
  | (sent) d' where "\<not> in_flight p d" and "batch_size d \<le> length (buffered p d)"
      and "buffered p d \<noteq> []" and "\<not> d_closed d"
      and "int (length (d_batchCh d)) < dc_ChannelCap (d_cfg d)"
      and "tryDispatch p d = Inr (None, d')"
      and "d_batchCh d' = d_batchCh d @ [batch_of p (take (batch_size d) (buffered p d))]"
      and "in_flight p d'" and "buffered p d' = drop (batch_size d) (buffered p d)"
      and "\<forall>q. q \<noteq> p \<longrightarrow> fmlookup (d_partitions d') q = fmlookup (d_partitions d) q"
      and "coord_wf (d_coordinator d')"
      and "coord_view (d_coordinator d') = (coord_view (d_coordinator d))
             (p := InFlight (m_Offset (last (take (batch_size d) (buffered p d)))))"
      and "d_cfg d' = d_cfg d" and "d_closed d' = d_closed d"
      and "d_batchChClosed d' = d_batchChClosed d" and "d_readyCh d' = d_readyCh d"
  | (full) d' where "\<not> in_flight p d" and "batch_size d \<le> length (buffered p d)"
      and "buffered p d \<noteq> []" and "\<not> d_closed d"
      and "dc_ChannelCap (d_cfg d) \<le> int (length (d_batchCh d))"
      and "tryDispatch p d = Inr (Some (Sentinel ErrBackpressure), d')"
      and "d_batchCh d' = d_batchCh d"
      and "\<not> in_flight p d'" and "buffered p d' = buffered p d"
      and "\<forall>q. q \<noteq> p \<longrightarrow> fmlookup (d_partitions d') q = fmlookup (d_partitions d) q"
      and "coord_wf (d_coordinator d')"
      and "coord_view (d_coordinator d') = (coord_view (d_coordinator d))
             (p := Completed (m_Offset (last (take (batch_size d) (buffered p d)))))"
      and "d_cfg d' = d_cfg d" and "d_closed d' = d_closed d"
      and "d_batchChClosed d' = d_batchChClosed d" and "d_readyCh d' = d_readyCh d"
proof (cases rule: try_region_cases [OF disp_okD(1) [OF ok], of p, case_names skip full wait])
  case skip
  then show thesis using that(1) by (simp add: tryDispatch_def)
next
  case (wait d')
  then show thesis using that(2) by (simp add: tryDispatch_def)
next
  case (full d1)
  let ?b = "batch_of p (take (batch_size d) (buffered p d))"
  note f1 = only_bufferD [OF takenD(1) [OF full(5)]]
  obtain pb where pb: "fmlookup (d_partitions d1) p = Some pb" "pb_inFlight pb"
      "pb_messages pb = drop (batch_size d) (buffered p d)"
    using takenD(2,3) [OF full(5)] by (auto simp: buffer_views split: option.splits)
  have try_eq: "tryDispatch p d = dispatchBatch ?b d1"
    using full(4) by (simp add: tryDispatch_def)
  have others: "\<forall>q. q \<noteq> p \<longrightarrow> fmlookup (d_partitions d1) q = fmlookup (d_partitions d) q"
    using takenD(1) [OF full(5)] by (simp add: only_buffer_def)
  have pre: "coord_wf (d_coordinator d1)" "\<And>m. coord_view (d_coordinator d1) (b_partition ?b) \<noteq> InFlight m"
    "fmlookup (d_partitions d1) (b_partition ?b) = Some pb" "d_closed d1 = d_batchChClosed d1"
    using disp_okD [OF ok] full(1) f1(2,4,5) pb(1) by auto
  show thesis
  proof (cases rule: dispatchBatch_cases [OF pre, case_names closed sent full])
    case closed
    then show thesis using that(3) [OF full(1-3)] f1 try_eq full(5) by simp
  next
    case (sent d')
    show thesis
      by (rule that(4) [of d']) (use sent full f1 pb try_eq others in \<open>simp_all add: buffer_views\<close>)
  next
    case (full d')
    show thesis
      by (rule that(5) [of d'])
        (use full \<open>\<not> in_flight p d\<close> \<open>batch_size d \<le> length (buffered p d)\<close> \<open>buffered p d \<noteq> []\<close>
          f1 pb try_eq others in \<open>simp_all add: buffer_views\<close>)
  qed
qed

subsection \<open>Draining the waiting partitions\<close>

text \<open>
  A partition is served when its next step is under way: a batch in flight, nothing buffered,
  or a partial batch with a linger timer. A dispatcher is saturated when it takes no batch.
\<close>

definition served :: "int32 \<Rightarrow> dispatcher \<Rightarrow> bool" where
  "served p d \<longleftrightarrow> in_flight p d \<or> buffered p d = []
     \<or> (length (buffered p d) < batch_size d \<and> lingering p d)"

definition saturated :: "dispatcher \<Rightarrow> bool" where
  "saturated d \<longleftrightarrow> d_closed d \<or> dc_ChannelCap (d_cfg d) \<le> int (length (d_batchCh d))"

lemma disp_ok_frame:
  assumes "disp_ok d" and "d_cfg d' = d_cfg d" and "coord_wf (d_coordinator d')"
    and "\<And>q m. coord_view (d_coordinator d') q = InFlight m \<Longrightarrow> in_flight q d'"
    and "d_closed d' = d_closed d" and "d_batchChClosed d' = d_batchChClosed d"
  shows "disp_ok d'"
  using assms unfolding disp_ok_def by auto

lemma served_cong:
  "fmlookup (d_partitions d') q = fmlookup (d_partitions d) q \<Longrightarrow> d_cfg d' = d_cfg d
    \<Longrightarrow> served q d' = served q d"
  by (simp add: served_def buffer_views)

lemma tryDispatch_ok:
  assumes ok: "disp_ok d"
  obtains err d' where "tryDispatch p d = Inr (err, d')" and "disp_ok d'" and "d_cfg d' = d_cfg d"
    and "d_readyCh d' = d_readyCh d"
    and "\<forall>q. q \<noteq> p \<longrightarrow> fmlookup (d_partitions d') q = fmlookup (d_partitions d) q"
    and "err = None \<longrightarrow> served p d'" and "err \<noteq> None \<longrightarrow> saturated d'"
proof (cases rule: tryDispatch_cases [OF ok, of p, case_names skip wait closed sent full])
  case skip
  then have "served p d" by (auto simp: served_def)
  with skip ok show thesis using that [of None d] by simp
next
  case (wait d')
  note f = only_bufferD [OF wait(5)]
  have "disp_ok d'"
  proof (rule disp_ok_frame [OF ok])
    show "in_flight q d'" if "coord_view (d_coordinator d') q = InFlight m" for q m
      using that disp_okD(3) [OF ok, of q m] f wait(1) by (cases "q = p") auto
  qed (use f disp_okD(2) [OF ok] in simp_all)
  with wait f that [of None d'] show thesis by (simp add: served_def only_buffer_def)
next
  case (closed d')
  note f = only_bufferD [OF takenD(1) [OF closed(6)]]
  have "disp_ok d'"
  proof (rule disp_ok_frame [OF ok])
    show "in_flight q d'" if "coord_view (d_coordinator d') q = InFlight m" for q m
      using that disp_okD(3) [OF ok, of q m] f closed(1) by (cases "q = p") auto
  qed (use f disp_okD(2) [OF ok] in simp_all)
  with closed f takenD(1) [OF closed(6)] that [of "Some errClosed" d'] show thesis
    by (simp add: saturated_def only_buffer_def)
next
  case (sent d')
  have "disp_ok d'"
  proof (rule disp_ok_frame [OF ok])
    show "in_flight q d'" if "coord_view (d_coordinator d') q = InFlight m" for q m
      using that disp_okD(3) [OF ok, of q m] sent by (cases "q = p") (auto simp: buffer_views)
  qed (use sent in simp_all)
  with sent that [of None d'] show thesis by (simp add: served_def)
next
  case (full d')
  have "disp_ok d'"
  proof (rule disp_ok_frame [OF ok])
    show "in_flight q d'" if "coord_view (d_coordinator d') q = InFlight m" for q m
      using that disp_okD(3) [OF ok, of q m] full by (cases "q = p") (auto simp: buffer_views)
  qed (use full in simp_all)
  with full that [of "Some (Sentinel ErrBackpressure)" d'] show thesis by (simp add: saturated_def)
qed

lemma drain_pending_ok:
  assumes "disp_ok d"
  shows "\<exists>d'. drain_pending ps d = Inr d' \<and> disp_ok d' \<and> d_cfg d' = d_cfg d \<and> d_readyCh d' = d_readyCh d
    \<and> (saturated d' \<or> (\<forall>q. served q d \<or> q \<in> set ps \<longrightarrow> served q d'))"
  using assms
proof (induction ps arbitrary: d)
  case Nil
  then show ?case by simp
next
  case (Cons p ps)
  obtain err d1 where d1: "tryDispatch p d = Inr (err, d1)" "disp_ok d1" "d_cfg d1 = d_cfg d"
    "d_readyCh d1 = d_readyCh d" "\<forall>q. q \<noteq> p \<longrightarrow> fmlookup (d_partitions d1) q = fmlookup (d_partitions d) q"
    "err = None \<longrightarrow> served p d1" "err \<noteq> None \<longrightarrow> saturated d1"
    using tryDispatch_ok [OF Cons.prems, where p = p] .
  show ?case
  proof (cases err)
    case None
    from Cons.IH [OF d1(2)] obtain d' where d': "drain_pending ps d1 = Inr d'" "disp_ok d'"
      "d_cfg d' = d_cfg d1" "d_readyCh d' = d_readyCh d1"
      "saturated d' \<or> (\<forall>q. served q d1 \<or> q \<in> set ps \<longrightarrow> served q d')" by blast
    have "served q d1" if "served q d \<or> q = p" for q
      using that d1(3,5,6) None served_cong [of d1 q d] by (cases "q = p") auto
    with d' d1 None show ?thesis by auto
  next
    case (Some e)
    with d1 show ?thesis by auto
  qed
qed

lemma not_served_pending:
  assumes "enumerates ord (d_partitions d)"
  shows "served q (snd (done_region ord p d)) \<or> q \<in> set (fst (done_region ord p d))"
proof -
  have "q \<in> set ord" if "fmlookup (d_partitions d) q = Some pb" for pb
    using that enumerates_set [OF assms, of q] by simp
  then show ?thesis
    by (cases "fmlookup (d_partitions d) q"; cases "q = p")
      (auto simp: done_region_def Let_def served_def buffer_views)
qed

lemma Send_ok:
  fixes p :: int32 and msgs :: "message list"
  assumes ok: "disp_ok d" and op: "\<not> d_closed d"
  defines "xs \<equiv> buffered p d @ msgs" and "n \<equiv> batch_size d"
  shows "\<exists>err d'. Send p msgs d = Inr (err, d') \<and> disp_ok d'
    \<and> (\<forall>q. q \<noteq> p \<longrightarrow> buffered q d' = buffered q d
            \<and> coord_view (d_coordinator d') q = coord_view (d_coordinator d) q)
    \<and> d_closed d' = d_closed d
    \<and> (if in_flight p d \<or> length xs < n
       then err = None \<and> buffered p d' = xs \<and> d_batchCh d' = d_batchCh d
          \<and> d_coordinator d' = d_coordinator d \<and> in_flight p d' = in_flight p d
          \<and> (\<not> in_flight p d \<and> xs \<noteq> [] \<longrightarrow> lingering p d')
       else if int (length (d_batchCh d)) < dc_ChannelCap (d_cfg d)
       then err = None \<and> buffered p d' = drop n xs \<and> in_flight p d'
          \<and> d_batchCh d' = d_batchCh d @ [batch_of p (take n xs)]
          \<and> coord_view (d_coordinator d')
              = (coord_view (d_coordinator d))(p := InFlight (m_Offset (last (take n xs))))
       else err = Some (Sentinel ErrBackpressure) \<and> buffered p d' = xs \<and> \<not> in_flight p d'
          \<and> d_batchCh d' = d_batchCh d
          \<and> fmlookup (Committable (d_coordinator d')) p = Some (m_Offset (last (take n xs)) + 1))"
proof -
  define pb where "pb = (case fmlookup (d_partitions d) p of
    None \<Rightarrow> \<lparr>pb_messages = [], pb_inFlight = False, pb_lingerTimer = None\<rparr> | Some pb \<Rightarrow> pb)"
  define d1 where "d1 = set_buffer p (pb\<lparr>pb_messages := xs\<rparr>) d"
  have region: "send_region p msgs d = Inr (None, d1)"
    using op disp_okD(1) [OF ok]
    by (auto simp: send_region_def d1_def pb_def xs_def new_buffer_def buffer_views split: option.split)
  have v1: "buffered p d1 = xs" "in_flight p d1 = in_flight p d" "d_batchCh d1 = d_batchCh d"
    "d_coordinator d1 = d_coordinator d" "d_cfg d1 = d_cfg d" "d_closed d1 = d_closed d"
    "d_batchChClosed d1 = d_batchChClosed d"
    "\<And>q. q \<noteq> p \<Longrightarrow> fmlookup (d_partitions d1) q = fmlookup (d_partitions d) q"
    by (simp_all add: d1_def pb_def buffer_views frame_simps split: option.split)
  have same: "q \<noteq> p \<Longrightarrow> in_flight q d1 = in_flight q d" for q
    by (simp add: v1(8) in_flight_def)
  have ok1: "disp_ok d1"
    using ok v1 same unfolding disp_ok_def by metis
  have send: "Send p msgs d = tryDispatch p d1" by (simp add: Send_def region)
  have others: "buffered q d' = buffered q d"
    if "q \<noteq> p" "\<forall>q. q \<noteq> p \<longrightarrow> fmlookup (d_partitions d') q = fmlookup (d_partitions d1) q" for q d'
    using that v1(8) by (simp add: buffered_def)
  obtain e0 d0 where "tryDispatch p d1 = Inr (e0, d0)" "disp_ok d0"
    using tryDispatch_ok [OF ok1] by metis
  then have keep: "tryDispatch p d1 = Inr (e, d') \<Longrightarrow> disp_ok d'" for e d' by simp
  show ?thesis
  proof (cases rule: tryDispatch_cases [OF ok1, of p, case_names skip wait closed sent full])
    case skip
    then have "in_flight p d \<or> length xs < n"
      using v1 disp_okD(1) [OF ok] by (auto simp: n_def)
    moreover have o1: "q \<noteq> p \<Longrightarrow> buffered q d1 = buffered q d" for q
      using v1(8) by (simp add: buffered_def)
    moreover have "\<not> in_flight p d \<and> xs \<noteq> [] \<longrightarrow> lingering p d1" using skip(1) v1(1,2) by auto
    ultimately show ?thesis
      using skip(2) v1(1-6) ok1 send o1 by (intro exI [where x = None] exI [where x = d1]) simp
  next
    case (wait d')
    then have "length xs < n" "disp_ok d'" using v1 keep by (simp_all add: n_def)
    moreover have "q \<noteq> p \<Longrightarrow> buffered q d' = buffered q d" for q
      using others wait(5) by (simp add: only_buffer_def)
    ultimately show ?thesis
      using wait v1 send only_bufferD [OF wait(5)]
      by (intro exI [where x = None] exI [where x = d']) simp
  next
    case (closed d')
    with op v1 show ?thesis by simp
  next
    case (sent d')
    then have "\<not> (in_flight p d \<or> length xs < n)" using v1 by (simp add: n_def)
    moreover have "q \<noteq> p \<Longrightarrow> buffered q d' = buffered q d" for q using others sent(10) by blast
    ultimately show ?thesis using sent v1(1-6) send keep by (simp add: n_def)
  next
    case (full d')
    then have "\<not> (in_flight p d \<or> length xs < n)" using v1 by (simp add: n_def)
    moreover have "fmlookup (Committable (d_coordinator d')) p = Some (m_Offset (last (take n xs)) + 1)"
      using full v1 by (simp add: n_def oc.lookup_committable spec_committable_def)
    moreover have "q \<noteq> p \<Longrightarrow> buffered q d' = buffered q d" for q using others full(10) by blast
    ultimately show ?thesis using full v1(1-6) send keep by simp
  qed
qed

subsection \<open>Properties\<close>

text \<open>
  C3: what \<open>Send\<close> does on every branch of an undisturbed, open dispatcher. The new messages
  go behind the buffered ones. With a batch in flight, or too few messages for a batch, they
  stay buffered (and a linger timer runs in the second case). Otherwise the first
  \<open>BatchSize\<close> messages, in order, become one batch at the end of the channel, tracked by the
  coordinator under the offset of its last message; if the channel is full \<open>Send\<close> returns
  \<open>ErrBackpressure\<close>, every message is back in the buffer in order and the channel is as
  before, but the coordinator now reports the batch, which no worker has seen, as completed.
  No message is lost or duplicated and no other partition's buffer or coordinator entry changes.
\<close>

theorem send_outcomes:
  fixes p :: int32 and msgs :: "message list"
  assumes ok: "disp_ok d" and op: "\<not> d_closed d"
  defines "xs \<equiv> buffered p d @ msgs" and "n \<equiv> batch_size d"
  shows "\<exists>err d'. Send p msgs d = Inr (err, d') \<and> disp_ok d'
    \<and> (\<forall>q. q \<noteq> p \<longrightarrow> buffered q d' = buffered q d
            \<and> coord_view (d_coordinator d') q = coord_view (d_coordinator d) q)
    \<and> d_closed d' = d_closed d
    \<and> (if in_flight p d \<or> length xs < n
       then err = None \<and> buffered p d' = xs \<and> d_batchCh d' = d_batchCh d
          \<and> d_coordinator d' = d_coordinator d \<and> in_flight p d' = in_flight p d
          \<and> (\<not> in_flight p d \<and> xs \<noteq> [] \<longrightarrow> lingering p d')
       else if int (length (d_batchCh d)) < dc_ChannelCap (d_cfg d)
       then err = None \<and> buffered p d' = drop n xs \<and> in_flight p d'
          \<and> d_batchCh d' = d_batchCh d @ [batch_of p (take n xs)]
          \<and> coord_view (d_coordinator d')
              = (coord_view (d_coordinator d))(p := InFlight (m_Offset (last (take n xs))))
       else err = Some (Sentinel ErrBackpressure) \<and> buffered p d' = xs \<and> \<not> in_flight p d'
          \<and> d_batchCh d' = d_batchCh d
          \<and> fmlookup (Committable (d_coordinator d')) p = Some (m_Offset (last (take n xs)) + 1))"
  using Send_ok [OF ok op, of p msgs] by (simp only: xs_def n_def)

theorem send_outcomes_witness:
  "\<exists>d d'. NewUnorderedDispatcher (DefaultDispatcherConfig\<lparr>dc_BatchSize := 2, dc_ChannelCap := 0\<rparr>)
        (Some ()) (Some NewCoordinator) (Some NewDispatcherMetrics) = Inr (Inr d)
     \<and> disp_ok d \<and> \<not> d_closed d
     \<and> (\<forall>x y. m_Offset y = 8 \<longrightarrow>
          (\<exists>d'. Send 0 [x, y] d = Inr (Some (Sentinel ErrBackpressure), d') \<and> buffered 0 d' = [x, y]
            \<and> fmlookup (Committable (d_coordinator d')) 0 = Some 9))"
proof -
  let ?cfg = "DefaultDispatcherConfig\<lparr>dc_BatchSize := 2, dc_ChannelCap := 0\<rparr>"
  let ?d = "\<lparr>d_cfg = ?cfg, d_coordinator = NewCoordinator, d_batchCh = [], d_batchChClosed = False,
     d_readyCh = False, d_circuitStateCh = [], d_partitions = fmempty, d_closed = False,
     d_workers = 0, d_timers = [], d_nextTimer = 0, d_m = NewDispatcherMetrics\<rparr>"
  have ok: "disp_ok ?d" "\<not> d_closed ?d"
    by (simp_all add: disp_ok_def DefaultDispatcherConfig_def coord_wf_new oc.view_new)
  have empty: "buffered 0 ?d = []" "\<not> in_flight 0 ?d" by (simp_all add: buffer_views)
  have "\<exists>d'. Send 0 [x, y] ?d = Inr (Some (Sentinel ErrBackpressure), d') \<and> buffered 0 d' = [x, y]
            \<and> fmlookup (Committable (d_coordinator d')) 0 = Some 9" if "m_Offset y = 8" for x y
    using send_outcomes [OF ok, of 0 "[x, y]"] that empty by (auto simp: DefaultDispatcherConfig_def)
  then show ?thesis
    using ok by (intro exI [where x = ?d]) (simp add: NewUnorderedDispatcher_def DefaultDispatcherConfig_def)
qed

text \<open>
  C12: when a batch is done no waiting partition starves. On an undisturbed dispatcher
  \<open>onBatchDone\<close> ends without a panic, the poll loop has a readiness signal, and afterwards
  every partition, in whatever order the map is visited, has a batch in flight, an empty
  buffer, or a partial batch with a running linger timer, unless the channel is full (or the
  dispatcher is closed).
\<close>

theorem on_batch_done_serves_all:
  assumes ok: "disp_ok d" and nf: "\<forall>m. coord_view (d_coordinator d) p \<noteq> InFlight m"
    and ord: "enumerates ord (d_partitions d)"
  shows "\<exists>d'. onBatchDone ord p d = Inr d' \<and> disp_ok d' \<and> d_readyCh d'
    \<and> (saturated d' \<or> (\<forall>q. served q d'))"
proof -
  obtain pending d1 where r: "done_region ord p d = (pending, d1)" by fastforce
  then have d1: "d1 = set_inFlight p False d" by (simp add: done_region_def Let_def)
  have "disp_ok (signal_ready d1)"
  proof (rule disp_ok_frame [OF ok])
    show "in_flight q (signal_ready d1)"
      if "coord_view (d_coordinator (signal_ready d1)) q = InFlight m" for q m
      using that nf disp_okD(3) [OF ok, of q m]
      by (cases "q = p") (simp_all add: d1 frame_simps buffer_views)
  qed (use disp_okD(2) [OF ok] in \<open>simp_all add: d1 frame_simps\<close>)
  from drain_pending_ok [OF this, of pending] obtain d' where
    d': "drain_pending pending (signal_ready d1) = Inr d'" "disp_ok d'"
      "d_readyCh d' = d_readyCh (signal_ready d1)"
      "saturated d' \<or> (\<forall>q. served q (signal_ready d1) \<or> q \<in> set pending \<longrightarrow> served q d')"
    by blast
  have "served q (signal_ready d1) \<or> q \<in> set pending" for q
    using not_served_pending [OF ord, of q p] r served_cong [of "signal_ready d1" q d1]
    by (simp add: frame_simps)
  with d' r show ?thesis by (simp add: onBatchDone_def frame_simps)
qed

theorem on_batch_done_serves_all_witness:
  "\<exists>d d'. fmlookup (d_partitions d) 1 \<noteq> None \<and> onBatchDone [1] 1 d = Inr d' \<and> served 1 d'"
proof -
  let ?pb = "\<lparr>pb_messages = [], pb_inFlight = True, pb_lingerTimer = None\<rparr>"
  let ?d = "\<lparr>d_cfg = DefaultDispatcherConfig, d_coordinator = NewCoordinator, d_batchCh = [],
     d_batchChClosed = False, d_readyCh = False, d_circuitStateCh = [],
     d_partitions = fmupd 1 ?pb fmempty, d_closed = False,
     d_workers = 0, d_timers = [], d_nextTimer = 0, d_m = NewDispatcherMetrics\<rparr>"
  have "disp_ok ?d" "\<forall>m. coord_view (d_coordinator ?d) 1 \<noteq> InFlight m" "enumerates [1] (d_partitions ?d)"
    by (simp_all add: disp_ok_def DefaultDispatcherConfig_def coord_wf_new oc.view_new enumerates_def)
  from on_batch_done_serves_all [OF this] obtain d' where "onBatchDone [1] 1 ?d = Inr d'" by blast
  moreover from this have "served 1 d'"
    by (simp add: onBatchDone_def done_region_def set_inFlight_def set_buffer_def signal_ready_def
        served_def buffer_views split: if_splits) auto
  ultimately show ?thesis by (intro exI [where x = ?d] exI [where x = d']) simp
qed

text \<open>
  The constructor does not validate its configuration. It accepts every batch size, and
  with batch size zero the first \<open>Send\<close> of a message panics with an index out of range while
  it holds the mutex; with a negative batch size it panics when it makes the buffer.
\<close>

theorem batch_size_not_validated:
  assumes new: "NewUnorderedDispatcher cfg (Some processor) (Some c) (Some m) = Inr (Inr d)"
    and "msgs \<noteq> []"
  shows "(dc_BatchSize cfg = 0 \<longrightarrow> Send p msgs d = Inl IndexOutOfRange)
    \<and> (dc_BatchSize cfg < 0 \<longrightarrow> Send p msgs d = Inl MakeSliceNegative)
    \<and> (\<exists>d'. NewUnorderedDispatcher (cfg\<lparr>dc_BatchSize := n\<rparr>) (Some processor) (Some c) (Some m)
              = Inr (Inr d'))"
proof -
  have d: "d_cfg d = cfg" "d_partitions d = fmempty" "\<not> d_closed d" "\<not> dc_ChannelCap cfg < 0"
    using new by (auto simp: NewUnorderedDispatcher_def split: if_splits)
  then show ?thesis
    using assms(2)
    by (auto simp: Send_def send_region_def tryDispatch_def try_region_def assembleBatch_def
        new_buffer_def frame_simps NewUnorderedDispatcher_def Let_def)
qed

theorem batch_size_not_validated_witness:
  "\<exists>d. NewUnorderedDispatcher (DefaultDispatcherConfig\<lparr>dc_BatchSize := 0\<rparr>) (Some ())
         (Some NewCoordinator) (Some NewDispatcherMetrics) = Inr (Inr d)
     \<and> (\<forall>x. Send 0 [x] d = Inl IndexOutOfRange)"
proof -
  have "\<exists>d. NewUnorderedDispatcher (DefaultDispatcherConfig\<lparr>dc_BatchSize := 0\<rparr>) (Some ())
         (Some NewCoordinator) (Some NewDispatcherMetrics) = Inr (Inr d)"
    by (simp add: NewUnorderedDispatcher_def DefaultDispatcherConfig_def)
  then obtain d where d: "NewUnorderedDispatcher (DefaultDispatcherConfig\<lparr>dc_BatchSize := 0\<rparr>) (Some ())
         (Some NewCoordinator) (Some NewDispatcherMetrics) = Inr (Inr d)" ..
  have "Send 0 [x] d = Inl IndexOutOfRange" for x
    using batch_size_not_validated [OF d, of "[x]" 0] by simp
  with d show ?thesis by blast
qed

end
