(* ===== verification/Degraded_Health.thy ===== *)
theory Degraded_Health
  imports Message_Types
begin

text \<open>
  The degraded-mode bitmask (\<^verbatim>\<open>internal/pollloop/degraded.go\<close>), the health state the probes
  read (\<^verbatim>\<open>internal/pollloop/health.go\<close>) and the probe handlers of \<^verbatim>\<open>internal/server\<close>.

  \<open>Set\<close> and \<open>Clear\<close> are compare-and-swap loops on an atomic word: the step relation
  \<open>cas_step\<close> interleaves the loads and swaps of any number of goroutines, and
  \<open>degraded_Set\<close> and \<open>degraded_Clear\<close> are the updates the poll loop, the only writer, makes.
  The contract \<open>degraded_contract\<close> sees the word as a set of reasons.
\<close>

subsection \<open>The bitmask\<close>

unbundle bit_operations_syntax

type_synonym DegradedReason = "32 word"

definition BrokerUnavailable :: DegradedReason where
  "BrokerUnavailable = push_bit 0 1"

definition TargetUnavailable :: DegradedReason where
  "TargetUnavailable = push_bit 1 1"

text \<open>The value that one iteration of the \<open>Set\<close> and of the \<open>Clear\<close> loop computes.\<close>

definition degraded_Set :: "DegradedReason \<Rightarrow> 32 word \<Rightarrow> 32 word" where
  "degraded_Set reason d = d OR reason"

definition degraded_Clear :: "DegradedReason \<Rightarrow> 32 word \<Rightarrow> 32 word" where
  "degraded_Clear reason d = d AND NOT reason"

definition IsDegraded :: "32 word \<Rightarrow> bool" where
  "IsDegraded d \<longleftrightarrow> d \<noteq> 0"

definition Has :: "DegradedReason \<Rightarrow> 32 word \<Rightarrow> bool" where
  "Has reason d \<longleftrightarrow> d AND reason \<noteq> 0"

definition Reasons :: "32 word \<Rightarrow> DegradedReason" where
  "Reasons d = d"

definition DegradedReason_String :: "DegradedReason \<Rightarrow> string" where
  "DegradedReason_String r =
     (if r = 0 then ''none''
      else
        let s = (if r AND BrokerUnavailable \<noteq> 0 then ''broker-unavailable'' else '''');
            sep = (if s \<noteq> '''' then s @ '','' else s)
        in if r AND TargetUnavailable \<noteq> 0 then sep @ ''target-unavailable'' else s)"

subsection \<open>Health\<close>

record health =
  h_live :: bool
  h_ready :: bool
  h_partitionsAssigned :: bool

definition new_health :: health where
  "new_health = \<lparr>h_live = False, h_ready = False, h_partitionsAssigned = False\<rparr>"

definition SetLive :: "bool \<Rightarrow> health \<Rightarrow> health" where
  "SetLive live h = h\<lparr>h_live := live\<rparr>"

definition SetReady :: "bool \<Rightarrow> health \<Rightarrow> health" where
  "SetReady ready h = h\<lparr>h_ready := ready\<rparr>"

definition SetPartitionsAssigned :: "bool \<Rightarrow> health \<Rightarrow> health" where
  "SetPartitionsAssigned assigned h = h\<lparr>h_partitionsAssigned := assigned\<rparr>"

definition IsLive :: "health \<Rightarrow> bool" where
  "IsLive h = h_live h"

definition IsReady :: "health \<Rightarrow> bool" where
  "IsReady h = (h_ready h \<and> h_partitionsAssigned h)"

subsection \<open>The probe server\<close>

record http_response =
  r_status :: nat
  r_body :: string

definition StatusOK :: nat where "StatusOK = 200"
definition StatusServiceUnavailable :: nat where "StatusServiceUnavailable = 503"

definition healthzHandler :: "health \<Rightarrow> http_response" where
  "healthzHandler h =
     (if IsLive h then \<lparr>r_status = StatusOK, r_body = ''ok''\<rparr>
      else \<lparr>r_status = StatusServiceUnavailable, r_body = ''not live''\<rparr>)"

definition readyzHandler :: "health \<Rightarrow> http_response" where
  "readyzHandler h =
     (if IsReady h then \<lparr>r_status = StatusOK, r_body = ''ok''\<rparr>
      else \<lparr>r_status = StatusServiceUnavailable, r_body = ''not ready''\<rparr>)"

text \<open>
  \<open>ListenAndServe\<close> with the results of \<open>net.Listen\<close> and of \<open>Serve\<close>; a graceful shutdown is
  not an error.
\<close>

definition ListenAndServe :: "go_error option \<Rightarrow> go_error option \<Rightarrow> go_error option" where
  "ListenAndServe listen serve =
     (case listen of
        Some err \<Rightarrow> Some (Wrapped ''health server: listen: '' err)
      | None \<Rightarrow>
          (case serve of
             None \<Rightarrow> None
           | Some err \<Rightarrow>
               if \<not> errors_Is err ErrServerClosed then Some (Wrapped ''health server: serve: '' err)
               else None))"

subsection \<open>The mask as a set of reasons\<close>

datatype reason = Broker | Target

fun reason_bit :: "reason \<Rightarrow> DegradedReason" where
  "reason_bit Broker = BrokerUnavailable"
| "reason_bit Target = TargetUnavailable"

text \<open>Only the two declared bits are in use.\<close>

definition mask_ok :: "32 word \<Rightarrow> bool" where
  "mask_ok d \<longleftrightarrow> d \<in> {0, BrokerUnavailable, TargetUnavailable, BrokerUnavailable OR TargetUnavailable}"

definition mask_view :: "32 word \<Rightarrow> reason set" where
  "mask_view d = {r. Has (reason_bit r) d}"

locale degraded_contract =
  fixes ok :: "'d \<Rightarrow> bool"
    and view :: "'d \<Rightarrow> reason set"
    and empty :: 'd
    and set_r :: "reason \<Rightarrow> 'd \<Rightarrow> 'd"
    and clear_r :: "reason \<Rightarrow> 'd \<Rightarrow> 'd"
    and has_r :: "reason \<Rightarrow> 'd \<Rightarrow> bool"
    and degraded :: "'d \<Rightarrow> bool"
  assumes ok_empty: "ok empty"
    and view_empty: "view empty = {}"
    and ok_set: "ok d \<Longrightarrow> ok (set_r r d)"
    and view_set: "ok d \<Longrightarrow> view (set_r r d) = insert r (view d)"
    and ok_clear: "ok d \<Longrightarrow> ok (clear_r r d)"
    and view_clear: "ok d \<Longrightarrow> view (clear_r r d) = view d - {r}"
    and has_view: "ok d \<Longrightarrow> has_r r d \<longleftrightarrow> r \<in> view d"
    and degraded_view: "ok d \<Longrightarrow> degraded d \<longleftrightarrow> view d \<noteq> {}"
begin

lemma set_degraded: "ok d \<Longrightarrow> degraded (set_r r d) \<and> has_r r (set_r r d)"
  by (simp add: degraded_view has_view ok_set view_set)

text \<open>Degraded mode ends with a clear exactly when that reason was the only one left.\<close>

lemma clear_exits_iff: "ok d \<Longrightarrow> \<not> degraded (clear_r r d) \<longleftrightarrow> view d \<subseteq> {r}"
  by (auto simp: degraded_view ok_clear view_clear)

lemma clear_keeps_other: "ok d \<Longrightarrow> r \<noteq> r' \<Longrightarrow> has_r r' (clear_r r d) = has_r r' d"
  by (auto simp: has_view ok_clear view_clear)

lemma set_keeps_other: "ok d \<Longrightarrow> r \<noteq> r' \<Longrightarrow> has_r r' (set_r r d) = has_r r' d"
  by (auto simp: has_view ok_set view_set)

end

lemma mask_cases:
  assumes "mask_ok d"
  obtains "d = 0" | "d = 1" | "d = 2" | "d = 3"
  using assms by (auto simp: mask_ok_def BrokerUnavailable_def TargetUnavailable_def)

lemmas mask_defs =
  mask_ok_def mask_view_def Has_def BrokerUnavailable_def TargetUnavailable_def
  degraded_Set_def degraded_Clear_def IsDegraded_def

lemma reason_set_ext:
  "(Broker \<in> A \<longleftrightarrow> Broker \<in> B) \<Longrightarrow> (Target \<in> A \<longleftrightarrow> Target \<in> B) \<Longrightarrow> A = B"
  by (rule set_eqI) (metis reason.exhaust)

lemma reason_set_eq: "{r. P r} = A \<longleftrightarrow> (P Broker \<longleftrightarrow> Broker \<in> A) \<and> (P Target \<longleftrightarrow> Target \<in> A)"
  by (auto intro!: reason_set_ext)

interpretation dg: degraded_contract mask_ok mask_view 0
  "\<lambda>r. degraded_Set (reason_bit r)" "\<lambda>r. degraded_Clear (reason_bit r)"
  "\<lambda>r. Has (reason_bit r)" IsDegraded
proof
  fix d r assume ok: "mask_ok d"
  show "mask_ok (degraded_Set (reason_bit r) d)"
    using ok by (cases r; cases d rule: mask_cases) (simp_all add: mask_defs)
  show "mask_view (degraded_Set (reason_bit r) d) = insert r (mask_view d)"
    using ok by (cases r; cases d rule: mask_cases) (simp_all add: mask_defs reason_set_eq)
  show "mask_ok (degraded_Clear (reason_bit r) d)"
    using ok by (cases r; cases d rule: mask_cases) (simp_all add: mask_defs)
  show "mask_view (degraded_Clear (reason_bit r) d) = mask_view d - {r}"
    by (rule reason_set_ext; use ok in \<open>cases r; cases d rule: mask_cases\<close>)
      (simp_all add: mask_defs)
  show "IsDegraded d \<longleftrightarrow> mask_view d \<noteq> {}"
    using ok by (cases d rule: mask_cases) (simp_all add: mask_defs reason_set_eq)
qed (simp_all add: mask_defs reason_set_eq)

subsection \<open>The compare-and-swap loops\<close>

text \<open>
  Goroutines that run \<open>Set\<close> and \<open>Clear\<close> on one atomic word. A goroutine has called one
  of the two and stands in front of its load, or has loaded a value and stands in front of
  its swap. The list \<open>cs_log\<close> records the calls in the order their swaps succeeded.
\<close>

datatype update = OpSet DegradedReason | OpClear DegradedReason

fun apply_update :: "update \<Rightarrow> 32 word \<Rightarrow> 32 word" where
  "apply_update (OpSet reason) old = degraded_Set reason old"
| "apply_update (OpClear reason) old = degraded_Clear reason old"

datatype cas_pc = AtLoad update | AtSwap update "32 word"

record cas_state =
  cs_word :: "32 word"
  cs_threads :: "cas_pc list"
  cs_log :: "update list"

inductive cas_step :: "cas_state \<Rightarrow> cas_state \<Rightarrow> bool" where
  call: "cas_step s (s\<lparr>cs_threads := cs_threads s @ [AtLoad u]\<rparr>)"
| load: "i < length (cs_threads s) \<Longrightarrow> cs_threads s ! i = AtLoad u
    \<Longrightarrow> cas_step s (s\<lparr>cs_threads := (cs_threads s)[i := AtSwap u (cs_word s)]\<rparr>)"
| swap_ok: "i < length (cs_threads s) \<Longrightarrow> cs_threads s ! i = AtSwap u old \<Longrightarrow> cs_word s = old
    \<Longrightarrow> cas_step s (s\<lparr>cs_word := apply_update u old, cs_log := cs_log s @ [u],
          cs_threads := take i (cs_threads s) @ drop (Suc i) (cs_threads s)\<rparr>)"
| swap_retry: "i < length (cs_threads s) \<Longrightarrow> cs_threads s ! i = AtSwap u old \<Longrightarrow> cs_word s \<noteq> old
    \<Longrightarrow> cas_step s (s\<lparr>cs_threads := (cs_threads s)[i := AtLoad u]\<rparr>)"

definition cas_init :: "cas_state \<Rightarrow> bool" where
  "cas_init s \<longleftrightarrow> s = \<lparr>cs_word = 0, cs_threads = [], cs_log = []\<rparr>"

interpretation cas: transition_system cas_init cas_step .

lemma cas_word_log: "cas.reach s \<Longrightarrow> cs_word s = fold apply_update (cs_log s) 0"
proof (rule cas.invariant_rule [where I = "\<lambda>s. cs_word s = fold apply_update (cs_log s) 0"])
  fix s t
  assume "cs_word s = fold apply_update (cs_log s) 0" and "cas_step s t"
  then show "cs_word t = fold apply_update (cs_log t) 0" by (auto elim: cas_step.cases)
qed (simp_all add: cas_init_def)

lemma cas_undisturbed:
  assumes i: "i < length (cs_threads s)" and u: "cs_threads s ! i = AtLoad u"
  shows "\<exists>t. (cas_step OO cas_step) s t \<and> cs_log t = cs_log s @ [u]
    \<and> cs_word t = apply_update u (cs_word s)"
proof -
  define s' where "s' = s\<lparr>cs_threads := (cs_threads s)[i := AtSwap u (cs_word s)]\<rparr>"
  have "cas_step s s'" unfolding s'_def using i u by (rule cas_step.load)
  moreover have "cas_step s' (s'\<lparr>cs_word := apply_update u (cs_word s), cs_log := cs_log s' @ [u],
          cs_threads := take i (cs_threads s') @ drop (Suc i) (cs_threads s')\<rparr>)"
    by (rule cas_step.swap_ok) (use i in \<open>simp_all add: s'_def\<close>)
  ultimately show ?thesis by (intro exI) (auto simp: s'_def)
qed

subsection \<open>Properties\<close>

text \<open>
  C33: the compare-and-swap loops lose no update. However any number of concurrent \<open>Set\<close>
  and \<open>Clear\<close> calls interleave, the word is at every moment the result of the calls that
  have returned, applied one after the other in the order in which their swaps succeeded;
  and a call that is not disturbed between its load and its swap returns.
\<close>

theorem degraded_updates_linearizable:
  assumes "cas.reach s"
  shows "cs_word s = fold apply_update (cs_log s) 0
    \<and> (\<forall>i u. i < length (cs_threads s) \<and> cs_threads s ! i = AtLoad u
        \<longrightarrow> (\<exists>t. (cas_step OO cas_step) s t \<and> cs_log t = cs_log s @ [u]
              \<and> cs_word t = apply_update u (cs_word s)))"
  using cas_word_log [OF assms] cas_undisturbed by blast

theorem degraded_updates_linearizable_witness:
  "\<exists>s. cas.reach s \<and> cs_threads s = [AtLoad (OpSet BrokerUnavailable)] \<and> cs_word s = 0
     \<and> (\<exists>t. (cas_step OO cas_step) s t \<and> cs_word t = BrokerUnavailable)"
proof -
  let ?s0 = "\<lparr>cs_word = 0, cs_threads = [], cs_log = []\<rparr>"
  let ?s = "?s0\<lparr>cs_threads := cs_threads ?s0 @ [AtLoad (OpSet BrokerUnavailable)]\<rparr>"
  have r: "cas.reach ?s"
    by (rule cas.reach_step [OF cas.reach_init cas_step.call]) (simp add: cas_init_def)
  from degraded_updates_linearizable [OF r]
  have "\<exists>t. (cas_step OO cas_step) ?s t \<and> cs_word t = apply_update (OpSet BrokerUnavailable) 0"
    by fastforce
  with r show ?thesis
    by (intro exI [where x = ?s]) (simp add: degraded_Set_def)
qed

text \<open>
  C34: the degraded mask behaves as a set of reasons. Setting a reason makes the service
  degraded and keeps the other reason; clearing one keeps the other and ends degraded mode
  exactly when no other reason is left; the text names exactly the active reasons.
\<close>

theorem degraded_reasons:
  assumes "mask_ok d" and "r \<noteq> r'"
  shows "IsDegraded (degraded_Set (reason_bit r) d)
    \<and> Has (reason_bit r) (degraded_Set (reason_bit r) d)
    \<and> Has (reason_bit r') (degraded_Set (reason_bit r) d) = Has (reason_bit r') d
    \<and> \<not> Has (reason_bit r) (degraded_Clear (reason_bit r) d)
    \<and> Has (reason_bit r') (degraded_Clear (reason_bit r) d) = Has (reason_bit r') d
    \<and> IsDegraded (degraded_Clear (reason_bit r) d) = Has (reason_bit r') d
    \<and> mask_ok (degraded_Set (reason_bit r) d) \<and> mask_ok (degraded_Clear (reason_bit r) d)
    \<and> DegradedReason_String (Reasons d) =
        (if Has BrokerUnavailable d \<and> Has TargetUnavailable d
         then ''broker-unavailable,target-unavailable''
         else if Has BrokerUnavailable d then ''broker-unavailable''
         else if Has TargetUnavailable d then ''target-unavailable'' else ''none'')"
proof -
  have "IsDegraded (degraded_Clear (reason_bit r) d) = Has (reason_bit r') d"
    using assms by (cases r; cases r'; cases d rule: mask_cases) (simp_all add: mask_defs)
  moreover have "\<not> Has (reason_bit r) (degraded_Clear (reason_bit r) d)"
    using dg.has_view dg.ok_clear dg.view_clear assms(1) by blast
  moreover have "DegradedReason_String (Reasons d) =
        (if Has BrokerUnavailable d \<and> Has TargetUnavailable d
         then ''broker-unavailable,target-unavailable''
         else if Has BrokerUnavailable d then ''broker-unavailable''
         else if Has TargetUnavailable d then ''target-unavailable'' else ''none'')"
    using assms(1)
    by (cases d rule: mask_cases)
      (simp_all add: DegradedReason_String_def Reasons_def Has_def BrokerUnavailable_def
        TargetUnavailable_def Let_def)
  ultimately show ?thesis
    using dg.set_degraded [OF assms(1), of r] dg.set_keeps_other [OF assms]
      dg.clear_keeps_other [OF assms] dg.ok_set [OF assms(1), of r] dg.ok_clear [OF assms(1), of r]
    by (simp only: simp_thms)
qed

theorem degraded_reasons_witness:
  "mask_ok BrokerUnavailable \<and> Broker \<noteq> Target
    \<and> IsDegraded (degraded_Set TargetUnavailable BrokerUnavailable)
    \<and> Has BrokerUnavailable (degraded_Set TargetUnavailable BrokerUnavailable)
    \<and> DegradedReason_String BrokerUnavailable = ''broker-unavailable''"
  using degraded_reasons [of BrokerUnavailable Target Broker]
  by (simp add: mask_ok_def Reasons_def Has_def BrokerUnavailable_def TargetUnavailable_def)

text \<open>
  The probes. Liveness answers 200 exactly when the loop was marked alive; readiness
  answers 200 exactly when the last \<open>SetReady\<close> and the last \<open>SetPartitionsAssigned\<close> both
  stored true, in whichever order they were called, and 503 otherwise; before any of them
  both probes answer 503.
\<close>

theorem probe_handlers:
  "(r_status (healthzHandler (SetLive l h)) = 200 \<longleftrightarrow> l)
    \<and> (r_status (readyzHandler (SetReady r (SetPartitionsAssigned a h))) = 200 \<longleftrightarrow> r \<and> a)
    \<and> SetReady r (SetPartitionsAssigned a h) = SetPartitionsAssigned a (SetReady r h)
    \<and> readyzHandler (SetLive l h) = readyzHandler h
    \<and> healthzHandler (SetReady r (SetPartitionsAssigned a h)) = healthzHandler h
    \<and> r_status (healthzHandler h) \<in> {200, 503} \<and> r_status (readyzHandler h) \<in> {200, 503}
    \<and> healthzHandler new_health = \<lparr>r_status = 503, r_body = ''not live''\<rparr>
    \<and> readyzHandler new_health = \<lparr>r_status = 503, r_body = ''not ready''\<rparr>"
  by (simp add: healthzHandler_def readyzHandler_def SetLive_def SetReady_def
      SetPartitionsAssigned_def IsLive_def IsReady_def StatusOK_def
      StatusServiceUnavailable_def new_health_def)

end
