(* ===== verification/Poll_Loop.thy ===== *)
theory Poll_Loop
  imports Unordered_Dispatcher Degraded_Health
begin

text \<open>
  The poll loop, \<^verbatim>\<open>internal/pollloop/pollloop.go\<close>: one goroutine that polls Kafka, hands the
  messages to the dispatcher, commits offsets, pauses and resumes partitions, enters and leaves
  degraded mode, reacts to rebalances and shuts down.

  The dispatcher and the coordinator are interfaces in Go. Here they are a record of operations
  \<open>disp_ops\<close> on a world \<open>'w\<close>, and every definition takes that record as an argument; the locale
  \<open>dispatch_port\<close> states what the poll loop relies on and is interpreted on the unordered
  dispatcher. The Kafka client is an interface too: what its methods return is the argument
  \<open>answers\<close>, and the calls it receives are recorded, in order, in \<open>pl_calls\<close>. A rebalance
  callback runs inside \<open>Poll\<close>: the rebalances of a poll are a list that is handled first.
\<close>

subsection \<open>Interfaces\<close>

text \<open>
  The calls of the dispatcher and the coordinator. The last one is not a call: it says what
  the dispatcher's goroutines do after the poll loop has closed it, a panic that none of them
  recovers or nothing that matters.
\<close>

record 'w disp_ops =
  do_Send :: "int32 \<Rightarrow> message list \<Rightarrow> 'w \<Rightarrow> panic + (go_error option \<times> 'w)"
  do_Assigned :: "partition list \<Rightarrow> 'w \<Rightarrow> panic + 'w"
  do_Revoked :: "partition list \<Rightarrow> 'w \<Rightarrow> 'w"
  do_Close :: "'w \<Rightarrow> panic + (go_error option \<times> 'w)"
  do_Committable :: "'w \<Rightarrow> (int32, int64) fmap"
  do_Reset :: "int32 \<Rightarrow> 'w \<Rightarrow> 'w"
  do_Crash :: "'w \<Rightarrow> panic option"

datatype kafka_call =
    KPoll int
  | KCommit "(int32, int64) fmap"
  | KPause "int32 list"
  | KResume "int32 list"
  | KAssignment
  | KClose

record answers =
  an_poll :: "go_error + message list"
  an_commit :: "go_error option"
  an_assignment :: "go_error + partition list"
  an_pause :: "int32 list \<Rightarrow> go_error option"
  an_resume :: "go_error option"
  an_close :: "go_error option"

datatype rebalance = Assigned "partition list" | Revoked "partition list"

subsection \<open>State\<close>

record pl_config =
  pc_PollInterval :: duration
  pc_CommitInterval :: duration
  pc_CommitFailureThreshold :: int
  pc_ShutdownTimeout :: duration

definition DefaultPollLoopConfig :: pl_config where
  "DefaultPollLoopConfig = \<lparr>pc_PollInterval = 100 * Millisecond, pc_CommitInterval = 5 * Second,
     pc_CommitFailureThreshold = 3, pc_ShutdownTimeout = 25 * Second\<rparr>"

record pollloop_metrics =
  pm_MessagesPolled :: "int32 \<Rightarrow> int"
  pm_PollErrors :: int
  pm_Commits :: "int32 \<Rightarrow> int"
  pm_CommitFailures :: int
  pm_DegradedMode :: int
  pm_PartitionsAssigned :: int
  pm_Rebalances :: int
  pm_LastCommittedOffset :: "int32 \<Rightarrow> int64 option"
  pm_PartitionsPaused :: int

definition NewPollLoopMetrics :: pollloop_metrics where
  "NewPollLoopMetrics =
     \<lparr>pm_MessagesPolled = (\<lambda>_. 0), pm_PollErrors = 0, pm_Commits = (\<lambda>_. 0), pm_CommitFailures = 0,
      pm_DegradedMode = 0, pm_PartitionsAssigned = 0, pm_Rebalances = 0,
      pm_LastCommittedOffset = (\<lambda>_. None), pm_PartitionsPaused = 0\<rparr>"

record 'w pollloop =
  pl_cfg :: pl_config
  pl_world :: 'w
  pl_health :: health
  pl_degraded :: "32 word"
  pl_commitFailures :: int
  pl_assignedCount :: int
  pl_pausedPartitions :: "(int32, bool) fmap"
  pl_m :: pollloop_metrics
  pl_calls :: "kafka_call list"

definition NewPollLoop ::
  "pl_config \<Rightarrow> unit option \<Rightarrow> 'w option \<Rightarrow> unit option \<Rightarrow> health option \<Rightarrow> pollloop_metrics option
    \<Rightarrow> go_error + 'w pollloop"
where
  "NewPollLoop cfg kafka disp coord h metrics =
     (if kafka = None then Inl (ErrorString ''pollloop: kafka consumer must not be nil'')
      else case disp of
        None \<Rightarrow> Inl (ErrorString ''pollloop: dispatcher must not be nil'')
      | Some w \<Rightarrow>
          if coord = None then Inl (ErrorString ''pollloop: offset coordinator must not be nil'')
          else case h of
            None \<Rightarrow> Inl (ErrorString ''pollloop: health must not be nil'')
          | Some hl \<Rightarrow>
              (case metrics of
                 None \<Rightarrow> Inl (ErrorString ''pollloop: metrics must not be nil'')
               | Some m \<Rightarrow>
                   Inr \<lparr>pl_cfg = cfg, pl_world = w, pl_health = hl, pl_degraded = 0,
                     pl_commitFailures = 0, pl_assignedCount = 0, pl_pausedPartitions = fmempty,
                     pl_m = m, pl_calls = []\<rparr>))"

text \<open>A call of the Kafka client.\<close>

definition kcall :: "kafka_call \<Rightarrow> 'w pollloop \<Rightarrow> 'w pollloop" where
  "kcall c pl = pl\<lparr>pl_calls := pl_calls pl @ [c]\<rparr>"

text \<open>\<open>pl.pausedPartitions[partition]\<close>, with false for an absent key.\<close>

definition is_paused :: "int32 \<Rightarrow> 'w pollloop \<Rightarrow> bool" where
  "is_paused p pl = (fmlookup (pl_pausedPartitions pl) p = Some True)"

subsection \<open>Pausing and resuming\<close>

definition pausePartition :: "answers \<Rightarrow> int32 \<Rightarrow> 'w pollloop \<Rightarrow> 'w pollloop" where
  "pausePartition ans p pl =
     (if is_paused p pl then pl
      else let pl' = kcall (KPause [p]) pl
           in case an_pause ans [p] of
                Some _ \<Rightarrow> pl'
              | None \<Rightarrow> pl'\<lparr>pl_pausedPartitions := fmupd p True (pl_pausedPartitions pl'),
                  pl_m := (pl_m pl')\<lparr>pm_PartitionsPaused := pm_PartitionsPaused (pl_m pl') + 1\<rparr>\<rparr>)"

definition pauseAllPartitions :: "answers \<Rightarrow> 'w pollloop \<Rightarrow> 'w pollloop" where
  "pauseAllPartitions ans pl =
     (let pl1 = kcall KAssignment pl
      in case an_assignment ans of
           Inl _ \<Rightarrow> pl1
         | Inr assignment \<Rightarrow>
             let partitions = map p_Partition assignment
             in if length partitions = 0 then pl1
                else (kcall (KPause partitions) pl1)
                  \<lparr>pl_m := (pl_m pl1)\<lparr>pm_PartitionsPaused := int (length partitions)\<rparr>\<rparr>)"

definition resumeAllPartitions :: "answers \<Rightarrow> 'w pollloop \<Rightarrow> 'w pollloop" where
  "resumeAllPartitions ans pl =
     (let pl1 = kcall KAssignment pl
      in case an_assignment ans of
           Inl _ \<Rightarrow> pl1
         | Inr assignment \<Rightarrow>
             let partitions = map p_Partition assignment
             in if length partitions = 0 then pl1
                else (kcall (KResume partitions) pl1)
                  \<lparr>pl_m := (pl_m pl1)\<lparr>pm_PartitionsPaused := 0\<rparr>, pl_pausedPartitions := fmempty\<rparr>)"

text \<open>\<open>ord\<close> is the order in which the paused partitions are visited.\<close>

definition resumeAllPausedPartitions :: "answers \<Rightarrow> int32 list \<Rightarrow> 'w pollloop \<Rightarrow> 'w pollloop" where
  "resumeAllPausedPartitions ans ord pl =
     (if fmdom (pl_pausedPartitions pl) = {||} then pl
      else let pl1 = kcall (KResume ord) pl
           in case an_resume ans of
                Some _ \<Rightarrow> pl1
              | None \<Rightarrow>
                  pl1\<lparr>pl_m := (pl_m pl1)\<lparr>pm_PartitionsPaused := pm_PartitionsPaused (pl_m pl1) - int (length ord)\<rparr>,
                    pl_pausedPartitions := fmdrop_set (set ord) (pl_pausedPartitions pl1)\<rparr>)"

subsection \<open>Degraded mode\<close>

definition enterDegradedMode :: "answers \<Rightarrow> DegradedReason \<Rightarrow> 'w pollloop \<Rightarrow> 'w pollloop" where
  "enterDegradedMode ans reason pl =
     (let wasDegraded = IsDegraded (pl_degraded pl);
          pl1 = pl\<lparr>pl_degraded := degraded_Set reason (pl_degraded pl)\<rparr>
      in if \<not> wasDegraded
         then let pl2 = pauseAllPartitions ans pl1
              in pl2\<lparr>pl_health := SetReady False (pl_health pl2),
                     pl_m := (pl_m pl2)\<lparr>pm_DegradedMode := 1\<rparr>\<rparr>
         else pl1)"

definition exitDegradedMode :: "answers \<Rightarrow> DegradedReason \<Rightarrow> 'w pollloop \<Rightarrow> 'w pollloop" where
  "exitDegradedMode ans reason pl =
     (let pl1 = pl\<lparr>pl_degraded := degraded_Clear reason (pl_degraded pl)\<rparr>
      in if \<not> IsDegraded (pl_degraded pl1)
         then let pl2 = resumeAllPartitions ans pl1
              in pl2\<lparr>pl_health := SetReady True (pl_health pl2),
                     pl_m := (pl_m pl2)\<lparr>pm_DegradedMode := 0\<rparr>\<rparr>
         else pl1)"

definition onDispatcherReady :: "answers \<Rightarrow> int32 list \<Rightarrow> 'w pollloop \<Rightarrow> 'w pollloop" where
  "onDispatcherReady ans ord pl =
     (if IsDegraded (pl_degraded pl) then pl else resumeAllPausedPartitions ans ord pl)"

definition onCircuitStateChanged :: "answers \<Rightarrow> circuit_state \<Rightarrow> 'w pollloop \<Rightarrow> 'w pollloop" where
  "onCircuitStateChanged ans state pl =
     (case state of
        Open \<Rightarrow> if \<not> Has TargetUnavailable (pl_degraded pl)
                 then enterDegradedMode ans TargetUnavailable pl else pl
      | Closed \<Rightarrow> if Has TargetUnavailable (pl_degraded pl)
                   then exitDegradedMode ans TargetUnavailable pl else pl
      | HalfOpen \<Rightarrow> pl)"

subsection \<open>Committing\<close>

definition record_commits :: "(int32, int64) fmap \<Rightarrow> pollloop_metrics \<Rightarrow> pollloop_metrics" where
  "record_commits offsets m =
     m\<lparr>pm_Commits := (\<lambda>p. pm_Commits m p + (if fmlookup offsets p = None then 0 else 1)),
       pm_LastCommittedOffset :=
         (\<lambda>p. case fmlookup offsets p of Some off \<Rightarrow> Some off | None \<Rightarrow> pm_LastCommittedOffset m p)\<rparr>"

definition commitOffsets :: "'w disp_ops \<Rightarrow> answers \<Rightarrow> 'w pollloop \<Rightarrow> 'w pollloop" where
  "commitOffsets ops ans pl =
     (let offsets = do_Committable ops (pl_world pl)
      in if fmdom offsets = {||} then pl
         else let pl1 = kcall (KCommit offsets) pl
              in case an_commit ans of
                   Some _ \<Rightarrow>
                     let pl2 = pl1\<lparr>pl_commitFailures := pl_commitFailures pl1 + 1,
                           pl_m := (pl_m pl1)\<lparr>pm_CommitFailures := pm_CommitFailures (pl_m pl1) + 1\<rparr>\<rparr>
                     in if pl_commitFailures pl2 \<ge> pc_CommitFailureThreshold (pl_cfg pl2)
                           \<and> \<not> Has BrokerUnavailable (pl_degraded pl2)
                        then enterDegradedMode ans BrokerUnavailable pl2 else pl2
                 | None \<Rightarrow>
                     let pl2 = pl1\<lparr>pl_commitFailures := 0, pl_m := record_commits offsets (pl_m pl1)\<rparr>
                     in if Has BrokerUnavailable (pl_degraded pl2)
                        then exitDegradedMode ans BrokerUnavailable pl2 else pl2)"

subsection \<open>Rebalances\<close>

definition pl_OnPartitionsAssigned ::
  "'w disp_ops \<Rightarrow> partition list \<Rightarrow> 'w pollloop \<Rightarrow> panic + 'w pollloop"
where
  "pl_OnPartitionsAssigned ops ps pl =
     go_bind (do_Assigned ops ps (pl_world pl)) (\<lambda>w.
       Inr (pl\<lparr>pl_assignedCount := pl_assignedCount pl + int (length ps),
               pl_health := SetPartitionsAssigned True (pl_health pl),
               pl_m := (pl_m pl)\<lparr>pm_PartitionsAssigned := pm_PartitionsAssigned (pl_m pl) + int (length ps)\<rparr>,
               pl_world := w\<rparr>))"

definition pl_OnPartitionsRevoked ::
  "'w disp_ops \<Rightarrow> answers \<Rightarrow> partition list \<Rightarrow> 'w pollloop \<Rightarrow> 'w pollloop"
where
  "pl_OnPartitionsRevoked ops ans ps pl =
     (let pl1 = pl\<lparr>pl_m := (pl_m pl)\<lparr>pm_Rebalances := pm_Rebalances (pl_m pl) + 1,
                pm_PartitionsAssigned := pm_PartitionsAssigned (pl_m pl) - int (length ps)\<rparr>\<rparr>;
          n = pl_assignedCount pl1 - int (length ps);
          pl2 = (if n \<le> 0
                 then pl1\<lparr>pl_assignedCount := 0, pl_health := SetPartitionsAssigned False (pl_health pl1)\<rparr>
                 else pl1\<lparr>pl_assignedCount := n\<rparr>);
          pl3 = pl2\<lparr>pl_world := do_Revoked ops ps (pl_world pl2)\<rparr>;
          revoked = p_Partition ` set ps;
          revokedOffsets = fmfilter (\<lambda>p. p \<in> revoked) (do_Committable ops (pl_world pl3));
          pl4 = (if fmdom revokedOffsets = {||} then pl3 else kcall (KCommit revokedOffsets) pl3)
      in fold (\<lambda>p pl. pl\<lparr>pl_world := do_Reset ops (p_Partition p) (pl_world pl),
                        pl_pausedPartitions := fmdrop (p_Partition p) (pl_pausedPartitions pl)\<rparr>) ps pl4)"

fun handle_rebalances ::
  "'w disp_ops \<Rightarrow> answers \<Rightarrow> rebalance list \<Rightarrow> 'w pollloop \<Rightarrow> panic + 'w pollloop"
where
  "handle_rebalances ops ans [] pl = Inr pl"
| "handle_rebalances ops ans (Assigned ps # rs) pl =
     go_bind (pl_OnPartitionsAssigned ops ps pl) (handle_rebalances ops ans rs)"
| "handle_rebalances ops ans (Revoked ps # rs) pl =
     handle_rebalances ops ans rs (pl_OnPartitionsRevoked ops ans ps pl)"

subsection \<open>Polling\<close>

definition groupByPartition :: "message list \<Rightarrow> (int32, message list) fmap" where
  "groupByPartition msgs =
     fold (\<lambda>x grouped. fmupd (m_Partition x)
             ((case fmlookup grouped (m_Partition x) of None \<Rightarrow> [] | Some xs \<Rightarrow> xs) @ [x]) grouped)
       msgs fmempty"

text \<open>The dispatch loop over the groups, in the order the map is visited.\<close>

fun dispatch_groups ::
  "'w disp_ops \<Rightarrow> answers \<Rightarrow> (int32, message list) fmap \<Rightarrow> int32 list \<Rightarrow> 'w pollloop
    \<Rightarrow> panic + 'w pollloop"
where
  "dispatch_groups ops ans grouped [] pl = Inr pl"
| "dispatch_groups ops ans grouped (p # ps) pl =
     (if is_paused p pl then dispatch_groups ops ans grouped ps pl
      else case fmlookup grouped p of
             None \<Rightarrow> dispatch_groups ops ans grouped ps pl
           | Some partMsgs \<Rightarrow>
               go_bind (do_Send ops p partMsgs (pl_world pl)) (\<lambda>(err, w).
                 let pl' = pl\<lparr>pl_world := w\<rparr>
                 in dispatch_groups ops ans grouped ps
                      (case err of
                         None \<Rightarrow> pl'
                       | Some e \<Rightarrow> if errors_Is e ErrBackpressure then pausePartition ans p pl' else pl')))"

definition poll_error :: "'w pollloop \<Rightarrow> 'w pollloop" where
  "poll_error pl = pl\<lparr>pl_m := (pl_m pl)\<lparr>pm_PollErrors := pm_PollErrors (pl_m pl) + 1\<rparr>\<rparr>"

definition poll ::
  "'w disp_ops \<Rightarrow> answers \<Rightarrow> rebalance list \<Rightarrow> int32 list \<Rightarrow> 'w pollloop \<Rightarrow> panic + 'w pollloop"
where
  "poll ops ans rebalances ord pl =
     (let polling = kcall (KPoll (Milliseconds (pc_PollInterval (pl_cfg pl)))) pl
      in if IsDegraded (pl_degraded pl)
      then go_bind (handle_rebalances ops ans rebalances polling) (\<lambda>pl1.
             Inr (case an_poll ans of Inl _ \<Rightarrow> poll_error pl1 | Inr _ \<Rightarrow> pl1))
      else go_bind (handle_rebalances ops ans rebalances polling) (\<lambda>pl1.
             case an_poll ans of
               Inl _ \<Rightarrow> Inr (poll_error pl1)
             | Inr msgs \<Rightarrow>
                 if length msgs = 0 then Inr pl1
                 else let grouped = groupByPartition msgs;
                          pl2 = pl1\<lparr>pl_m := (pl_m pl1)\<lparr>pm_MessagesPolled :=
                                  (\<lambda>p. pm_MessagesPolled (pl_m pl1) p
                                        + (case fmlookup grouped p of None \<Rightarrow> 0 | Some xs \<Rightarrow> int (length xs)))\<rparr>\<rparr>
                      in dispatch_groups ops ans grouped ord pl2))"

subsection \<open>Shutdown and the event loop\<close>

definition shutdown :: "'w disp_ops \<Rightarrow> answers \<Rightarrow> 'w pollloop \<Rightarrow> panic + (go_error option \<times> 'w pollloop)"
where
  "shutdown ops ans pl =
     go_bind (do_Close ops (pl_world pl)) (\<lambda>(dispatcherErr, w).
       let pl1 = pl\<lparr>pl_world := w\<rparr>;
           offsets = do_Committable ops (pl_world pl1);
           pl2 = (if fmdom offsets = {||} then pl1 else kcall (KCommit offsets) pl1);
           pl3 = kcall KClose pl2;
           pl4 = pl3\<lparr>pl_health := SetReady False (pl_health pl3)\<rparr>
       in Inr (dispatcherErr, pl4))"

text \<open>What the \<open>select\<close> of \<open>Run\<close> received from.\<close>

datatype event =
    CtxDone
  | PollTick "rebalance list" "int32 list"
  | CommitTick
  | DispatcherReady "int32 list"
  | CircuitChanged circuit_state

definition run_event ::
  "'w disp_ops \<Rightarrow> event \<Rightarrow> answers \<Rightarrow> 'w pollloop \<Rightarrow> panic + 'w pollloop"
where
  "run_event ops ev ans pl =
     (case ev of
        CtxDone \<Rightarrow> Inr pl
      | PollTick rebalances ord \<Rightarrow> poll ops ans rebalances ord pl
      | CommitTick \<Rightarrow> Inr (commitOffsets ops ans pl)
      | DispatcherReady ord \<Rightarrow> Inr (onDispatcherReady ans ord pl)
      | CircuitChanged st \<Rightarrow> Inr (onCircuitStateChanged ans st pl))"

text \<open>
  The loop of \<open>Run\<close> over the events it receives, each with the answers of the Kafka client
  and with what the other goroutines have done to the dispatcher's world since the last event.
  \<open>None\<close>: the events are used up and the loop is still running.
\<close>

fun run_loop ::
  "'w disp_ops \<Rightarrow> (event \<times> answers \<times> ('w \<Rightarrow> 'w)) list \<Rightarrow> 'w pollloop
    \<Rightarrow> (panic + (go_error option \<times> 'w pollloop)) option"
where
  "run_loop ops [] pl = None"
| "run_loop ops ((ev, ans, others) # evs) pl =
     (let pl1 = pl\<lparr>pl_world := others (pl_world pl)\<rparr>
      in if ev = CtxDone then Some (shutdown ops ans pl1)
         else case run_event ops ev ans pl1 of
                Inl e \<Rightarrow> Some (Inl e)
              | Inr pl2 \<Rightarrow> run_loop ops evs pl2)"

definition started :: "'w pollloop \<Rightarrow> 'w pollloop" where
  "started pl = pl\<lparr>pl_health := SetReady True (SetLive True (pl_health pl))\<rparr>"

text \<open>\<open>time.NewTicker\<close> panics on an interval that is not positive.\<close>

definition NewTicker :: "duration \<Rightarrow> panic + unit" where
  "NewTicker d = (if d \<le> 0 then Inl NonPositiveTicker else Inr ())"

definition pl_Run ::
  "'w disp_ops \<Rightarrow> (event \<times> answers \<times> ('w \<Rightarrow> 'w)) list \<Rightarrow> 'w pollloop
    \<Rightarrow> (panic + (go_error option \<times> 'w pollloop)) option"
where
  "pl_Run ops evs pl =
     (case go_bind (NewTicker (pc_PollInterval (pl_cfg pl)))
             (\<lambda>_. NewTicker (pc_CommitInterval (pl_cfg pl))) of
        Inl e \<Rightarrow> Some (Inl e)
      | Inr _ \<Rightarrow>
          map_option (map_sum id (\<lambda>(err, pl'). (err, pl'\<lparr>pl_health := SetLive False (pl_health pl')\<rparr>)))
            (run_loop ops evs (started pl)))"

lemmas [pollloop_defs] =
  kcall_def pauseAllPartitions_def resumeAllPartitions_def enterDegradedMode_def exitDegradedMode_def
  onDispatcherReady_def resumeAllPausedPartitions_def onCircuitStateChanged_def commitOffsets_def
  pausePartition_def Let_def

subsection \<open>Frames\<close>

text \<open>
  What the handlers leave alone. \<open>core\<close> is the part of the state that says whether the loop is
  degraded and what the probes see.
\<close>

definition core :: "'w pollloop \<Rightarrow> 32 word \<times> health \<times> int" where
  "core pl = (pl_degraded pl, pl_health pl, pm_DegradedMode (pl_m pl))"

lemma core_simps [frame_simps]:
  "core (kcall c pl) = core pl" "core (pausePartition ans p pl) = core pl"
  "core (pauseAllPartitions ans pl) = core pl" "core (resumeAllPartitions ans pl) = core pl"
  "core (resumeAllPausedPartitions ans ord pl) = core pl" "core (poll_error pl) = core pl"
  "core (pl\<lparr>pl_world := w\<rparr>) = core pl"
  by (simp_all add: core_def pollloop_defs poll_error_def split: sum.split option.split)

lemma world_simps [frame_simps]:
  "pl_world (kcall c pl) = pl_world pl" "pl_world (pausePartition ans p pl) = pl_world pl"
  "pl_world (pauseAllPartitions ans pl) = pl_world pl"
  "pl_world (resumeAllPartitions ans pl) = pl_world pl"
  "pl_world (resumeAllPausedPartitions ans ord pl) = pl_world pl"
  "pl_world (poll_error pl) = pl_world pl" "pl_world (enterDegradedMode ans r pl) = pl_world pl"
  "pl_world (exitDegradedMode ans r pl) = pl_world pl" "pl_world (commitOffsets ops ans pl) = pl_world pl"
  "pl_world (onDispatcherReady ans ord pl) = pl_world pl"
  "pl_world (onCircuitStateChanged ans st pl) = pl_world pl"
  by (simp_all add: pollloop_defs poll_error_def split: sum.split option.split circuit_state.split)

lemma calls_kcall [simp]: "pl_calls (kcall c pl) = pl_calls pl @ [c]"
  by (simp add: kcall_def)

subsection \<open>Degraded mode and readiness\<close>

text \<open>
  While the loop runs it is alive; it is ready exactly when no reason for degraded mode is set,
  and the gauge says the same.
\<close>

definition ready_inv :: "'w pollloop \<Rightarrow> bool" where
  "ready_inv pl \<longleftrightarrow> mask_ok (pl_degraded pl) \<and> h_live (pl_health pl)
     \<and> h_ready (pl_health pl) = (\<not> IsDegraded (pl_degraded pl))
     \<and> pm_DegradedMode (pl_m pl) = (if IsDegraded (pl_degraded pl) then 1 else 0)"

lemma ready_inv_core: "core pl' = core pl \<Longrightarrow> ready_inv pl' = ready_inv pl"
  by (simp add: ready_inv_def core_def)

lemma enter_core:
  "core (enterDegradedMode ans r pl) =
     (degraded_Set r (pl_degraded pl),
      if IsDegraded (pl_degraded pl) then pl_health pl else SetReady False (pl_health pl),
      if IsDegraded (pl_degraded pl) then pm_DegradedMode (pl_m pl) else 1)"
  using core_simps(3) [of ans "pl\<lparr>pl_degraded := degraded_Set r (pl_degraded pl)\<rparr>"]
  by (simp add: enterDegradedMode_def core_def Let_def)

lemma exit_core:
  "core (exitDegradedMode ans r pl) =
     (degraded_Clear r (pl_degraded pl),
      if IsDegraded (degraded_Clear r (pl_degraded pl)) then pl_health pl else SetReady True (pl_health pl),
      if IsDegraded (degraded_Clear r (pl_degraded pl)) then pm_DegradedMode (pl_m pl) else 0)"
  using core_simps(4) [of ans "pl\<lparr>pl_degraded := degraded_Clear r (pl_degraded pl)\<rparr>"]
  by (simp add: exitDegradedMode_def core_def Let_def)

lemma ready_inv_enter: "ready_inv pl \<Longrightarrow> ready_inv (enterDegradedMode ans (reason_bit r) pl)"
  using enter_core [of ans "reason_bit r" pl] dg.set_degraded [of "pl_degraded pl" r]
    dg.ok_set [of "pl_degraded pl" r]
  by (auto simp: ready_inv_def core_def SetReady_def split: if_splits)

lemma ready_inv_exit:
  assumes "ready_inv pl" and "Has (reason_bit r) (pl_degraded pl)"
  shows "ready_inv (exitDegradedMode ans (reason_bit r) pl)"
proof -
  have "IsDegraded (pl_degraded pl)"
    using assms by (auto simp: ready_inv_def dg.degraded_view dg.has_view)
  then show ?thesis
    using assms(1) exit_core [of ans "reason_bit r" pl] dg.ok_clear [of "pl_degraded pl" r]
    by (auto simp: ready_inv_def core_def SetReady_def split: if_splits)
qed

lemma ready_inv_commit: "ready_inv pl \<Longrightarrow> ready_inv (commitOffsets ops ans pl)"
proof -
  assume inv: "ready_inv pl"
  define pl1 where "pl1 = kcall (KCommit (do_Committable ops (pl_world pl))) pl"
  define failed where "failed = pl1\<lparr>pl_commitFailures := pl_commitFailures pl1 + 1,
    pl_m := (pl_m pl1)\<lparr>pm_CommitFailures := pm_CommitFailures (pl_m pl1) + 1\<rparr>\<rparr>"
  define succ where "succ = pl1\<lparr>pl_commitFailures := 0,
    pl_m := record_commits (do_Committable ops (pl_world pl)) (pl_m pl1)\<rparr>"
  have "core failed = core pl" "core succ = core pl"
    by (simp_all add: failed_def succ_def pl1_def core_def kcall_def record_commits_def)
  then have i: "ready_inv failed" "ready_inv succ" using inv ready_inv_core by blast+
  from ready_inv_enter [OF i(1), of ans Broker] ready_inv_exit [OF i(2), of Broker ans] i inv
  show ?thesis
    by (simp add: commitOffsets_def Let_def pl1_def [symmetric] failed_def [symmetric] succ_def [symmetric]
        split: option.split)
qed

lemma ready_inv_circuit: "ready_inv pl \<Longrightarrow> ready_inv (onCircuitStateChanged ans st pl)"
  using ready_inv_enter [of pl ans Target] ready_inv_exit [of pl Target ans]
  by (simp add: onCircuitStateChanged_def split: circuit_state.split)

text \<open>The reset loop at the end of a revocation.\<close>

definition reset_all :: "'w disp_ops \<Rightarrow> partition list \<Rightarrow> 'w pollloop \<Rightarrow> 'w pollloop" where
  "reset_all ops ps pl =
     fold (\<lambda>p pl. pl\<lparr>pl_world := do_Reset ops (p_Partition p) (pl_world pl),
                     pl_pausedPartitions := fmdrop (p_Partition p) (pl_pausedPartitions pl)\<rparr>) ps pl"

lemma reset_all_eq:
  "reset_all ops ps pl =
     pl\<lparr>pl_world := fold (\<lambda>p. do_Reset ops (p_Partition p)) ps (pl_world pl),
        pl_pausedPartitions := fmdrop_set (p_Partition ` set ps) (pl_pausedPartitions pl)\<rparr>"
  unfolding reset_all_def
proof (induction ps arbitrary: pl)
  case (Cons p ps)
  then show ?case by (cases pl) (simp add: fmap_ext)
qed simp

text \<open>The offsets a revocation commits and the state it leaves.\<close>

definition revoked_offsets :: "'w disp_ops \<Rightarrow> partition list \<Rightarrow> 'w \<Rightarrow> (int32, int64) fmap" where
  "revoked_offsets ops ps w =
     fmfilter (\<lambda>p. p \<in> p_Partition ` set ps) (do_Committable ops (do_Revoked ops ps w))"

lemma revoked_eq:
  "pl_OnPartitionsRevoked ops ans ps pl =
     (let n = pl_assignedCount pl - int (length ps)
      in pl\<lparr>pl_world := fold (\<lambda>p. do_Reset ops (p_Partition p)) ps (do_Revoked ops ps (pl_world pl)),
            pl_pausedPartitions := fmdrop_set (p_Partition ` set ps) (pl_pausedPartitions pl),
            pl_assignedCount := max n 0,
            pl_health := (if n \<le> 0 then SetPartitionsAssigned False (pl_health pl) else pl_health pl),
            pl_m := (pl_m pl)\<lparr>pm_Rebalances := pm_Rebalances (pl_m pl) + 1,
                      pm_PartitionsAssigned := pm_PartitionsAssigned (pl_m pl) - int (length ps)\<rparr>,
            pl_calls := pl_calls pl @ (if fmdom (revoked_offsets ops ps (pl_world pl)) = {||} then []
                                       else [KCommit (revoked_offsets ops ps (pl_world pl))])\<rparr>)"
  unfolding pl_OnPartitionsRevoked_def Let_def reset_all_def [symmetric] reset_all_eq
  by (cases pl) (simp add: revoked_offsets_def kcall_def max_def cong del: fmfilter_cong)

lemma ready_inv_revoked: "ready_inv (pl_OnPartitionsRevoked ops ans ps pl) = ready_inv pl"
  by (simp add: revoked_eq Let_def ready_inv_def SetPartitionsAssigned_def)

lemma ready_inv_assigned:
  "pl_OnPartitionsAssigned ops ps pl = Inr pl' \<Longrightarrow> ready_inv pl' = ready_inv pl"
  by (auto simp: pl_OnPartitionsAssigned_def go_bind_Inr_iff ready_inv_def SetPartitionsAssigned_def)

lemma ready_inv_rebalances:
  "handle_rebalances ops ans rs pl = Inr pl' \<Longrightarrow> ready_inv pl' = ready_inv pl"
  by (induction ops ans rs pl rule: handle_rebalances.induct)
    (fastforce simp: go_bind_Inr_iff ready_inv_revoked dest: ready_inv_assigned)+

text \<open>One group of messages: skipped, or sent, with a pause on backpressure.\<close>

definition send_group :: "'w disp_ops \<Rightarrow> answers \<Rightarrow> int32 \<Rightarrow> message list \<Rightarrow> 'w pollloop \<Rightarrow> panic + 'w pollloop"
where
  "send_group ops ans p partMsgs pl =
     go_bind (do_Send ops p partMsgs (pl_world pl)) (\<lambda>(err, w).
       Inr (case err of
              None \<Rightarrow> pl\<lparr>pl_world := w\<rparr>
            | Some e \<Rightarrow> if errors_Is e ErrBackpressure then pausePartition ans p (pl\<lparr>pl_world := w\<rparr>)
                        else pl\<lparr>pl_world := w\<rparr>))"

lemma dispatch_groups_Cons:
  "dispatch_groups ops ans grouped (p # ps) pl =
     (case fmlookup grouped p of
        None \<Rightarrow> dispatch_groups ops ans grouped ps pl
      | Some xs \<Rightarrow> if is_paused p pl then dispatch_groups ops ans grouped ps pl
                  else go_bind (send_group ops ans p xs pl) (dispatch_groups ops ans grouped ps))"
  by (simp add: send_group_def go_bind_def Let_def split: option.split sum.split prod.split)

lemma core_send_group: "send_group ops ans p xs pl = Inr pl' \<Longrightarrow> core pl' = core pl"
  by (auto simp: send_group_def go_bind_Inr_iff frame_simps split: option.splits if_splits)

lemma core_dispatch: "dispatch_groups ops ans grouped ps pl = Inr pl' \<Longrightarrow> core pl' = core pl"
proof (induction ps arbitrary: pl)
  case (Cons p ps)
  then show ?case
    unfolding dispatch_groups_Cons
    by (auto simp: go_bind_Inr_iff split: option.splits if_splits dest: core_send_group)
qed simp

lemma ready_inv_poll: "poll ops ans rs ord pl = Inr pl' \<Longrightarrow> ready_inv pl \<Longrightarrow> ready_inv pl'"
proof -
  assume step: "poll ops ans rs ord pl = Inr pl'" and inv: "ready_inv pl"
  then obtain pl1 where r: "handle_rebalances ops ans rs
      (kcall (KPoll (Milliseconds (pc_PollInterval (pl_cfg pl)))) pl) = Inr pl1"
    by (auto simp: poll_def Let_def go_bind_Inr_iff split: if_splits)
  then have inv1: "ready_inv pl1"
    using ready_inv_rebalances [OF r] inv ready_inv_core [of "kcall _ pl" pl, OF core_simps(1)] by (simp add: frame_simps)
  have m: "core (pl1\<lparr>pl_m := (pl_m pl1)\<lparr>pm_MessagesPolled := f\<rparr>\<rparr>) = core pl1" for f
    by (simp add: core_def)
  have "core pl' = core pl1"
    using step r core_dispatch m
    by (fastforce simp: poll_def Let_def frame_simps split: if_splits sum.splits)
  then show ?thesis using inv1 ready_inv_core by blast
qed

lemma ready_inv_event: "run_event ops ev ans pl = Inr pl' \<Longrightarrow> ready_inv pl \<Longrightarrow> ready_inv pl'"
  using ready_inv_poll ready_inv_commit ready_inv_circuit [of pl ans]
  by (auto simp: run_event_def onDispatcherReady_def ready_inv_core [OF core_simps(5)] split: event.splits)

subsection \<open>Grouping\<close>

lemma groupByPartition_fold:
  "fmlookup (fold (\<lambda>x grouped. fmupd (m_Partition x)
       ((case fmlookup grouped (m_Partition x) of None \<Rightarrow> [] | Some xs \<Rightarrow> xs) @ [x]) grouped) msgs g) p =
     (case filter (\<lambda>x. m_Partition x = p) msgs of
        [] \<Rightarrow> fmlookup g p
      | x # xs \<Rightarrow> Some ((case fmlookup g p of None \<Rightarrow> [] | Some ys \<Rightarrow> ys) @ x # xs))"
  by (induction msgs arbitrary: g) (auto split: list.split option.split)

lemma groupByPartition_lookup:
  "fmlookup (groupByPartition msgs) p =
     (let xs = filter (\<lambda>x. m_Partition x = p) msgs in if xs = [] then None else Some xs)"
  unfolding groupByPartition_def groupByPartition_fold by (simp add: Let_def split: list.split)

text \<open>The messages of a group, none if there is no group.\<close>

definition group_of :: "(int32, message list) fmap \<Rightarrow> int32 \<Rightarrow> message list" where
  "group_of g p = (case fmlookup g p of None \<Rightarrow> [] | Some xs \<Rightarrow> xs)"

lemma group_of_groupByPartition [simp]:
  "group_of (groupByPartition msgs) p = filter (\<lambda>x. m_Partition x = p) msgs"
  by (simp add: group_of_def groupByPartition_lookup Let_def)

text \<open>A poll visits each partition of its group map once.\<close>

definition event_ok :: "event \<Rightarrow> bool" where
  "event_ok ev = (case ev of PollTick _ ord \<Rightarrow> distinct ord | _ \<Rightarrow> True)"

text \<open>The partitions that some of the rebalances take away.\<close>

definition revoked_in :: "rebalance list \<Rightarrow> int32 set" where
  "revoked_in rs = (\<Union>r\<in>set rs. case r of Assigned _ \<Rightarrow> {} | Revoked ps \<Rightarrow> p_Partition ` set ps)"

lemma revoked_in_simps [simp]:
  "revoked_in [] = {}" "revoked_in (Assigned ps # rs) = revoked_in rs"
  "revoked_in (Revoked ps # rs) = p_Partition ` set ps \<union> revoked_in rs"
  by (simp_all add: revoked_in_def)

subsection \<open>What the poll loop relies on\<close>

text \<open>
  The dispatcher and coordinator as the poll loop sees them while they are open (\<open>inv\<close>):
  no call but \<open>Close\<close> panics, and that one only if \<open>crash\<close> allows it; and \<open>Send\<close> takes the
  messages of its partition over in order, whatever it
  returns, and leaves what was taken over for the other partitions alone. Nothing is said of
  the committable offsets: workers may complete batches during every call.
\<close>

locale dispatch_port =
  fixes ops :: "'w disp_ops"
    and inv :: "'w \<Rightarrow> bool"
    and held :: "int32 \<Rightarrow> 'w \<Rightarrow> message list"
    and crash :: "panic \<Rightarrow> bool"
  assumes send: "inv w \<Longrightarrow> \<exists>err w'. do_Send ops p xs w = Inr (err, w') \<and> inv w'
      \<and> held p w' = held p w @ xs \<and> (\<forall>q. q \<noteq> p \<longrightarrow> held q w' = held q w)"
    and assigned: "inv w \<Longrightarrow> \<exists>w'. do_Assigned ops ps w = Inr w' \<and> inv w' \<and> (\<forall>p. held p w' = held p w)"
    and revoked: "inv w \<Longrightarrow> inv (do_Revoked ops ps w)
      \<and> (\<forall>q. q \<notin> p_Partition ` set ps \<longrightarrow> held q (do_Revoked ops ps w) = held q w)"
    and reset: "inv w \<Longrightarrow> inv (do_Reset ops p w) \<and> (\<forall>q. held q (do_Reset ops p w) = held q w)"
    and close: "inv w \<Longrightarrow> do_Close ops w = Inl e \<Longrightarrow> crash e"
begin

lemma send_group_ok:
  assumes "inv (pl_world pl)"
  shows "\<exists>pl'. send_group ops ans p xs pl = Inr pl' \<and> inv (pl_world pl')
    \<and> held p (pl_world pl') = held p (pl_world pl) @ xs
    \<and> (\<forall>q. q \<noteq> p \<longrightarrow> held q (pl_world pl') = held q (pl_world pl) \<and> is_paused q pl' = is_paused q pl)"
proof -
  from send [OF assms, of p xs] obtain err w' where w: "do_Send ops p xs (pl_world pl) = Inr (err, w')"
    "inv w'" "held p w' = held p (pl_world pl) @ xs" "\<forall>q. q \<noteq> p \<longrightarrow> held q w' = held q (pl_world pl)"
    by blast
  then show ?thesis
    by (auto simp: send_group_def frame_simps is_paused_def pausePartition_def kcall_def Let_def
        split: option.split)
qed

lemma dispatch_groups_ok:
  assumes "inv (pl_world pl)" and "distinct ps"
  shows "\<exists>pl'. dispatch_groups ops ans g ps pl = Inr pl' \<and> inv (pl_world pl')
    \<and> (\<forall>q. held q (pl_world pl') = held q (pl_world pl)
          @ (if q \<in> set ps \<and> \<not> is_paused q pl
             then group_of g q else []))"
  using assms
proof (induction ps arbitrary: pl)
  case (Cons p ps)
  show ?case
  proof (cases "\<exists>xs. fmlookup g p = Some xs \<and> \<not> is_paused p pl")
    case True
    then obtain xs where xs: "fmlookup g p = Some xs" "\<not> is_paused p pl" by blast
    from send_group_ok [OF Cons.prems(1), of ans p xs] obtain pl1 where pl1:
      "send_group ops ans p xs pl = Inr pl1" "inv (pl_world pl1)"
      "held p (pl_world pl1) = held p (pl_world pl) @ xs"
      "\<And>q. q \<noteq> p \<Longrightarrow> held q (pl_world pl1) = held q (pl_world pl) \<and> is_paused q pl1 = is_paused q pl"
      by blast
    from Cons.IH [OF pl1(2)] Cons.prems(2) obtain pl' where
      "dispatch_groups ops ans g ps pl1 = Inr pl'" "inv (pl_world pl')"
      "\<forall>q. held q (pl_world pl') = held q (pl_world pl1)
          @ (if q \<in> set ps \<and> \<not> is_paused q pl1
             then group_of g q else [])" by auto
    note pl' = this
    have "held q (pl_world pl') = held q (pl_world pl) @ (if q \<in> set (p # ps) \<and> \<not> is_paused q pl
        then group_of g q else [])" for q
      using pl'(3) pl1(3) pl1(4) [of q] xs Cons.prems(2) by (cases "q = p") (simp_all add: group_of_def)
    with pl1(1) pl'(1,2) xs show ?thesis unfolding dispatch_groups_Cons by simp
  next
    case False
    then have "dispatch_groups ops ans g (p # ps) pl = dispatch_groups ops ans g ps pl"
      unfolding dispatch_groups_Cons by (auto split: option.split)
    moreover from False have "is_paused p pl \<or> group_of g p = []"
      by (auto simp: group_of_def split: option.split)
    then have "(if q \<in> set ps \<and> \<not> is_paused q pl then group_of g q else [])
        = (if q \<in> set (p # ps) \<and> \<not> is_paused q pl then group_of g q else [])" for q by auto
    ultimately show ?thesis using Cons.IH [OF Cons.prems(1)] Cons.prems(2) by simp
  qed
qed simp

lemma resets_ok:
  assumes "inv w"
  shows "inv (fold (\<lambda>p. do_Reset ops (p_Partition p)) ps w)
    \<and> (\<forall>q. held q (fold (\<lambda>p. do_Reset ops (p_Partition p)) ps w) = held q w)"
  using assms
proof (induction ps arbitrary: w)
  case (Cons p ps)
  with reset [OF Cons.prems, of "p_Partition p"] show ?case by auto
qed simp

lemma revoke_ok:
  assumes "inv (pl_world pl)"
  shows "inv (pl_world (pl_OnPartitionsRevoked ops ans ps pl))
    \<and> (\<forall>q. q \<notin> p_Partition ` set ps
          \<longrightarrow> held q (pl_world (pl_OnPartitionsRevoked ops ans ps pl)) = held q (pl_world pl))"
  using resets_ok [of "do_Revoked ops ps (pl_world pl)" ps] revoked [OF assms, of ps]
  by (simp add: revoked_eq Let_def)

lemma assign_ok:
  assumes "inv (pl_world pl)"
  shows "\<exists>pl'. pl_OnPartitionsAssigned ops ps pl = Inr pl' \<and> inv (pl_world pl')
    \<and> (\<forall>p. held p (pl_world pl') = held p (pl_world pl))"
  using assigned [OF assms, of ps] by (auto simp: pl_OnPartitionsAssigned_def)

lemma rebalances_ok:
  "inv (pl_world pl) \<Longrightarrow> \<exists>pl'. handle_rebalances ops ans rs pl = Inr pl' \<and> inv (pl_world pl')
     \<and> (\<forall>q. q \<notin> revoked_in rs \<longrightarrow> held q (pl_world pl') = held q (pl_world pl))"
proof (induction rs arbitrary: pl)
  case (Cons r rs)
  show ?case
  proof (cases r)
    case (Assigned ps)
    with assign_ok [OF Cons.prems, of ps] Cons.IH show ?thesis by fastforce
  next
    case (Revoked ps)
    with revoke_ok [OF Cons.prems, of ans ps] Cons.IH show ?thesis by fastforce
  qed
qed simp

text \<open>
  The rebalance callbacks of a poll run first, and lead from \<open>pl\<close> to \<open>pl1\<close>; what is handed over
  then is decided by degraded mode as it was before the poll and by the partitions paused in
  \<open>pl1\<close>. In normal operation every partition that is not paused gets
  the polled messages of its partition, in the polled order, behind what it holds; in degraded
  mode and on an error nobody gets anything.
\<close>

lemma poll_rebalanced:
  assumes "inv (pl_world pl)" and "\<And>msgs. an_poll ans = Inr msgs \<Longrightarrow> enumerates ord (groupByPartition msgs)"
  shows "\<exists>pl1 pl'. handle_rebalances ops ans rs (kcall (KPoll (Milliseconds (pc_PollInterval (pl_cfg pl)))) pl) = Inr pl1
    \<and> poll ops ans rs ord pl = Inr pl' \<and> inv (pl_world pl1) \<and> inv (pl_world pl')
    \<and> (\<forall>q. q \<notin> revoked_in rs \<longrightarrow> held q (pl_world pl1) = held q (pl_world pl))
    \<and> (\<forall>p. held p (pl_world pl') = held p (pl_world pl1)
          @ (case an_poll ans of
               Inl _ \<Rightarrow> []
             | Inr msgs \<Rightarrow> if IsDegraded (pl_degraded pl) \<or> is_paused p pl1 then []
                          else filter (\<lambda>x. m_Partition x = p) msgs))"
proof -
  obtain pl1 where r: "handle_rebalances ops ans rs
      (kcall (KPoll (Milliseconds (pc_PollInterval (pl_cfg pl)))) pl) = Inr pl1" and w: "inv (pl_world pl1)"
    and keep: "\<forall>q. q \<notin> revoked_in rs \<longrightarrow> held q (pl_world pl1) = held q (pl_world pl)"
    using rebalances_ok [of "kcall _ pl" ans rs] assms(1) by (auto simp: frame_simps)
  show ?thesis
  proof (cases "an_poll ans")
    case (Inl e)
    with r w keep show ?thesis by (simp add: poll_def Let_def frame_simps)
  next
    case (Inr msgs)
    let ?m = "(pl_m pl1)\<lparr>pm_MessagesPolled := (\<lambda>p. pm_MessagesPolled (pl_m pl1) p
         + (case fmlookup (groupByPartition msgs) p of None \<Rightarrow> 0 | Some xs \<Rightarrow> int (length xs)))\<rparr>"
    have set_ord: "p \<in> set ord \<longleftrightarrow> filter (\<lambda>x. m_Partition x = p) msgs \<noteq> []" for p
      using enumerates_set [OF assms(2) [OF Inr], of p] by (simp add: groupByPartition_lookup Let_def)
    have "is_paused p (pl1\<lparr>pl_m := ?m\<rparr>) = is_paused p pl1" for p by (simp add: is_paused_def)
    then obtain pl' where "dispatch_groups ops ans (groupByPartition msgs) ord (pl1\<lparr>pl_m := ?m\<rparr>) = Inr pl'"
      "inv (pl_world pl')" "\<And>p. held p (pl_world pl') = held p (pl_world pl1)
         @ (if p \<in> set ord \<and> \<not> is_paused p pl1 then filter (\<lambda>x. m_Partition x = p) msgs else [])"
      using dispatch_groups_ok [of "pl1\<lparr>pl_m := ?m\<rparr>" ord ans "groupByPartition msgs"] w
        enumerates_distinct [OF assms(2) [OF Inr]] by (auto cong: if_cong)
    moreover from set_ord have "(if p \<in> set ord \<and> \<not> is_paused p pl1 then filter (\<lambda>x. m_Partition x = p) msgs else [])
        = (if is_paused p pl1 then [] else filter (\<lambda>x. m_Partition x = p) msgs)" for p by auto
    ultimately show ?thesis
      using w keep Inr r by (auto simp: poll_def Let_def)
  qed
qed

text \<open>A poll with no rebalance in it.\<close>

lemma poll_ok:
  assumes "inv (pl_world pl)" and "\<And>msgs. an_poll ans = Inr msgs \<Longrightarrow> enumerates ord (groupByPartition msgs)"
  shows "\<exists>pl'. poll ops ans [] ord pl = Inr pl' \<and> inv (pl_world pl')
    \<and> (\<forall>p. held p (pl_world pl') = held p (pl_world pl)
          @ (case an_poll ans of
               Inl _ \<Rightarrow> []
             | Inr msgs \<Rightarrow> if IsDegraded (pl_degraded pl) \<or> is_paused p pl then []
                          else filter (\<lambda>x. m_Partition x = p) msgs))"
proof -
  have "is_paused p (kcall c pl) = is_paused p pl" for p c by (simp add: is_paused_def kcall_def)
  with poll_rebalanced [where ans = ans and rs = "[]", OF assms] show ?thesis
    by (cases "an_poll ans") (auto simp: frame_simps)
qed

text \<open>A poll with rebalances, in any order of the groups.\<close>

lemma poll_inv:
  assumes "inv (pl_world pl)" and "distinct ord"
  shows "\<exists>pl'. poll ops ans rs ord pl = Inr pl' \<and> inv (pl_world pl')"
proof -
  obtain pl1 where "handle_rebalances ops ans rs
      (kcall (KPoll (Milliseconds (pc_PollInterval (pl_cfg pl)))) pl) = Inr pl1" "inv (pl_world pl1)"
    using rebalances_ok [of "kcall _ pl" ans rs] assms(1) by (auto simp: frame_simps)
  then show ?thesis
    using dispatch_groups_ok [of "pl1\<lparr>pl_m := _\<rparr>" ord ans] assms(2)
    by (simp add: poll_def Let_def frame_simps split: sum.split) blast
qed

lemma event_inv:
  assumes "inv (pl_world pl)" and "event_ok ev"
  shows "\<exists>pl'. run_event ops ev ans pl = Inr pl' \<and> inv (pl_world pl')"
  using assms poll_inv [OF assms(1)]
  by (cases ev) (simp_all add: run_event_def event_ok_def frame_simps)

lemma run_loop_total:
  assumes "inv (pl_world pl)"
    and "\<And>ev ans f. (ev, ans, f) \<in> set evs \<Longrightarrow> event_ok ev \<and> (\<forall>w. inv w \<longrightarrow> inv (f w))"
  shows "(CtxDone \<in> fst ` set evs \<longleftrightarrow> run_loop ops evs pl \<noteq> None)
    \<and> (\<forall>e. run_loop ops evs pl = Some (Inl e) \<longrightarrow> crash e)"
  using assms
proof (induction evs arbitrary: pl)
  case (Cons e evs)
  obtain ev ans f where e: "e = (ev, ans, f)" by (cases e)
  let ?pl = "pl\<lparr>pl_world := f (pl_world pl)\<rparr>"
  from Cons.prems(2) [of ev ans f] e Cons.prems(1) have w: "inv (pl_world ?pl)" "event_ok ev" by auto
  show ?case
  proof (cases "ev = CtxDone")
    case True
    have "crash x" if "shutdown ops ans ?pl = Inl x" for x
      using close [OF w(1), of x] that by (auto simp: shutdown_def Let_def go_bind_Inl_iff)
    with True e show ?thesis by simp
  next
    case False
    obtain pl' where "run_event ops ev ans ?pl = Inr pl'" "inv (pl_world pl')"
      using event_inv [OF w] by blast
    moreover from this have "(CtxDone \<in> fst ` set evs \<longleftrightarrow> run_loop ops evs pl' \<noteq> None)
        \<and> (\<forall>e. run_loop ops evs pl' = Some (Inl e) \<longrightarrow> crash e)"
      using Cons.prems(2) by (intro Cons.IH) auto
    ultimately show ?thesis using False e by simp
  qed
qed simp

end

text \<open>
  While no other goroutine runs, the committable offsets change only through the call itself:
  no call but a reset, and a \<open>Send\<close> for its own partition, touches them.
\<close>

locale quiet_port = dispatch_port +
  assumes send_quiet: "inv w \<Longrightarrow> do_Send ops p xs w = Inr (err, w') \<Longrightarrow> q \<noteq> p
      \<Longrightarrow> fmlookup (do_Committable ops w') q = fmlookup (do_Committable ops w) q"
    and revoked_quiet: "inv w \<Longrightarrow> do_Committable ops (do_Revoked ops ps w) = do_Committable ops w"
    and reset_quiet: "inv w \<Longrightarrow> do_Committable ops (do_Reset ops p w) = fmdrop p (do_Committable ops w)"
begin

lemma resets_quiet:
  assumes "inv w"
  shows "fmlookup (do_Committable ops (fold (\<lambda>p. do_Reset ops (p_Partition p)) ps w)) q
    = (if q \<in> p_Partition ` set ps then None else fmlookup (do_Committable ops w) q)"
  using assms
proof (induction ps arbitrary: w)
  case (Cons p ps)
  with reset [OF Cons.prems, of "p_Partition p"] reset_quiet [OF Cons.prems, of "p_Partition p"]
  show ?case by auto
qed simp

lemma revoke_quiet:
  assumes "inv (pl_world pl)"
  shows "fmlookup (do_Committable ops (pl_world (pl_OnPartitionsRevoked ops ans ps pl))) q
    = (if q \<in> p_Partition ` set ps then None else fmlookup (do_Committable ops (pl_world pl)) q)"
  using resets_quiet [of "do_Revoked ops ps (pl_world pl)" ps q] revoked [OF assms, of ps]
    revoked_quiet [OF assms, of ps]
  by (simp add: revoked_eq Let_def)

lemma revoked_offsets_eq:
  "inv w \<Longrightarrow> revoked_offsets ops ps w = fmfilter (\<lambda>p. p \<in> p_Partition ` set ps) (do_Committable ops w)"
  using revoked_quiet [of w ps] by (simp add: revoked_offsets_def cong del: fmfilter_cong)

text \<open>Sending one group cannot make another partition's offset committable or withdraw it.\<close>

lemma send_group_quiet:
  assumes "inv (pl_world pl)" and "send_group ops ans p xs pl = Inr pl'" and "q \<noteq> p"
  shows "fmlookup (do_Committable ops (pl_world pl')) q = fmlookup (do_Committable ops (pl_world pl)) q"
  using assms(2) send_quiet [OF assms(1), of p xs _ _ q] assms(3)
  by (auto simp: send_group_def go_bind_Inr_iff frame_simps split: option.splits if_splits)

end

subsection \<open>The unordered dispatcher behind the interface\<close>

text \<open>
  The dispatcher with its coordinator as the poll loop uses them. \<open>ord\<close> is the order in which
  \<open>Close\<close> visits the partitions, \<open>outcome\<close> what ends its wait, and \<open>drain\<close> what the workers do
  while it waits.
\<close>

definition unordered_ops ::
  "int32 list \<Rightarrow> close_outcome \<Rightarrow> (dispatcher \<Rightarrow> dispatcher) \<Rightarrow> dispatcher disp_ops"
where
  "unordered_ops ord outcome drain =
     \<lparr>do_Send = Send, do_Assigned = OnPartitionsAssigned, do_Revoked = OnPartitionsRevoked,
      do_Close = (\<lambda>d. go_bind (Close ord outcome d) (\<lambda>(err, d'). Inr (err, drain d'))),
      do_Committable = (\<lambda>d. Committable (d_coordinator d)),
      do_Reset = (\<lambda>p d. d\<lparr>d_coordinator := Reset p (d_coordinator d)\<rparr>), do_Crash = (\<lambda>_. None)\<rparr>"

lemma unordered_ops_simps [simp]:
  "do_Send (unordered_ops ord outcome drain) = Send"
  "do_Assigned (unordered_ops ord outcome drain) = OnPartitionsAssigned"
  "do_Revoked (unordered_ops ord outcome drain) = OnPartitionsRevoked"
  "do_Close (unordered_ops ord outcome drain) d
     = go_bind (Close ord outcome d) (\<lambda>(err, d'). Inr (err, drain d'))"
  "do_Committable (unordered_ops ord outcome drain) d = Committable (d_coordinator d)"
  "do_Reset (unordered_ops ord outcome drain) p d = d\<lparr>d_coordinator := Reset p (d_coordinator d)\<rparr>"
  "do_Crash (unordered_ops ord outcome drain) d = None"
  by (simp_all add: unordered_ops_def)

definition open_disp :: "dispatcher \<Rightarrow> bool" where
  "open_disp d \<longleftrightarrow> disp_ok d \<and> \<not> d_closed d"

lemma open_disp_iff:
  "open_disp d \<longleftrightarrow> 0 < dc_BatchSize (d_cfg d) \<and> coord_wf (d_coordinator d)
     \<and> (\<forall>p m. coord_view (d_coordinator d) p = InFlight m \<longrightarrow> in_flight p d)
     \<and> \<not> d_closed d \<and> \<not> d_batchChClosed d"
  by (auto simp: open_disp_def disp_ok_def)

text \<open>What the dispatcher holds for a partition: its batches in the channel, then its buffer.\<close>

definition held_messages :: "int32 \<Rightarrow> dispatcher \<Rightarrow> message list" where
  "held_messages p d =
     concat (map b_messages (filter (\<lambda>b. b_partition b = p) (d_batchCh d))) @ buffered p d"

lemma Committable_coord_cong:
  "coord_wf c \<Longrightarrow> coord_wf c' \<Longrightarrow> coord_view c' q = coord_view c q
    \<Longrightarrow> fmlookup (Committable c') q = fmlookup (Committable c) q"
  by (simp add: oc.lookup_committable spec_committable_def)

lemma Send_port:
  assumes "open_disp d"
  shows "\<exists>err d'. Send p xs d = Inr (err, d') \<and> open_disp d' \<and> held_messages p d' = held_messages p d @ xs
    \<and> (\<forall>q. q \<noteq> p \<longrightarrow> held_messages q d' = held_messages q d
          \<and> fmlookup (Committable (d_coordinator d')) q = fmlookup (Committable (d_coordinator d)) q)"
proof -
  have d: "disp_ok d" "\<not> d_closed d" using assms by (simp_all add: open_disp_def)
  from Send_ok [OF d, of p xs] obtain err d' where s: "Send p xs d = Inr (err, d')" "disp_ok d'"
    "d_closed d' = d_closed d"
    "\<forall>q. q \<noteq> p \<longrightarrow> buffered q d' = buffered q d
        \<and> coord_view (d_coordinator d') q = coord_view (d_coordinator d) q"
    and br: "if in_flight p d \<or> length (buffered p d @ xs) < batch_size d
      then d_batchCh d' = d_batchCh d \<and> buffered p d' = buffered p d @ xs
      else if int (length (d_batchCh d)) < dc_ChannelCap (d_cfg d)
      then d_batchCh d' = d_batchCh d @ [batch_of p (take (batch_size d) (buffered p d @ xs))]
          \<and> buffered p d' = drop (batch_size d) (buffered p d @ xs)
      else d_batchCh d' = d_batchCh d \<and> buffered p d' = buffered p d @ xs"
    by (elim exE conjE) (metis (no_types, lifting))
  have s5: "(d_batchCh d' = d_batchCh d \<and> buffered p d' = buffered p d @ xs)
      \<or> (d_batchCh d' = d_batchCh d @ [batch_of p (take (batch_size d) (buffered p d @ xs))]
          \<and> buffered p d' = drop (batch_size d) (buffered p d @ xs))"
    using br by (meson)
  have "held_messages p d' = held_messages p d @ xs"
    using s5 by (auto simp: held_messages_def simp del: take_append drop_append)
  moreover have "held_messages q d' = held_messages q d" if "q \<noteq> p" for q
    using s(4) that s5 that by (auto simp: held_messages_def)
  moreover have "fmlookup (Committable (d_coordinator d')) q = fmlookup (Committable (d_coordinator d)) q"
    if "q \<noteq> p" for q
    using Committable_coord_cong [OF disp_okD(2) [OF d(1)] disp_okD(2) [OF s(2)]] s(4) that by blast
  ultimately show ?thesis using s(1-3) d by (simp add: open_disp_def)
qed

lemma OnPartitionsAssigned_port:
  "open_disp d \<Longrightarrow> \<exists>d'. OnPartitionsAssigned ps d = Inr d' \<and> open_disp d'
     \<and> (\<forall>p. held_messages p d' = held_messages p d) \<and> d_coordinator d' = d_coordinator d"
proof (induction ps arbitrary: d)
  case (Cons p ps)
  show ?case
  proof (cases "fmlookup (d_partitions d) (p_Partition p)")
    case None
    let ?pb = "\<lparr>pb_messages = [], pb_inFlight = False, pb_lingerTimer = None\<rparr>"
    let ?d = "set_buffer (p_Partition p) ?pb d"
    have b: "buffered q ?d = buffered q d \<and> in_flight q ?d = in_flight q d" for q
      using None by (auto simp: buffer_views)
    then have "open_disp ?d" using Cons.prems by (simp add: open_disp_iff frame_simps)
    from Cons.IH [OF this] obtain d' where "OnPartitionsAssigned ps ?d = Inr d'" "open_disp d'"
      "\<forall>p. held_messages p d' = held_messages p ?d" "d_coordinator d' = d_coordinator d"
      by (auto simp: frame_simps)
    moreover have "new_buffer (d_cfg d) = Inr ?pb"
      using Cons.prems by (simp add: new_buffer_def open_disp_iff)
    ultimately show ?thesis using None b by (simp add: held_messages_def frame_simps)
  next
    case (Some pb)
    with Cons.IH [OF Cons.prems] show ?thesis by simp
  qed
qed simp

lemma revoke_one_frame:
  "d_batchCh (revoke_one p d) = d_batchCh d" "d_coordinator (revoke_one p d) = d_coordinator d"
  "d_cfg (revoke_one p d) = d_cfg d" "d_closed (revoke_one p d) = d_closed d"
  "d_batchChClosed (revoke_one p d) = d_batchChClosed d" "in_flight q (revoke_one p d) = in_flight q d"
  "buffered q (revoke_one p d) = (if q = p then [] else buffered q d)"
  by (auto simp: revoke_one_def frame_simps buffer_views split: option.split)

lemma OnPartitionsRevoked_port:
  "open_disp d \<Longrightarrow> open_disp (OnPartitionsRevoked ps d)
     \<and> d_coordinator (OnPartitionsRevoked ps d) = d_coordinator d
     \<and> (\<forall>q. q \<notin> p_Partition ` set ps \<longrightarrow> held_messages q (OnPartitionsRevoked ps d) = held_messages q d)"
proof (induction ps arbitrary: d)
  case (Cons p ps)
  have "open_disp (revoke_one (p_Partition p) d)"
    using Cons.prems by (simp add: open_disp_iff revoke_one_frame)
  from Cons.IH [OF this] show ?case
    by (simp add: OnPartitionsRevoked_def revoke_one_frame held_messages_def)
qed (simp add: OnPartitionsRevoked_def)

lemma Committable_Reset: "Committable (Reset p c) = fmdrop p (Committable c)"
  by (rule fmap_ext) (simp add: Committable_lookup Reset_def)

lemma reset_port:
  assumes "open_disp d"
  shows "open_disp (d\<lparr>d_coordinator := Reset p (d_coordinator d)\<rparr>)"
proof -
  have "disp_ok (d\<lparr>d_coordinator := Reset p (d_coordinator d)\<rparr>)"
    using assms unfolding open_disp_def disp_ok_def
    by (auto simp: oc.view_reset oc.inv_reset buffer_views split: if_splits)
  then show ?thesis using assms by (simp add: open_disp_def)
qed

lemma Close_no_panic: "open_disp d \<Longrightarrow> \<not> panics (Close ord outcome d)"
  by (simp add: open_disp_iff Close_def close_region_def)

interpretation up: quiet_port "unordered_ops ord outcome drain" open_disp held_messages "\<lambda>_. False"
  for ord outcome drain
proof
  fix w p q ps xs err w' e
  assume w: "open_disp w"
  show "\<exists>err w'. do_Send (unordered_ops ord outcome drain) p xs w = Inr (err, w') \<and> open_disp w'
      \<and> held_messages p w' = held_messages p w @ xs \<and> (\<forall>q. q \<noteq> p \<longrightarrow> held_messages q w' = held_messages q w)"
    using Send_port [OF w, of p xs] by auto
  show "fmlookup (do_Committable (unordered_ops ord outcome drain) w') q
      = fmlookup (do_Committable (unordered_ops ord outcome drain) w) q"
    if "do_Send (unordered_ops ord outcome drain) p xs w = Inr (err, w')" "q \<noteq> p"
    using that Send_port [OF w, of p xs] by auto
  show "\<exists>w'. do_Assigned (unordered_ops ord outcome drain) ps w = Inr w' \<and> open_disp w'
      \<and> (\<forall>p. held_messages p w' = held_messages p w)"
    using OnPartitionsAssigned_port [OF w, of ps] by auto
  show False if "do_Close (unordered_ops ord outcome drain) w = Inl e"
    using Close_no_panic [OF w, of ord outcome] that by (auto elim!: not_panicsE split: prod.splits)
  show "open_disp (do_Revoked (unordered_ops ord outcome drain) ps w)
      \<and> (\<forall>q. q \<notin> p_Partition ` set ps
            \<longrightarrow> held_messages q (do_Revoked (unordered_ops ord outcome drain) ps w) = held_messages q w)"
    and "do_Committable (unordered_ops ord outcome drain) (do_Revoked (unordered_ops ord outcome drain) ps w)
          = do_Committable (unordered_ops ord outcome drain) w"
    using OnPartitionsRevoked_port [OF w, of ps] by simp_all
qed (simp_all add: reset_port Committable_Reset held_messages_def buffered_def)

end
