(* ===== verification/Poll_Loop_Runs.thy ===== *)
theory Poll_Loop_Runs
  imports Poll_Loop
begin

text \<open>
  Runs of the poll loop: sequences of events with the answers Kafka gives and what the other
  goroutines do in between. The theory holds the invariant that ties degraded mode and the
  probes to their causes, and the properties of the poll loop with the unordered dispatcher.
\<close>

subsection \<open>Runs of the loop\<close>

text \<open>The events of a running loop, without the final one.\<close>

fun run_events ::
  "'w disp_ops \<Rightarrow> (event \<times> answers \<times> ('w \<Rightarrow> 'w)) list \<Rightarrow> 'w pollloop \<Rightarrow> panic + 'w pollloop"
where
  "run_events ops [] pl = Inr pl"
| "run_events ops ((ev, ans, others) # evs) pl =
     go_bind (run_event ops ev ans (pl\<lparr>pl_world := others (pl_world pl)\<rparr>)) (run_events ops evs)"

lemma run_events_snoc:
  "run_events ops (evs @ [(ev, ans, f)]) pl =
     go_bind (run_events ops evs pl) (\<lambda>pl1. run_event ops ev ans (pl1\<lparr>pl_world := f (pl_world pl1)\<rparr>))"
proof (induction evs arbitrary: pl)
  case Nil
  show ?case by (cases "run_event ops ev ans (pl\<lparr>pl_world := f (pl_world pl)\<rparr>)") simp_all
next
  case (Cons e evs)
  obtain ev' ans' f' where e: "e = (ev', ans', f')" by (cases e)
  show ?case
    unfolding e using Cons.IH
    by (cases "run_event ops ev' ans' (pl\<lparr>pl_world := f' (pl_world pl)\<rparr>)") simp_all
qed

lemma run_loop_returns:
  assumes "run_loop ops evs pl = Some (Inr r)"
  obtains evs1 ans f evs2 pl1 where "evs = evs1 @ (CtxDone, ans, f) # evs2"
    and "run_events ops evs1 pl = Inr pl1"
    and "shutdown ops ans (pl1\<lparr>pl_world := f (pl_world pl1)\<rparr>) = Inr r"
  using assms
proof (induction evs arbitrary: pl thesis)
  case (Cons e evs)
  obtain ev ans f where e: "e = (ev, ans, f)" by (cases e)
  let ?pl = "pl\<lparr>pl_world := f (pl_world pl)\<rparr>"
  show ?case
  proof (cases "ev = CtxDone")
    case True
    with Cons.prems e show ?thesis by (intro Cons.prems(1) [of "[]"]) auto
  next
    case False
    then obtain pl2 where pl2: "run_event ops ev ans ?pl = Inr pl2" "run_loop ops evs pl2 = Some (Inr r)"
      using Cons.prems(2) e by (auto simp: Let_def split: sum.splits)
    show ?thesis
    proof (rule Cons.IH [OF _ pl2(2)])
      fix evs1 ans' f' evs2 pl1
      assume "evs = evs1 @ (CtxDone, ans', f') # evs2" "run_events ops evs1 pl2 = Inr pl1"
        "shutdown ops ans' (pl1\<lparr>pl_world := f' (pl_world pl1)\<rparr>) = Inr r"
      with e pl2(1) show thesis by (intro Cons.prems(1) [of "e # evs1"]) auto
    qed
  qed
qed simp

text \<open>What decides degraded mode, and that only commits and notifications of the breaker change it.\<close>

definition causes :: "'w pollloop \<Rightarrow> pl_config \<times> int \<times> 32 word" where
  "causes pl = (pl_cfg pl, pl_commitFailures pl, pl_degraded pl)"

lemma causes_frame [frame_simps]:
  "causes (kcall c pl) = causes pl" "causes (pausePartition ans p pl) = causes pl"
  "causes (pauseAllPartitions ans pl) = causes pl" "causes (resumeAllPartitions ans pl) = causes pl"
  "causes (resumeAllPausedPartitions ans ord pl) = causes pl" "causes (poll_error pl) = causes pl"
  "causes (pl\<lparr>pl_world := w\<rparr>) = causes pl" "causes (pl\<lparr>pl_m := m\<rparr>) = causes pl"
  "causes (pl_OnPartitionsRevoked ops ans ps pl) = causes pl"
  by (simp_all add: causes_def pollloop_defs poll_error_def revoked_eq split: sum.split option.split)

lemma causes_enter_exit [frame_simps]:
  "causes (enterDegradedMode ans r pl) = (pl_cfg pl, pl_commitFailures pl, degraded_Set r (pl_degraded pl))"
  "causes (exitDegradedMode ans r pl) = (pl_cfg pl, pl_commitFailures pl, degraded_Clear r (pl_degraded pl))"
  by (simp_all add: causes_def pollloop_defs split: sum.split)

lemma causes_rebalances: "handle_rebalances ops ans rs pl = Inr pl' \<Longrightarrow> causes pl' = causes pl"
proof (induction rs arbitrary: pl)
  case (Cons r rs)
  then show ?case
    by (cases r) (fastforce simp: go_bind_Inr_iff pl_OnPartitionsAssigned_def causes_def
        dest: Cons.IH, simp add: frame_simps Cons.IH)
qed simp

lemma causes_dispatch: "dispatch_groups ops ans g ps pl = Inr pl' \<Longrightarrow> causes pl' = causes pl"
proof (induction ps arbitrary: pl)
  case (Cons p ps)
  have "send_group ops ans p xs pl = Inr pl1 \<Longrightarrow> causes pl1 = causes pl" for xs pl1
    by (auto simp: send_group_def go_bind_Inr_iff frame_simps split: option.splits if_splits)
  with Cons show ?case
    unfolding dispatch_groups_Cons by (auto simp: go_bind_Inr_iff split: option.splits if_splits)
qed simp

lemma causes_poll: "poll ops ans rs ord pl = Inr pl' \<Longrightarrow> causes pl' = causes pl"
  by (cases "an_poll ans") (auto simp: poll_def Let_def go_bind_Inr_iff frame_simps split: if_splits
      dest!: causes_rebalances causes_dispatch)

text \<open>The last state but half-open that the breaker announced is open.\<close>

definition circuit_note :: "event \<Rightarrow> bool \<Rightarrow> bool" where
  "circuit_note ev b = (case ev of CircuitChanged Open \<Rightarrow> True | CircuitChanged Closed \<Rightarrow> False | _ \<Rightarrow> b)"

definition circuit_open :: "(event \<times> answers \<times> ('w \<Rightarrow> 'w)) list \<Rightarrow> bool" where
  "circuit_open evs = fold circuit_note (map fst evs) False"

text \<open>
  Target unavailability is what the breaker announced last; broker unavailability is the
  threshold of consecutive commit failures.
\<close>

definition causes_ok :: "bool \<Rightarrow> 'w pollloop \<Rightarrow> bool" where
  "causes_ok op pl \<longleftrightarrow> Has TargetUnavailable (pl_degraded pl) = op
     \<and> Has BrokerUnavailable (pl_degraded pl) = (pc_CommitFailureThreshold (pl_cfg pl) \<le> pl_commitFailures pl)
     \<and> 0 < pc_CommitFailureThreshold (pl_cfg pl) \<and> 0 \<le> pl_commitFailures pl"

lemma causes_ok_cong: "causes pl' = causes pl \<Longrightarrow> causes_ok op pl' = causes_ok op pl"
  by (simp add: causes_ok_def causes_def)

lemma mask_has:
  assumes "mask_ok d"
  shows "Has BrokerUnavailable (degraded_Set BrokerUnavailable d)"
    "Has TargetUnavailable (degraded_Set BrokerUnavailable d) = Has TargetUnavailable d"
    "\<not> Has BrokerUnavailable (degraded_Clear BrokerUnavailable d)"
    "Has TargetUnavailable (degraded_Clear BrokerUnavailable d) = Has TargetUnavailable d"
    "Has TargetUnavailable (degraded_Set TargetUnavailable d)"
    "Has BrokerUnavailable (degraded_Set TargetUnavailable d) = Has BrokerUnavailable d"
    "\<not> Has TargetUnavailable (degraded_Clear TargetUnavailable d)"
    "Has BrokerUnavailable (degraded_Clear TargetUnavailable d) = Has BrokerUnavailable d"
    "IsDegraded d = (Has BrokerUnavailable d \<or> Has TargetUnavailable d)"
proof -
  have cl: "\<not> Has (reason_bit r) (degraded_Clear (reason_bit r) d)" for r
    using dg.has_view [OF dg.ok_clear [OF assms, of r], of r] dg.view_clear [OF assms, of r] by simp
  show "\<not> Has BrokerUnavailable (degraded_Clear BrokerUnavailable d)"
    "\<not> Has TargetUnavailable (degraded_Clear TargetUnavailable d)"
    using cl [of Broker] cl [of Target] by simp_all
  show "IsDegraded d = (Has BrokerUnavailable d \<or> Has TargetUnavailable d)"
    using dg.degraded_view [OF assms] dg.has_view [OF assms, of Broker] dg.has_view [OF assms, of Target]
      reason_set_ext [of "mask_view d" "{}"] by auto
qed (use dg.set_degraded [OF assms, of Broker] dg.set_degraded [OF assms, of Target]
      dg.set_keeps_other [OF assms, of Broker Target] dg.set_keeps_other [OF assms, of Target Broker]
      dg.clear_keeps_other [OF assms, of Broker Target] dg.clear_keeps_other [OF assms, of Target Broker]
     in simp_all)

text \<open>What a commit does to the causes.\<close>

lemma causes_commit:
  "causes (commitOffsets ops ans pl) =
     (if do_Committable ops (pl_world pl) = fmempty then causes pl
      else case an_commit ans of
        Some _ \<Rightarrow> (pl_cfg pl, pl_commitFailures pl + 1,
          if pc_CommitFailureThreshold (pl_cfg pl) \<le> pl_commitFailures pl + 1
             \<and> \<not> Has BrokerUnavailable (pl_degraded pl)
          then degraded_Set BrokerUnavailable (pl_degraded pl) else pl_degraded pl)
      | None \<Rightarrow> (pl_cfg pl, 0,
          if Has BrokerUnavailable (pl_degraded pl)
          then degraded_Clear BrokerUnavailable (pl_degraded pl) else pl_degraded pl))"
  by (auto simp: commitOffsets_def Let_def frame_simps causes_enter_exit kcall_def split: option.split)
    (simp_all add: causes_def)

lemma causes_ok_event:
  assumes "run_event ops ev ans pl = Inr pl'" and "mask_ok (pl_degraded pl)" and "causes_ok op pl"
  shows "causes_ok (circuit_note ev op) pl'"
proof (cases ev)
  case CtxDone
  with assms show ?thesis by (simp add: run_event_def circuit_note_def)
next
  case (PollTick rs ord)
  with assms causes_poll causes_ok_cong show ?thesis by (fastforce simp: run_event_def circuit_note_def)
next
  case CommitTick
  then have pl': "pl' = commitOffsets ops ans pl" using assms(1) by (simp add: run_event_def)
  show ?thesis
    using causes_commit [of ops ans pl] assms(3) mask_has [OF assms(2)] CommitTick unfolding pl'
    by (auto simp: circuit_note_def causes_ok_def causes_def split: if_splits option.splits)
next
  case (DispatcherReady ord)
  with assms causes_frame(5) causes_ok_cong show ?thesis
    by (fastforce simp: run_event_def onDispatcherReady_def circuit_note_def)
next
  case (CircuitChanged st)
  then have pl': "pl' = onCircuitStateChanged ans st pl" using assms(1) by (simp add: run_event_def)
  show ?thesis
    using causes_enter_exit [of ans TargetUnavailable pl] assms(3) mask_has [OF assms(2)] CircuitChanged
    unfolding pl' onCircuitStateChanged_def
    by (cases st) (auto simp: circuit_note_def causes_ok_def causes_def)
qed

lemma run_events_inv:
  assumes "run_events ops evs pl = Inr pl'" and "ready_inv pl" and "causes_ok False pl"
  shows "ready_inv pl' \<and> causes_ok (circuit_open evs) pl'"
  using assms(1)
proof (induction evs arbitrary: pl' rule: rev_induct)
  case Nil
  with assms show ?case by (simp add: circuit_open_def)
next
  case (snoc e evs)
  obtain ev ans f where e: "e = (ev, ans, f)" by (cases e)
  from snoc.prems obtain pl1 where r: "run_events ops evs pl = Inr pl1"
    and ev: "run_event ops ev ans (pl1\<lparr>pl_world := f (pl_world pl1)\<rparr>) = Inr pl'"
    unfolding e run_events_snoc by (auto simp: go_bind_Inr_iff)
  let ?pl = "pl1\<lparr>pl_world := f (pl_world pl1)\<rparr>"
  have i: "ready_inv ?pl" "causes_ok (circuit_open evs) ?pl"
    using snoc.IH [OF r] by (simp_all only: ready_inv_core [OF core_simps(7)] causes_ok_cong [OF causes_frame(7)])
  then have "mask_ok (pl_degraded ?pl)" by (simp add: ready_inv_def)
  from causes_ok_event [OF ev this i(2)] ready_inv_event [OF ev i(1)] show ?case
    by (simp add: e circuit_open_def)
qed

lemma NewPollLoop_started:
  assumes "NewPollLoop cfg k w c h (Some m) = Inr pl" and "pm_DegradedMode m = 0"
    and "0 < pc_CommitFailureThreshold cfg"
  shows "ready_inv (started pl) \<and> causes_ok False (started pl)"
proof -
  have pl: "pl_cfg pl = cfg" "pl_degraded pl = 0" "pl_commitFailures pl = 0" "pl_m pl = m"
    using assms(1) by (auto simp: NewPollLoop_def split: if_splits option.splits)
  then show ?thesis
    using assms(2,3) dg.ok_empty
    by (simp add: ready_inv_def causes_ok_def started_def SetReady_def SetLive_def IsDegraded_def Has_def)
qed

text \<open>The offsets that were sent to Kafka, in order.\<close>

definition commits :: "'w pollloop \<Rightarrow> (int32, int64) fmap list" where
  "commits pl = concat (map (\<lambda>c. case c of KCommit offs \<Rightarrow> [offs] | _ \<Rightarrow> []) (pl_calls pl))"

lemma commits_frame [frame_simps]:
  "commits (enterDegradedMode ans r pl) = commits pl" "commits (exitDegradedMode ans r pl) = commits pl"
  by (auto simp: commits_def pollloop_defs split: sum.split)

lemma last_committed_frame [frame_simps]:
  "pm_LastCommittedOffset (pl_m (enterDegradedMode ans r pl)) = pm_LastCommittedOffset (pl_m pl)"
  "pm_LastCommittedOffset (pl_m (exitDegradedMode ans r pl)) = pm_LastCommittedOffset (pl_m pl)"
  by (auto simp: pollloop_defs split: sum.split)

lemma commitOffsets_records:
  assumes "do_Committable ops (pl_world pl) \<noteq> fmempty"
  shows "commits (commitOffsets ops ans pl) = commits pl @ [do_Committable ops (pl_world pl)]"
    and "pm_LastCommittedOffset (pl_m (commitOffsets ops ans pl)) p =
      (case fmlookup (do_Committable ops (pl_world pl)) p of
         Some off \<Rightarrow> if an_commit ans = None then Some off else pm_LastCommittedOffset (pl_m pl) p
       | None \<Rightarrow> pm_LastCommittedOffset (pl_m pl) p)"
  using assms
  by (simp_all add: commitOffsets_def Let_def frame_simps record_commits_def split: option.split)
    (simp_all add: commits_def kcall_def)

subsection \<open>Returning\<close>

text \<open>Events none of which can panic, before the context ends.\<close>

lemma run_events_keep:
  assumes event: "\<And>pl ev ans. I (pl_world pl) \<Longrightarrow> event_ok ev
      \<Longrightarrow> \<exists>pl'. run_event ops ev ans pl = Inr pl' \<and> I (pl_world pl')"
    and "I (pl_world pl)" and "\<And>ev ans f. (ev, ans, f) \<in> set evs \<Longrightarrow> event_ok ev \<and> (\<forall>w. I w \<longrightarrow> I (f w))"
  shows "\<exists>pl'. run_events ops evs pl = Inr pl' \<and> I (pl_world pl')"
  using assms(2,3)
proof (induction evs arbitrary: pl)
  case (Cons e evs)
  obtain ev ans f where e: "e = (ev, ans, f)" by (cases e)
  from Cons.prems(2) [of ev ans f] e Cons.prems(1)
  have "I (pl_world (pl\<lparr>pl_world := f (pl_world pl)\<rparr>))" "event_ok ev" by auto
  from event [OF this] obtain pl' where
    "run_event ops ev ans (pl\<lparr>pl_world := f (pl_world pl)\<rparr>) = Inr pl'" "I (pl_world pl')" by blast
  moreover have "\<exists>pl''. run_events ops evs pl' = Inr pl'' \<and> I (pl_world pl'')"
    using Cons.prems(2) e \<open>I (pl_world pl')\<close> by (intro Cons.IH) auto
  ultimately show ?case using e by simp
qed simp

lemma pl_Run_total:
  assumes "0 < pc_PollInterval (pl_cfg pl)" and "0 < pc_CommitInterval (pl_cfg pl)"
    and "open_disp (pl_world pl)"
    and "\<forall>(ev, ans, others) \<in> set evs. event_ok ev \<and> (\<forall>d. open_disp d \<longrightarrow> open_disp (others d))"
  shows "(pl_Run (unordered_ops ord outcome drain) evs pl \<noteq> None \<longleftrightarrow> CtxDone \<in> fst ` set evs)
    \<and> (\<forall>r. pl_Run (unordered_ops ord outcome drain) evs pl = Some r \<longrightarrow> \<not> panics r)"
proof -
  have w: "open_disp (pl_world (started pl))" using assms(3) by (simp add: started_def)
  have "(CtxDone \<in> fst ` set evs \<longleftrightarrow> run_loop (unordered_ops ord outcome drain) evs (started pl) \<noteq> None)
    \<and> (\<forall>e. run_loop (unordered_ops ord outcome drain) evs (started pl) = Some (Inl e) \<longrightarrow> False)"
    using assms(4) by (intro up.run_loop_total [OF w, of evs ord outcome drain]) auto
  then show ?thesis
    using assms(1,2)
    by (auto simp: pl_Run_def NewTicker_def panics_def map_sum_Inl_iff split: sum.splits)
qed

lemma pl_Run_shutdown:
  assumes "pl_Run ops evs pl = Some (Inr (err, pl'))"
  shows "\<exists>evs1 ans others evs2 pl1 w. evs = evs1 @ (CtxDone, ans, others) # evs2
    \<and> run_events ops evs1 (started pl) = Inr pl1
    \<and> do_Close ops (others (pl_world pl1)) = Inr (err, w) \<and> pl_world pl' = w
    \<and> pl_calls pl' = pl_calls pl1
        @ (if do_Committable ops w = fmempty then [] else [KCommit (do_Committable ops w)]) @ [KClose]
    \<and> \<not> h_live (pl_health pl') \<and> \<not> h_ready (pl_health pl')"
proof -
  from assms obtain z where z: "run_loop ops evs (started pl) = Some z"
    "map_sum id (\<lambda>(err, pl'). (err, pl'\<lparr>pl_health := SetLive False (pl_health pl')\<rparr>)) z = Inr (err, pl')"
    by (auto simp: pl_Run_def split: sum.splits)
  then obtain pl2 where pl2: "run_loop ops evs (started pl) = Some (Inr (err, pl2))"
    "pl' = pl2\<lparr>pl_health := SetLive False (pl_health pl2)\<rparr>" by (cases z) auto
  from pl2(1) obtain evs1 ans f evs2 pl1 where r: "evs = evs1 @ (CtxDone, ans, f) # evs2"
    "run_events ops evs1 (started pl) = Inr pl1"
    "shutdown ops ans (pl1\<lparr>pl_world := f (pl_world pl1)\<rparr>) = Inr (err, pl2)"
    by (rule run_loop_returns)
  obtain e w where c: "do_Close ops (f (pl_world pl1)) = Inr (e, w)"
    using r(3) by (cases "do_Close ops (f (pl_world pl1))") (auto simp: shutdown_def)
  have "e = err" and "pl2 = (let pl2 = (if do_Committable ops w = fmempty then pl1\<lparr>pl_world := w\<rparr>
        else kcall (KCommit (do_Committable ops w)) (pl1\<lparr>pl_world := w\<rparr>));
      pl3 = kcall KClose pl2
      in pl3\<lparr>pl_health := SetReady False (pl_health pl3)\<rparr>)"
    using r(3) by (auto simp: shutdown_def c Let_def)
  with r(1,2) c pl2(2) show ?thesis
    by (intro exI [where x = evs1] exI [where x = ans] exI [where x = f] exI [where x = evs2]
        exI [where x = pl1] exI [where x = w])
      (simp add: Let_def kcall_def SetReady_def SetLive_def)
qed

text \<open>
  Grouping splits the polled messages and loses none. The group of a partition is the
  subsequence of its messages, in order; a partition without messages has no group; and
  whichever order the groups are visited in, together they are the polled messages.
\<close>

lemma groups_partition_messages:
  assumes "enumerates ord (groupByPartition msgs)"
  shows "(\<forall>p. fmlookup (groupByPartition msgs) p =
        (if p \<in> m_Partition ` set msgs then Some (filter (\<lambda>x. m_Partition x = p) msgs) else None))
    \<and> mset (concat (map (group_of (groupByPartition msgs)) ord)) = mset msgs"
proof
  show look: "\<forall>p. fmlookup (groupByPartition msgs) p =
        (if p \<in> m_Partition ` set msgs then Some (filter (\<lambda>x. m_Partition x = p) msgs) else None)"
    by (auto simp: groupByPartition_lookup Let_def filter_empty_conv)
  have "set ord = m_Partition ` set msgs"
    using enumerates_set [OF assms] look by (auto split: if_splits)
  then have "filter_mset (\<lambda>x. m_Partition x \<in> set ord) (mset msgs) = mset msgs"
    by (auto intro!: multiset_eqI)
  then show "mset (concat (map (group_of (groupByPartition msgs)) ord)) = mset msgs"
    using mset_concat_filter [OF enumerates_distinct [OF assms], of m_Partition msgs]
    by (simp add: comp_def cong: map_cong)
qed

subsection \<open>Concrete inputs\<close>

text \<open>A client that answers every call, and a dispatcher with one completed batch.\<close>

definition sample_answers :: answers where
  "sample_answers = \<lparr>an_poll = Inr [], an_commit = None,
     an_assignment = Inr [\<lparr>p_Topic = ''orders'', p_Partition = 0\<rparr>],
     an_pause = (\<lambda>_. None), an_resume = None, an_close = None\<rparr>"

definition sample_disp :: dispatcher where
  "sample_disp = \<lparr>d_cfg = DefaultDispatcherConfig,
     d_coordinator = \<lparr>co_partitions = fmupd 0
       \<lparr>ps_maxOffset = 41, ps_inFlight = False, ps_completed = True\<rparr> fmempty\<rparr>,
     d_batchCh = [], d_batchChClosed = False, d_readyCh = False, d_circuitStateCh = [],
     d_partitions = fmempty, d_closed = False, d_workers = 4, d_timers = [], d_nextTimer = 0,
     d_m = NewDispatcherMetrics\<rparr>"

definition sample_msg :: "int32 \<Rightarrow> int64 \<Rightarrow> message" where
  "sample_msg p off = \<lparr>m_Topic = ''orders'', m_Partition = p, m_Offset = off, m_Key = None,
     m_Value = None, m_Timestamp = 0, m_Headers = [], m_PolledAt = 0\<rparr>"

abbreviation sample_ops :: "dispatcher disp_ops" where
  "sample_ops \<equiv> unordered_ops [] WorkersDrained id"

definition sample_loop :: "dispatcher pollloop" where
  "sample_loop = started \<lparr>pl_cfg = DefaultPollLoopConfig, pl_world = sample_disp, pl_health = new_health,
     pl_degraded = 0, pl_commitFailures = 0, pl_assignedCount = 1, pl_pausedPartitions = fmempty,
     pl_m = NewPollLoopMetrics, pl_calls = []\<rparr>"

lemma sample_disp_open: "open_disp sample_disp"
  by (auto simp: open_disp_iff sample_disp_def DefaultDispatcherConfig_def coord_wf_def coord_view_def
      split: if_splits)

lemma sample_committable: "Committable (d_coordinator sample_disp) = fmupd 0 42 fmempty"
  by (rule fmap_ext) (simp add: sample_disp_def Committable_lookup)

lemma sample_loop_sel [simp]:
  "pl_world sample_loop = sample_disp" "pl_degraded sample_loop = 0" "pl_commitFailures sample_loop = 0"
  "pl_cfg sample_loop = DefaultPollLoopConfig" "pl_pausedPartitions sample_loop = fmempty"
  "pl_calls sample_loop = []"
  by (simp_all add: sample_loop_def started_def)

subsection \<open>Properties\<close>

text \<open>
  C8: degraded mode and readiness follow their causes, whatever events the loop receives in
  whatever order and whatever Kafka answers. After any events of a running loop the target
  reason is set exactly when the last state (other than half-open) that the breaker announced
  is open; the broker reason is set exactly when the last commits have failed in a row at
  least as often as the threshold says; the loop is ready, and its gauge is zero, exactly when
  neither is set; and it is alive.
\<close>

theorem degraded_mode_tracks_causes:
  assumes "NewPollLoop cfg k w c h (Some m) = Inr pl" and "pm_DegradedMode m = 0"
    and "0 < pc_CommitFailureThreshold cfg"
    and "run_events ops evs (started pl) = Inr pl'"
  shows "Has TargetUnavailable (pl_degraded pl') = circuit_open evs
    \<and> Has BrokerUnavailable (pl_degraded pl')
        = (pc_CommitFailureThreshold (pl_cfg pl') \<le> pl_commitFailures pl')
    \<and> h_ready (pl_health pl') = (\<not> circuit_open evs
        \<and> pl_commitFailures pl' < pc_CommitFailureThreshold (pl_cfg pl'))
    \<and> pm_DegradedMode (pl_m pl') = (if h_ready (pl_health pl') then 0 else 1)
    \<and> h_live (pl_health pl')"
proof -
  have "ready_inv pl' \<and> causes_ok (circuit_open evs) pl'"
    using run_events_inv [OF assms(4)] NewPollLoop_started [OF assms(1-3)] by blast
  then show ?thesis
    using mask_has(9) [of "pl_degraded pl'"] by (auto simp: ready_inv_def causes_ok_def)
qed

theorem degraded_mode_tracks_causes_witness:
  "\<exists>pl pl'. NewPollLoop DefaultPollLoopConfig (Some ()) (Some sample_disp) (Some ()) (Some new_health)
        (Some NewPollLoopMetrics) = Inr pl
     \<and> run_events sample_ops [(CircuitChanged Open, sample_answers, id),
         (CircuitChanged HalfOpen, sample_answers, id)] (started pl) = Inr pl'
     \<and> \<not> h_ready (pl_health pl') \<and> pm_DegradedMode (pl_m pl') = 1"
proof -
  let ?evs = "[(CircuitChanged Open, sample_answers, id), (CircuitChanged HalfOpen, sample_answers, id)]"
  obtain pl where pl: "NewPollLoop DefaultPollLoopConfig (Some ()) (Some sample_disp) (Some ())
      (Some new_health) (Some NewPollLoopMetrics) = Inr pl" by (simp add: NewPollLoop_def)
  obtain pl' where pl': "run_events sample_ops ?evs (started pl) = Inr pl'"
    by (simp add: run_event_def)
  have "circuit_open ?evs" by (simp add: circuit_open_def circuit_note_def)
  with degraded_mode_tracks_causes [OF pl _ _ pl'] pl pl' show ?thesis
    by (auto simp: NewPollLoopMetrics_def DefaultPollLoopConfig_def)
qed

text \<open>
  C18: what a commit tick does, on every branch. With nothing committable Kafka is not called.
  Otherwise exactly the committable offsets are sent; a failure adds one to the run of
  failures and enters degraded mode for the broker when the run reaches the threshold; a
  success ends the run, leaves the broker's degraded mode and records each offset.
\<close>

theorem commit_outcomes:
  fixes ops :: "'w disp_ops" and ans :: answers and pl :: "'w pollloop"
  assumes "mask_ok (pl_degraded pl)"
  defines "offsets \<equiv> do_Committable ops (pl_world pl)" and "pl' \<equiv> commitOffsets ops ans pl"
  shows "(offsets = fmempty \<longrightarrow> pl' = pl)
    \<and> (offsets \<noteq> fmempty \<longrightarrow>
        commits pl' = commits pl @ [offsets]
        \<and> (an_commit ans \<noteq> None \<longrightarrow>
             pl_commitFailures pl' = pl_commitFailures pl + 1
             \<and> pm_LastCommittedOffset (pl_m pl') = pm_LastCommittedOffset (pl_m pl)
             \<and> Has BrokerUnavailable (pl_degraded pl') = (Has BrokerUnavailable (pl_degraded pl)
                 \<or> pc_CommitFailureThreshold (pl_cfg pl) \<le> pl_commitFailures pl + 1))
        \<and> (an_commit ans = None \<longrightarrow>
             pl_commitFailures pl' = 0
             \<and> (\<forall>p off. fmlookup offsets p = Some off \<longrightarrow> pm_LastCommittedOffset (pl_m pl') p = Some off)
             \<and> \<not> Has BrokerUnavailable (pl_degraded pl')))"
proof (cases "offsets = fmempty")
  case True
  then show ?thesis by (simp add: offsets_def pl'_def commitOffsets_def Let_def)
next
  case False
  note rec = commitOffsets_records [OF False [unfolded offsets_def], of ans]
  have "pm_LastCommittedOffset (pl_m pl') = pm_LastCommittedOffset (pl_m pl)" if "an_commit ans \<noteq> None"
    using rec(2) that by (auto simp: pl'_def fun_eq_iff split: option.split)
  with False rec causes_commit [of ops ans pl] mask_has [OF assms(1)] show ?thesis
    unfolding offsets_def pl'_def by (cases "an_commit ans") (auto simp: causes_def split: if_splits)
qed

theorem commit_outcomes_witness:
  "mask_ok (pl_degraded sample_loop)
    \<and> commits (commitOffsets sample_ops sample_answers sample_loop) = commits sample_loop @ [fmupd 0 42 fmempty]
    \<and> pm_LastCommittedOffset (pl_m (commitOffsets sample_ops sample_answers sample_loop)) 0 = Some 42"
  using commit_outcomes [of sample_loop sample_ops sample_answers] dg.ok_empty
  by (simp add: sample_committable) (simp add: sample_answers_def)

text \<open>
  C5: a poll hands messages over without loss, duplication or reordering. When a poll (with no
  rebalance in it) returns messages, the unordered dispatcher afterwards holds, for every
  partition, what it held before followed by exactly the polled messages of that partition in
  the order Kafka returned them, whichever order the groups are visited in and also when
  \<open>Send\<close> answers backpressure. The exceptions are a partition that is paused and a loop that
  is degraded: there the polled messages are dropped.
\<close>

theorem poll_hands_over:
  assumes "open_disp (pl_world pl)" and "an_poll ans = Inr msgs"
    and "enumerates ord (groupByPartition msgs)"
  shows "\<exists>pl'. poll (unordered_ops cord outcome drain) ans [] ord pl = Inr pl' \<and> open_disp (pl_world pl')
    \<and> (\<forall>p. held_messages p (pl_world pl') = held_messages p (pl_world pl)
          @ (if IsDegraded (pl_degraded pl) \<or> is_paused p pl then []
             else filter (\<lambda>x. m_Partition x = p) msgs))"
  using up.poll_ok [of pl ans ord cord outcome drain] assms by simp

theorem poll_hands_over_witness:
  "\<exists>pl'. poll sample_ops (sample_answers\<lparr>an_poll := Inr [sample_msg 7 40, sample_msg 7 41]\<rparr>) [] [7] sample_loop
       = Inr pl' \<and> held_messages 7 (pl_world pl') = [sample_msg 7 40, sample_msg 7 41]"
proof -
  let ?msgs = "[sample_msg 7 40, sample_msg 7 41]"
  have "enumerates [7] (groupByPartition ?msgs)"
    by (simp add: groupByPartition_def enumerates_def sample_msg_def)
  moreover have "m_Partition (sample_msg 7 off) = 7" for off by (simp add: sample_msg_def)
  moreover have "held_messages 7 sample_disp = []"
    by (simp add: sample_disp_def held_messages_def buffered_def)
  ultimately show ?thesis
    using poll_hands_over [of sample_loop "sample_answers\<lparr>an_poll := Inr ?msgs\<rparr>" ?msgs "[7]"
        "[]" WorkersDrained id]
    by (auto simp: sample_disp_open IsDegraded_def is_paused_def)
qed

text \<open>
  C11: a revocation commits exactly what is committable of the revoked partitions, after the
  dispatcher has been told and before the coordinator is reset; afterwards nothing of them is
  committable or paused, every other partition keeps its offset, its messages and its pause,
  and the readiness flag falls exactly when the last assigned partition goes.
\<close>

theorem revocation_commits_revoked:
  fixes ord outcome drain and ans :: answers and ps :: "partition list" and pl :: "dispatcher pollloop"
  assumes "open_disp (pl_world pl)"
  defines "gone \<equiv> p_Partition ` set ps" and "offs \<equiv> Committable (d_coordinator (pl_world pl))"
    and "pl' \<equiv> pl_OnPartitionsRevoked (unordered_ops ord outcome drain) ans ps pl"
  shows "open_disp (pl_world pl')
    \<and> pl_calls pl' = pl_calls pl
        @ (if fmfilter (\<lambda>p. p \<in> gone) offs = fmempty then [] else [KCommit (fmfilter (\<lambda>p. p \<in> gone) offs)])
    \<and> (\<forall>q. fmlookup (Committable (d_coordinator (pl_world pl'))) q
          = (if q \<in> gone then None else fmlookup offs q))
    \<and> (\<forall>q. is_paused q pl' = (q \<notin> gone \<and> is_paused q pl))
    \<and> (\<forall>q. q \<notin> gone \<longrightarrow> held_messages q (pl_world pl') = held_messages q (pl_world pl))
    \<and> h_partitionsAssigned (pl_health pl') = (h_partitionsAssigned (pl_health pl)
          \<and> int (length ps) < pl_assignedCount pl)"
proof -
  have "revoked_offsets (unordered_ops ord outcome drain) ps (pl_world pl) = fmfilter (\<lambda>p. p \<in> gone) offs"
    using up.revoked_offsets_eq [OF assms(1)] by (simp add: gone_def offs_def cong del: fmfilter_cong)
  then show ?thesis
    using up.revoke_ok [OF assms(1), of ord outcome drain ans ps]
      up.revoke_quiet [OF assms(1), of ord outcome drain ans ps] unfolding pl'_def gone_def offs_def
    by (simp add: revoked_eq Let_def is_paused_def SetPartitionsAssigned_def
        del: fmdom_filter cong del: fmfilter_cong)
qed

theorem revocation_commits_revoked_witness:
  "pl_calls (pl_OnPartitionsRevoked sample_ops sample_answers [\<lparr>p_Topic = ''orders'', p_Partition = 0\<rparr>] sample_loop)
     = [KCommit (fmupd 0 42 fmempty)]"
proof -
  let ?ps = "[\<lparr>p_Topic = ''orders'', p_Partition = 0\<rparr>]"
  have f: "fmfilter (\<lambda>p. p \<in> p_Partition ` set ?ps) (Committable (d_coordinator (pl_world sample_loop)))
      = fmupd 0 42 fmempty"
    by (simp add: sample_committable cong del: fmfilter_cong)
  have "fmupd 0 42 fmempty \<noteq> (fmempty :: (int32, int64) fmap)" by (simp add: fmempty_iff)
  then show ?thesis
    using revocation_commits_revoked [of sample_loop "[]" WorkersDrained id sample_answers ?ps]
    unfolding f by (simp add: sample_disp_open)
qed

text \<open>
  \<open>Run\<close> with the unordered dispatcher never panics in its own goroutine, whatever Kafka answers, whatever
  rebalances happen and whatever the other goroutines do to the dispatcher between two events
  as long as they keep it in order; and it returns exactly when its context ends.
\<close>

theorem run_never_panics:
  assumes "0 < pc_PollInterval (pl_cfg pl)" and "0 < pc_CommitInterval (pl_cfg pl)"
    and "open_disp (pl_world pl)"
    and "\<forall>(ev, ans, others) \<in> set evs. event_ok ev \<and> (\<forall>d. open_disp d \<longrightarrow> open_disp (others d))"
  shows "(pl_Run (unordered_ops ord outcome drain) evs pl \<noteq> None \<longleftrightarrow> CtxDone \<in> fst ` set evs)
    \<and> (\<forall>r. pl_Run (unordered_ops ord outcome drain) evs pl = Some r \<longrightarrow> \<not> panics r)"
  using assms by (rule pl_Run_total)

text \<open>
  C17: how \<open>Run\<close> ends. When it returns, the events up to the end of the context were handled,
  then the dispatcher was closed once; what is committable after its workers have drained is
  committed before, and only before, the consumer leaves the group, which is the last call
  that Kafka gets; the error of the dispatcher is returned, and the probes see a loop that is
  neither alive nor ready.
\<close>

theorem run_shuts_down_in_order:
  assumes "pl_Run ops evs pl = Some (Inr (err, pl'))"
  shows "\<exists>evs1 ans others evs2 pl1 w. evs = evs1 @ (CtxDone, ans, others) # evs2
    \<and> run_events ops evs1 (started pl) = Inr pl1
    \<and> do_Close ops (others (pl_world pl1)) = Inr (err, w) \<and> pl_world pl' = w
    \<and> pl_calls pl' = pl_calls pl1
        @ (if do_Committable ops w = fmempty then [] else [KCommit (do_Committable ops w)]) @ [KClose]
    \<and> \<not> h_live (pl_health pl') \<and> \<not> h_ready (pl_health pl')"
  using assms by (rule pl_Run_shutdown)

theorem run_shuts_down_in_order_witness:
  "\<exists>pl'. pl_Run sample_ops [(CtxDone, sample_answers, id)] sample_loop = Some (Inr (None, pl'))
     \<and> pl_calls pl' = [KCommit (fmupd 0 42 fmempty), KClose] \<and> \<not> h_live (pl_health pl')"
proof -
  have st: "pl_world (started sample_loop) = sample_disp" "pl_calls (started sample_loop) = []"
    by (simp_all add: started_def)
  have cl: "Close [] WorkersDrained sample_disp
      = Inr (None, sample_disp\<lparr>d_closed := True, d_batchChClosed := True\<rparr>)"
    by (simp add: Close_def close_region_def stop_all_def sample_disp_def)
  then have "\<exists>pl'. pl_Run sample_ops [(CtxDone, sample_answers, id)] sample_loop = Some (Inr (None, pl'))"
    by (simp add: pl_Run_def NewTicker_def DefaultPollLoopConfig_def shutdown_def Let_def st)
  then obtain pl' where r: "pl_Run sample_ops [(CtxDone, sample_answers, id)] sample_loop = Some (Inr (None, pl'))"
    by blast
  have ne: "fmupd 0 42 fmempty \<noteq> (fmempty :: (int32, int64) fmap)" by (simp add: fmempty_iff)
  have w: "pl_world pl' = sample_disp\<lparr>d_closed := True, d_batchChClosed := True\<rparr>"
    using run_shuts_down_in_order [OF r] by (auto simp: Cons_eq_append_conv cl st)
  from run_shuts_down_in_order [OF r] r show ?thesis
    by (auto simp: Cons_eq_append_conv cl st w sample_committable ne)
qed

theorem run_never_panics_witness:
  "pl_Run sample_ops [(CommitTick, sample_answers, id), (PollTick [] [], sample_answers, id)] sample_loop = None"
  using run_never_panics [of sample_loop
      "[(CommitTick, sample_answers, id), (PollTick [] [], sample_answers, id)]" "[]" WorkersDrained id]
  by (simp add: DefaultPollLoopConfig_def sample_disp_open event_ok_def)

text \<open>
  Leaving degraded mode resumes partitions only if Kafka names them. When the last reason
  is cleared and the assignment cannot be read, or is empty, no partition is resumed and the
  partitions paused for backpressure stay recorded as paused, yet the loop reports ready.
\<close>

theorem exit_without_assignment:
  assumes "mask_ok (pl_degraded pl)" and "mask_view (pl_degraded pl) \<subseteq> {r}"
    and "\<forall>p ps. an_assignment ans \<noteq> Inr (p # ps)"
  shows "pl_calls (exitDegradedMode ans (reason_bit r) pl) = pl_calls pl @ [KAssignment]
    \<and> pl_pausedPartitions (exitDegradedMode ans (reason_bit r) pl) = pl_pausedPartitions pl
    \<and> h_ready (pl_health (exitDegradedMode ans (reason_bit r) pl))"
proof -
  have "\<not> IsDegraded (degraded_Clear (reason_bit r) (pl_degraded pl))"
    using dg.clear_exits_iff [OF assms(1)] assms(2) by blast
  moreover have "an_assignment ans = Inr [] \<or> (\<exists>e. an_assignment ans = Inl e)"
    using assms(3) by (metis list.exhaust sum.exhaust_sel sum.collapse)
  ultimately show ?thesis
    by (auto simp: exitDegradedMode_def resumeAllPartitions_def kcall_def Let_def SetReady_def)
qed

theorem exit_without_assignment_witness:
  "pl_calls (exitDegradedMode (sample_answers\<lparr>an_assignment := Inr []\<rparr>) BrokerUnavailable
       (sample_loop\<lparr>pl_degraded := BrokerUnavailable\<rparr>)) = [KAssignment]"
proof -
  have "mask_ok BrokerUnavailable" "mask_view BrokerUnavailable \<subseteq> {Broker}"
    using dg.view_set [OF dg.ok_empty, of Broker] dg.ok_set [OF dg.ok_empty, of Broker] dg.view_empty
    by (simp_all add: degraded_Set_def)
  then show ?thesis
    using exit_without_assignment [of "sample_loop\<lparr>pl_degraded := BrokerUnavailable\<rparr>" Broker
        "sample_answers\<lparr>an_assignment := Inr []\<rparr>"] by simp
qed

end
