(* ===== verification/Commit_Safety.thy ===== *)
theory Commit_Safety
  imports Poll_Loop_Runs
begin

text \<open>
  What every commit of a run of the poll loop rests on. The locale \<open>commit_port\<close> is the
  interface between the poll loop and a dispatcher that works while the loop runs: an invariant
  of the dispatcher's world, and a relation \<open>backed\<close> that says when a set of offsets may be
  committed. The dispatcher promises that what it reports as committable is backed and that
  offsets stay backed whatever happens afterwards; the client lemma is that then every commit
  the loop has sent to Kafka is backed. \<open>Concurrent_Loop\<close> interprets it on the interleaved
  goroutines.
\<close>

subsection \<open>Commits in the calls of a loop\<close>

lemma commits_kcall [frame_simps]:
  "commits (kcall c pl) = commits pl @ (case c of KCommit offs \<Rightarrow> [offs] | _ \<Rightarrow> [])"
  by (simp add: commits_def)

lemma commits_fields [frame_simps]:
  "commits (pl\<lparr>pl_world := w\<rparr>) = commits pl" "commits (pl\<lparr>pl_m := m\<rparr>) = commits pl"
  "commits (pl\<lparr>pl_health := h\<rparr>) = commits pl" "commits (poll_error pl) = commits pl"
  by (simp_all add: commits_def poll_error_def)

lemma commits_pausing [frame_simps]:
  "commits (pausePartition ans p pl) = commits pl" "commits (pauseAllPartitions ans pl) = commits pl"
  "commits (resumeAllPartitions ans pl) = commits pl"
  "commits (resumeAllPausedPartitions ans ord pl) = commits pl"
  "commits (onDispatcherReady ans ord pl) = commits pl"
  "commits (onCircuitStateChanged ans st pl) = commits pl"
  by (simp_all add: commits_def pollloop_defs split: sum.split option.split circuit_state.split)

lemma commits_commitOffsets:
  "set (commits (commitOffsets ops ans pl)) \<subseteq> insert (do_Committable ops (pl_world pl)) (set (commits pl))"
proof (cases "do_Committable ops (pl_world pl) = fmempty")
  case True
  then show ?thesis by (auto simp: commitOffsets_def Let_def)
next
  case False
  then show ?thesis by (simp add: commitOffsets_records(1))
qed

lemma commits_revoked:
  "set (commits (pl_OnPartitionsRevoked ops ans ps pl))
     \<subseteq> insert (revoked_offsets ops ps (pl_world pl)) (set (commits pl))"
  by (auto simp: revoked_eq Let_def commits_def)

lemma groupByPartition_pure:
  "fmlookup (groupByPartition msgs) p = Some xs \<Longrightarrow> x \<in> set xs \<Longrightarrow> m_Partition x = p"
  by (auto simp: groupByPartition_lookup Let_def split: if_splits)

subsection \<open>The interface\<close>

text \<open>A change of the world that keeps the invariant and every offset that was backed.\<close>

definition grows :: "('w \<Rightarrow> bool) \<Rightarrow> ((int32, int64) fmap \<Rightarrow> 'w \<Rightarrow> bool) \<Rightarrow> 'w \<Rightarrow> 'w \<Rightarrow> bool" where
  "grows world_ok backed w w' \<longleftrightarrow> world_ok w' \<and> (\<forall>offs. backed offs w \<longrightarrow> backed offs w')"

lemma grows_refl: "world_ok w \<Longrightarrow> grows world_ok backed w w"
  by (simp add: grows_def)

lemma grows_trans: "grows world_ok backed w v \<Longrightarrow> grows world_ok backed v u \<Longrightarrow> grows world_ok backed w u"
  by (auto simp: grows_def)

definition commits_backed :: "('w \<Rightarrow> bool) \<Rightarrow> ((int32, int64) fmap \<Rightarrow> 'w \<Rightarrow> bool) \<Rightarrow> 'w pollloop \<Rightarrow> bool"
where
  "commits_backed world_ok backed pl \<longleftrightarrow> world_ok (pl_world pl) \<and> (\<forall>offs\<in>set (commits pl). backed offs (pl_world pl))"

lemma commits_backedI:
  assumes "commits_backed world_ok backed pl" and "grows world_ok backed (pl_world pl) (pl_world pl')"
    and "\<And>offs. offs \<in> set (commits pl') \<Longrightarrow> offs \<in> set (commits pl) \<or> backed offs (pl_world pl')"
  shows "commits_backed world_ok backed pl'"
  using assms by (auto simp: commits_backed_def grows_def)

lemma commits_backed_frame [frame_simps]:
  "commits_backed world_ok backed (kcall (KPoll n) pl) = commits_backed world_ok backed pl"
  "commits_backed world_ok backed (pl\<lparr>pl_m := m\<rparr>) = commits_backed world_ok backed pl"
  "commits_backed world_ok backed (poll_error pl) = commits_backed world_ok backed pl"
  "commits_backed world_ok backed (onDispatcherReady ans ord pl) = commits_backed world_ok backed pl"
  "commits_backed world_ok backed (onCircuitStateChanged ans st pl) = commits_backed world_ok backed pl"
  "commits_backed world_ok backed (started pl) = commits_backed world_ok backed pl"
  by (simp_all add: commits_backed_def frame_simps started_def)

locale commit_port =
  fixes ops :: "'w disp_ops"
    and world_ok :: "'w \<Rightarrow> bool"
    and backed :: "(int32, int64) fmap \<Rightarrow> 'w \<Rightarrow> bool"
  assumes committable: "world_ok w \<Longrightarrow> backed (do_Committable ops w) w"
    and restrict: "backed offs w \<Longrightarrow> backed (fmfilter P offs) w"
    and send: "world_ok w \<Longrightarrow> \<forall>x\<in>set xs. m_Partition x = p \<Longrightarrow> do_Send ops p xs w = Inr (err, w')
      \<Longrightarrow> grows world_ok backed w w'"
    and assigned: "world_ok w \<Longrightarrow> do_Assigned ops ps w = Inr w' \<Longrightarrow> grows world_ok backed w w'"
    and revoked: "world_ok w \<Longrightarrow> grows world_ok backed w (do_Revoked ops ps w)"
    and reset: "world_ok w \<Longrightarrow> grows world_ok backed w (do_Reset ops p w)"
    and close: "world_ok w \<Longrightarrow> do_Close ops w = Inr (err, w') \<Longrightarrow> grows world_ok backed w w'"
begin

lemma backed_commitOffsets: "commits_backed world_ok backed pl \<Longrightarrow> commits_backed world_ok backed (commitOffsets ops ans pl)"
proof -
  assume cb: "commits_backed world_ok backed pl"
  then have i: "world_ok (pl_world pl)" by (simp add: commits_backed_def)
  show ?thesis
    by (rule commits_backedI [OF cb])
      (use grows_refl [of world_ok "pl_world pl" backed, OF i] committable [OF i] commits_commitOffsets [of ops ans pl]
        in \<open>auto simp: frame_simps\<close>)
qed

lemma resets_grow: "world_ok w \<Longrightarrow> grows world_ok backed w (fold (\<lambda>p. do_Reset ops (p_Partition p)) ps w)"
proof (induction ps arbitrary: w)
  case (Cons p ps)
  from reset [OF Cons.prems, of "p_Partition p"] have g: "grows world_ok backed w (do_Reset ops (p_Partition p) w)" .
  then have "world_ok (do_Reset ops (p_Partition p) w)" by (simp add: grows_def)
  from grows_trans [OF g Cons.IH [OF this]] show ?case by simp
qed (simp add: grows_refl)

lemma backed_revoked:
  assumes cb: "commits_backed world_ok backed pl"
  shows "commits_backed world_ok backed (pl_OnPartitionsRevoked ops ans ps pl)"
proof -
  let ?v = "do_Revoked ops ps (pl_world pl)" and ?pl = "pl_OnPartitionsRevoked ops ans ps pl"
  from cb have "world_ok (pl_world pl)" by (simp add: commits_backed_def)
  from revoked [OF this] have g: "grows world_ok backed (pl_world pl) ?v" .
  then have v: "world_ok ?v" by (simp add: grows_def)
  have w: "pl_world ?pl = fold (\<lambda>p. do_Reset ops (p_Partition p)) ps ?v" by (simp add: revoked_eq Let_def)
  have "backed (revoked_offsets ops ps (pl_world pl)) ?v"
    unfolding revoked_offsets_def by (rule restrict [OF committable [OF v]])
  with resets_grow [OF v, of ps] have "backed (revoked_offsets ops ps (pl_world pl)) (pl_world ?pl)"
    by (simp add: w grows_def)
  then show ?thesis
    by (intro commits_backedI [OF cb])
      (use grows_trans [OF g resets_grow [OF v, of ps]] w commits_revoked [of ops ans ps pl] in auto)
qed

lemma backed_assigned:
  assumes cb: "commits_backed world_ok backed pl" and "pl_OnPartitionsAssigned ops ps pl = Inr pl'"
  shows "commits_backed world_ok backed pl'"
proof -
  from cb have i: "world_ok (pl_world pl)" by (simp add: commits_backed_def)
  from assms(2) obtain w where "do_Assigned ops ps (pl_world pl) = Inr w" "pl_world pl' = w"
    "commits pl' = commits pl" by (auto simp: pl_OnPartitionsAssigned_def go_bind_Inr_iff commits_def)
  with assigned [OF i] show ?thesis by (intro commits_backedI [OF cb]) auto
qed

lemma backed_rebalances:
  "commits_backed world_ok backed pl \<Longrightarrow> handle_rebalances ops ans rs pl = Inr pl' \<Longrightarrow> commits_backed world_ok backed pl'"
proof (induction rs arbitrary: pl)
  case (Cons r rs)
  then show ?case by (cases r) (auto simp: go_bind_Inr_iff dest: backed_assigned backed_revoked)
qed simp

lemma backed_send_group:
  assumes cb: "commits_backed world_ok backed pl" and "\<forall>x\<in>set xs. m_Partition x = p"
    and "send_group ops ans p xs pl = Inr pl'"
  shows "commits_backed world_ok backed pl'"
proof -
  from cb have i: "world_ok (pl_world pl)" by (simp add: commits_backed_def)
  from assms(3) obtain err w where "do_Send ops p xs (pl_world pl) = Inr (err, w)" "pl_world pl' = w"
    "commits pl' = commits pl"
    by (auto simp: send_group_def go_bind_Inr_iff frame_simps split: option.splits if_splits)
  with send [OF i assms(2)] show ?thesis by (intro commits_backedI [OF cb]) auto
qed

lemma backed_dispatch:
  assumes "\<And>p xs x. fmlookup g p = Some xs \<Longrightarrow> x \<in> set xs \<Longrightarrow> m_Partition x = p"
  shows "commits_backed world_ok backed pl \<Longrightarrow> dispatch_groups ops ans g ps pl = Inr pl' \<Longrightarrow> commits_backed world_ok backed pl'"
proof (induction ps arbitrary: pl)
  case (Cons p ps)
  show ?case
  proof (cases "dispatch_groups ops ans g ps pl = Inr pl'")
    case True
    with Cons show ?thesis by blast
  next
    case False
    then obtain xs pl1 where xs: "fmlookup g p = Some xs" and pl1: "send_group ops ans p xs pl = Inr pl1"
      "dispatch_groups ops ans g ps pl1 = Inr pl'"
      using Cons.prems(2) unfolding dispatch_groups_Cons
      by (auto simp: go_bind_Inr_iff split: option.splits if_splits)
    have "\<forall>x\<in>set xs. m_Partition x = p" using assms [OF xs] by blast
    from backed_send_group [OF Cons.prems(1) this pl1(1)] pl1(2) show ?thesis by (rule Cons.IH)
  qed
qed simp

lemma backed_poll:
  assumes cb: "commits_backed world_ok backed pl" and step: "poll ops ans rs ord pl = Inr pl'"
  shows "commits_backed world_ok backed pl'"
proof -
  from step obtain pl1 where r: "handle_rebalances ops ans rs
      (kcall (KPoll (Milliseconds (pc_PollInterval (pl_cfg pl)))) pl) = Inr pl1"
    by (auto simp: poll_def Let_def go_bind_Inr_iff split: if_splits)
  have "commits_backed world_ok backed (kcall (KPoll (Milliseconds (pc_PollInterval (pl_cfg pl)))) pl)"
    using cb by (simp add: frame_simps)
  from backed_rebalances [OF this r] have cb1: "commits_backed world_ok backed pl1" .
  have d: "commits_backed world_ok backed pl'"
    if "dispatch_groups ops ans (groupByPartition msgs) ord (pl1\<lparr>pl_m := m\<rparr>) = Inr pl'" for msgs m
    by (rule backed_dispatch [OF groupByPartition_pure _ that]) (use cb1 in \<open>simp_all add: frame_simps\<close>)
  show ?thesis
  proof (cases "an_poll ans")
    case (Inl e)
    then have "pl' = poll_error pl1" using step r by (simp add: poll_def Let_def split: if_splits)
    with cb1 show ?thesis by (simp add: frame_simps)
  next
    case (Inr msgs)
    then show ?thesis
      using step r cb1 d by (auto simp: poll_def Let_def split: if_splits)
  qed
qed

lemma backed_event:
  "commits_backed world_ok backed pl \<Longrightarrow> run_event ops ev ans pl = Inr pl' \<Longrightarrow> commits_backed world_ok backed pl'"
  by (cases ev)
    (auto simp: run_event_def frame_simps dest: backed_poll intro: backed_commitOffsets)

lemma backed_others:
  "commits_backed world_ok backed pl \<Longrightarrow> grows world_ok backed (pl_world pl) w
    \<Longrightarrow> commits_backed world_ok backed (pl\<lparr>pl_world := w\<rparr>)"
  by (erule commits_backedI) (simp_all add: frame_simps)

lemma backed_run_events:
  assumes "\<And>ev ans f w. (ev, ans, f) \<in> set evs \<Longrightarrow> world_ok w \<Longrightarrow> grows world_ok backed w (f w)"
  shows "commits_backed world_ok backed pl \<Longrightarrow> run_events ops evs pl = Inr pl' \<Longrightarrow> commits_backed world_ok backed pl'"
  using assms
proof (induction evs arbitrary: pl)
  case (Cons e evs)
  obtain ev ans f where e: "e = (ev, ans, f)" by (cases e)
  from Cons.prems(1) have "world_ok (pl_world pl)" by (simp add: commits_backed_def)
  with Cons.prems(3) [of ev ans f] e have "grows world_ok backed (pl_world pl) (f (pl_world pl))" by simp
  from backed_others [OF Cons.prems(1) this] Cons.prems(2) e obtain pl1 where
    "commits_backed world_ok backed pl1" "run_events ops evs pl1 = Inr pl'"
    by (auto simp: go_bind_Inr_iff dest: backed_event)
  then show ?case by (rule Cons.IH) (use Cons.prems(3) in auto)
qed simp

text \<open>The loop and its shutdown.\<close>

lemma backed_Run:
  assumes others: "\<And>ev ans f w. (ev, ans, f) \<in> set evs \<Longrightarrow> world_ok w \<Longrightarrow> grows world_ok backed w (f w)"
    and cb: "commits_backed world_ok backed pl" and run: "pl_Run ops evs pl = Some (Inr (err, pl'))"
  shows "commits_backed world_ok backed pl'"
proof -
  from pl_Run_shutdown [OF run] obtain evs1 ans f evs2 pl1 w where
    evs: "evs = evs1 @ (CtxDone, ans, f) # evs2" and r: "run_events ops evs1 (started pl) = Inr pl1"
    and cl: "do_Close ops (f (pl_world pl1)) = Inr (err, w)" "pl_world pl' = w"
    and calls: "pl_calls pl' = pl_calls pl1
        @ (if do_Committable ops w = fmempty then [] else [KCommit (do_Committable ops w)]) @ [KClose]"
    by blast
  have cb1: "commits_backed world_ok backed pl1"
    by (rule backed_run_events [OF _ _ r]) (use cb others evs in \<open>auto simp: frame_simps\<close>)
  then have "world_ok (pl_world pl1)" by (simp add: commits_backed_def)
  with others [of CtxDone ans f] evs have g1: "grows world_ok backed (pl_world pl1) (f (pl_world pl1))" by simp
  then have "world_ok (f (pl_world pl1))" by (simp add: grows_def)
  from grows_trans [OF g1 close [OF this cl(1)]] have g: "grows world_ok backed (pl_world pl1) w" .
  then have "backed (do_Committable ops w) w" by (auto simp: grows_def intro: committable)
  with g show ?thesis
    by (intro commits_backedI [OF cb1]) (auto simp: cl(2) commits_def calls split: if_splits)
qed

end

end
