(* ===== verification/Batch_Protocol.thy ===== *)
theory Batch_Protocol
  imports Unordered_Dispatcher
begin

text \<open>
  The protocol a batch goes through between the dispatcher's goroutines, as an abstract
  transition system. Every batch that some goroutine or the channel holds is a token with a
  stage: assembled but not yet known to the coordinator, tracked by it, settled by a worker,
  or finished at the coordinator but not yet released. The state has the tokens, the
  coordinator's view, and per partition the in-flight flag, the buffer, and the histories of
  the messages accepted, accepted and not discarded by a revocation, and settled.
  \<open>Dispatcher_Concurrency\<close> shows that every interleaving of
  the dispatcher's goroutines is a run of this protocol; the invariants are proved here, on
  the small rules.
\<close>

datatype stage = Untracked | Tracked | Settled | Finished

record proto =
  a_tok :: "(stage \<times> batch) multiset"
  a_view :: slots
  a_infl :: "int32 \<Rightarrow> bool"
  a_buf :: "int32 \<Rightarrow> message list"
  a_sent :: "int32 \<Rightarrow> message list"
  a_done :: "int32 \<Rightarrow> message list"
  a_accepted :: "int32 \<Rightarrow> message list"
  a_rejected :: "int32 set"

definition proto_init :: "proto \<Rightarrow> bool" where
  "proto_init a \<longleftrightarrow> a = \<lparr>a_tok = {#}, a_view = (\<lambda>_. Idle), a_infl = (\<lambda>_. False),
     a_buf = (\<lambda>_. []), a_sent = (\<lambda>_. []), a_done = (\<lambda>_. []), a_accepted = (\<lambda>_. []), a_rejected = {}\<rparr>"

text \<open>What a completion does to the view of a partition.\<close>

fun finish_slot :: "int64 \<Rightarrow> slot \<Rightarrow> slot" where
  "finish_slot m Idle = Idle"
| "finish_slot m _ = Completed m"

text \<open>A list without its last messages, as many as are discarded.\<close>

definition without_tail :: "message list \<Rightarrow> message list \<Rightarrow> message list" where
  "without_tail ys xs = take (length xs - length ys) xs"

lemma without_tail_simps [simp]: "without_tail [] xs = xs" "without_tail ys (xs @ ys) = xs"
  by (simp_all add: without_tail_def)

inductive proto_step :: "proto \<Rightarrow> proto \<Rightarrow> bool" where
  accept: "proto_step a (a\<lparr>a_buf := (a_buf a)(p := a_buf a p @ msgs),
      a_sent := (a_sent a)(p := a_sent a p @ msgs),
      a_accepted := (a_accepted a)(p := a_accepted a p @ msgs)\<rparr>)"
| assemble: "\<not> a_infl a (b_partition b) \<Longrightarrow> a_buf a (b_partition b) = b_messages b @ rest
    \<Longrightarrow> b_messages b \<noteq> [] \<Longrightarrow> b_maxOffset b = m_Offset (last (b_messages b))
    \<Longrightarrow> proto_step a (a\<lparr>a_tok := add_mset (Untracked, b) (a_tok a),
          a_infl := (a_infl a)(b_partition b := True), a_buf := (a_buf a)(b_partition b := rest)\<rparr>)"
| lose: "a_tok a = add_mset x T \<Longrightarrow> proto_step a (a\<lparr>a_tok := T\<rparr>)"
| track: "a_tok a = add_mset (Untracked, b) T
    \<Longrightarrow> proto_step a (a\<lparr>a_tok := add_mset (Tracked, b) T,
          a_view := (a_view a)(b_partition b := InFlight (b_maxOffset b))\<rparr>)"
| settle: "a_tok a = add_mset (Tracked, b) T
    \<Longrightarrow> proto_step a (a\<lparr>a_tok := add_mset (Settled, b) T,
          a_done := (a_done a)(b_partition b := a_done a (b_partition b) @ b_messages b)\<rparr>)"
| finish: "a_tok a = add_mset (Settled, b) T
    \<Longrightarrow> proto_step a (a\<lparr>a_tok := add_mset (Finished, b) T,
          a_view := (a_view a)(b_partition b := finish_slot (b_maxOffset b) (a_view a (b_partition b)))\<rparr>)"
| release: "a_tok a = add_mset (Finished, b) T
    \<Longrightarrow> proto_step a (a\<lparr>a_tok := T, a_infl := (a_infl a)(b_partition b := False)\<rparr>)"
| undo: "a_tok a = add_mset (Tracked, b) T
    \<Longrightarrow> proto_step a (a\<lparr>a_tok := add_mset (Finished, b) T,
          a_view := (a_view a)(b_partition b := finish_slot (b_maxOffset b) (a_view a (b_partition b))),
          a_rejected := insert (b_partition b) (a_rejected a)\<rparr>)"
| put_back: "a_tok a = add_mset (Finished, b) T \<Longrightarrow> b_partition b \<in> a_rejected a
    \<Longrightarrow> proto_step a (a\<lparr>a_tok := T, a_infl := (a_infl a)(b_partition b := False),
          a_buf := (a_buf a)(b_partition b := b_messages b @ a_buf a (b_partition b))\<rparr>)"
| revoke: "proto_step a (a\<lparr>a_buf := (a_buf a)(p := []),
      a_sent := (a_sent a)(p := without_tail (a_buf a p) (a_sent a p))\<rparr>)"
| reset: "proto_step a (a\<lparr>a_view := (a_view a)(p := Idle)\<rparr>)"

interpretation bp: transition_system proto_init proto_step .

subsection \<open>At most one token per partition, in step with the coordinator\<close>

definition tokens_of :: "int32 \<Rightarrow> (stage \<times> batch) multiset \<Rightarrow> (stage \<times> batch) multiset" where
  "tokens_of p T = {#x \<in># T. b_partition (snd x) = p#}"

fun stage_ok :: "stage \<Rightarrow> batch \<Rightarrow> slot \<Rightarrow> bool" where
  "stage_ok Untracked b v = (\<forall>m. v \<noteq> InFlight m)"
| "stage_ok Tracked b v = (v = Idle \<or> v = InFlight (b_maxOffset b))"
| "stage_ok Settled b v = (v = Idle \<or> v = InFlight (b_maxOffset b))"
| "stage_ok Finished b v = (\<forall>m. v \<noteq> InFlight m)"

definition token_inv :: "proto \<Rightarrow> bool" where
  "token_inv a \<longleftrightarrow>
     (\<forall>p. size (tokens_of p (a_tok a)) \<le> (if a_infl a p then 1 else 0))
     \<and> (\<forall>(st, b)\<in>#a_tok a. stage_ok st b (a_view a (b_partition b)))
     \<and> (\<forall>p m. a_view a p = InFlight m \<longrightarrow> a_infl a p)"

lemma tokens_of_add [simp]:
  "tokens_of p (add_mset x T) = (if b_partition (snd x) = p then add_mset x (tokens_of p T) else tokens_of p T)"
  by (simp add: tokens_of_def)

lemma tokens_of_empty_iff: "tokens_of p T = {#} \<longleftrightarrow> (\<forall>(st, b)\<in>#T. b_partition b \<noteq> p)"
  by (auto simp: tokens_of_def)

lemma token_inv_others:
  assumes "token_inv a" and "a_tok a = add_mset (st, b) T"
  shows "a_infl a (b_partition b)" and "\<forall>(st', b')\<in>#T. b_partition b' \<noteq> b_partition b"
    and "size (tokens_of p T) \<le> (if a_infl a p \<and> p \<noteq> b_partition b then 1 else 0)"
proof -
  have s: "size (tokens_of q (add_mset (st, b) T)) \<le> (if a_infl a q then 1 else 0)" for q
    using assms by (auto simp: token_inv_def)
  from s [of "b_partition b"] show "a_infl a (b_partition b)" by (auto split: if_splits)
  have e: "tokens_of (b_partition b) T = {#}"
    using s [of "b_partition b"] by (auto split: if_splits)
  then show "\<forall>(st', b')\<in>#T. b_partition b' \<noteq> b_partition b" by (simp add: tokens_of_empty_iff)
  show "size (tokens_of p T) \<le> (if a_infl a p \<and> p \<noteq> b_partition b then 1 else 0)"
    using s [of p] e by (cases "p = b_partition b") auto
qed

lemma token_invI:
  assumes "\<And>p. size (tokens_of p (a_tok a)) \<le> (if a_infl a p then 1 else 0)"
    and "\<And>st b. (st, b) \<in># a_tok a \<Longrightarrow> stage_ok st b (a_view a (b_partition b))"
    and "\<And>p m. a_view a p = InFlight m \<Longrightarrow> a_infl a p"
  shows "token_inv a"
  using assms by (auto simp: token_inv_def)

lemma token_invD:
  assumes "token_inv a"
  shows "size (tokens_of p (a_tok a)) \<le> (if a_infl a p then 1 else 0)"
    and "(st, b) \<in># a_tok a \<Longrightarrow> stage_ok st b (a_view a (b_partition b))"
    and "a_view a p = InFlight m \<Longrightarrow> a_infl a p"
  using assms by (auto simp: token_inv_def)

lemma token_inv_init: "proto_init a \<Longrightarrow> token_inv a"
  by (auto simp: proto_init_def token_inv_def tokens_of_def)

lemma finish_slot_not_InFlight [simp]: "finish_slot m v \<noteq> InFlight k"
  by (cases v) auto

text \<open>Replacing the token of a partition by one of another stage with a fitting view.\<close>

lemma token_inv_restage:
  assumes inv: "token_inv a" and tok: "a_tok a = add_mset (st, b) T"
    and a': "a_tok a' = add_mset (st', b) T" "a_view a' = (a_view a)(b_partition b := v)"
      "a_infl a' = a_infl a"
    and "stage_ok st' b v"
  shows "token_inv a'"
proof (rule token_invI)
  note oth = token_inv_others [OF inv tok]
  show "size (tokens_of p (a_tok a')) \<le> (if a_infl a' p then 1 else 0)" for p
    using token_invD(1) [OF inv, of p] by (simp add: a' tok split: if_splits)
  show "stage_ok s c (a_view a' (b_partition c))" if "(s, c) \<in># a_tok a'" for s c
  proof (cases "(s, c) = (st', b)")
    case True
    then show ?thesis using assms(6) by (simp add: a')
  next
    case False
    then have "(s, c) \<in># T" using that by (auto simp: a')
    moreover from this oth(2) have "b_partition c \<noteq> b_partition b" by auto
    ultimately show ?thesis using token_invD(2) [OF inv, of s c] by (simp add: a' tok)
  qed
  show "a_infl a' p" if "a_view a' p = InFlight m" for p m
    using that token_invD(3) [OF inv, of p m] oth(1) by (auto simp: a' split: if_splits)
qed

lemma token_inv_step:
  assumes step: "proto_step a a'" and inv: "token_inv a"
  shows "token_inv a'"
  using step
proof cases
  case (accept p msgs)
  then show ?thesis using inv by (simp add: token_inv_def)
next
  case (assemble b rest)
  have none: "tokens_of (b_partition b) (a_tok a) = {#}"
    using token_invD(1) [OF inv, of "b_partition b"] assemble(2) by simp
  show ?thesis
  proof (rule token_invI)
    show "size (tokens_of p (a_tok a')) \<le> (if a_infl a' p then 1 else 0)" for p
      using token_invD(1) [OF inv, of p] none by (simp add: assemble(1) split: if_splits)
    show "stage_ok s c (a_view a' (b_partition c))" if "(s, c) \<in># a_tok a'" for s c
      using that token_invD(2) [OF inv, of s c] token_invD(3) [OF inv, of "b_partition b"] assemble(2)
      by (auto simp: assemble(1))
    show "a_infl a' p" if "a_view a' p = InFlight m" for p m
      using that token_invD(3) [OF inv, of p m] by (simp add: assemble(1))
  qed
next
  case (lose x T)
  show ?thesis
  proof (rule token_invI)
    show "size (tokens_of p (a_tok a')) \<le> (if a_infl a' p then 1 else 0)" for p
      using token_invD(1) [OF inv, of p] lose by (auto split: if_splits)
    show "stage_ok s c (a_view a' (b_partition c))" if "(s, c) \<in># a_tok a'" for s c
      using that token_invD(2) [OF inv, of s c] lose by simp
  qed (use token_invD(3) [OF inv] lose in simp)
next
  case (track b T)
  show ?thesis
    by (rule token_inv_restage [OF inv track(2), where st' = Tracked and v = "InFlight (b_maxOffset b)"])
      (simp_all add: track(1))
next
  case (settle b T)
  show ?thesis
    by (rule token_inv_restage [OF inv settle(2), where st' = Settled and v = "a_view a (b_partition b)"])
      (use token_invD(2) [OF inv, of Tracked b] settle in simp_all)
next
  case (finish b T)
  show ?thesis
    by (rule token_inv_restage [OF inv finish(2), where st' = Finished
          and v = "finish_slot (b_maxOffset b) (a_view a (b_partition b))"])
      (simp_all add: finish(1))
next
  case (undo b T)
  show ?thesis
    by (rule token_inv_restage [OF inv undo(2), where st' = Finished
          and v = "finish_slot (b_maxOffset b) (a_view a (b_partition b))"])
      (simp_all add: undo(1))
next
  case (release b T)
  show ?thesis
  proof (rule token_invI)
    show "size (tokens_of p (a_tok a')) \<le> (if a_infl a' p then 1 else 0)" for p
      using token_inv_others(3) [OF inv release(2), of p] by (auto simp: release(1) split: if_splits)
    show "stage_ok s c (a_view a' (b_partition c))" if "(s, c) \<in># a_tok a'" for s c
      using that token_invD(2) [OF inv, of s c] by (simp add: release)
    show "a_infl a' p" if "a_view a' p = InFlight m" for p m
      using that token_invD(3) [OF inv, of p m] token_invD(2) [OF inv, of Finished b]
      by (auto simp: release)
  qed
next
  case (put_back b T)
  show ?thesis
  proof (rule token_invI)
    show "size (tokens_of p (a_tok a')) \<le> (if a_infl a' p then 1 else 0)" for p
      using token_inv_others(3) [OF inv put_back(2), of p] by (auto simp: put_back(1) split: if_splits)
    show "stage_ok s c (a_view a' (b_partition c))" if "(s, c) \<in># a_tok a'" for s c
      using that token_invD(2) [OF inv, of s c] by (simp add: put_back)
    show "a_infl a' p" if "a_view a' p = InFlight m" for p m
      using that token_invD(3) [OF inv, of p m] token_invD(2) [OF inv, of Finished b]
      by (auto simp: put_back)
  qed
next
  case (revoke p)
  then show ?thesis using inv by (simp add: token_inv_def)
next
  case (reset p)
  show ?thesis
  proof (rule token_invI)
    show "stage_ok s c (a_view a' (b_partition c))" if "(s, c) \<in># a_tok a'" for s c
      using that token_invD(2) [OF inv, of s c] by (cases s) (auto simp: reset)
    show "a_infl a' q" if "a_view a' q = InFlight m" for q m
      using that token_invD(3) [OF inv, of q m] by (auto simp: reset split: if_splits)
  qed (use token_invD(1) [OF inv] reset in simp)
qed

lemma bp_token_inv: "bp.reach a \<Longrightarrow> token_inv a"
  by (rule bp.invariant_rule [where I = token_inv]) (auto intro: token_inv_init token_inv_step)

subsection \<open>How many tokens there can be\<close>

lemma tokens_distinct: "token_inv a \<Longrightarrow> count (image_mset (b_partition \<circ> snd) (a_tok a)) p \<le> 1"
proof -
  assume "token_inv a"
  then have "size (tokens_of p (a_tok a)) \<le> 1" using token_invD(1) [of a p] by (auto split: if_splits)
  moreover have "count (image_mset (b_partition \<circ> snd) T) p = size (tokens_of p T)" for T
    by (induction T) (auto simp: tokens_of_def)
  ultimately show ?thesis by simp
qed

lemma size_le_card:
  assumes "\<And>x. count M x \<le> 1" and "set_mset M \<subseteq> A" and "finite A"
  shows "size M \<le> card A"
proof -
  have "count M x = count (mset_set (set_mset M)) x" for x
    using assms(1) [of x]
    by (cases "count M x") (simp_all add: count_mset_set' count_greater_zero_iff [symmetric]
        del: count_greater_zero_iff)
  then have "M = mset_set (set_mset M)" by (rule multiset_eqI)
  then have "size M = card (set_mset M)" by (metis size_mset_set)
  then show ?thesis using assms(2,3) by (simp add: card_mono)
qed

lemma tokens_bounded:
  assumes "token_inv a" and "finite A" and "\<And>p. a_infl a p \<Longrightarrow> p \<in> A"
  shows "size (a_tok a) \<le> card A"
proof -
  have "a_infl a (b_partition b)" if "(st, b) \<in># a_tok a" for st b
    using that token_inv_others(1) [OF assms(1)] by (metis multi_member_split)
  then have "set_mset (image_mset (b_partition \<circ> snd) (a_tok a)) \<subseteq> A"
    using assms(3) by force
  from size_le_card [OF tokens_distinct [OF assms(1)] this assms(2)] show ?thesis by simp
qed

subsection \<open>What is settled is a prefix of what was accepted and not discarded\<close>

fun token_data :: "stage \<Rightarrow> batch \<Rightarrow> message list \<Rightarrow> message list \<Rightarrow> bool" where
  "token_data Untracked b dn ys = (ys = b_messages b)"
| "token_data Tracked b dn ys = (ys = b_messages b)"
| "token_data Settled b dn ys = (ys = [] \<and> dn \<noteq> [] \<and> m_Offset (last dn) = b_maxOffset b)"
| "token_data Finished b dn ys = (ys = [] \<and> dn \<noteq> [] \<and> m_Offset (last dn) = b_maxOffset b)"

definition undisturbed :: "int32 \<Rightarrow> proto \<Rightarrow> bool" where
  "undisturbed p a \<longleftrightarrow> p \<notin> a_rejected a"

definition data_inv :: "int32 \<Rightarrow> proto \<Rightarrow> bool" where
  "data_inv p a \<longleftrightarrow>
     (\<exists>ys. a_sent a p = a_done a p @ ys @ a_buf a p
        \<and> (\<not> a_infl a p \<longrightarrow> ys = [])
        \<and> (\<forall>(st, b)\<in>#tokens_of p (a_tok a). token_data st b (a_done a p) ys
             \<and> b_messages b \<noteq> [] \<and> b_maxOffset b = m_Offset (last (b_messages b)))
        \<and> (\<forall>m. a_view a p = Completed m \<longrightarrow> a_done a p \<noteq> [] \<and> m_Offset (last (a_done a p)) = m))"

lemma undisturbed_back: "proto_step a a' \<Longrightarrow> undisturbed p a' \<Longrightarrow> undisturbed p a"
  by (erule proto_step.cases) (auto simp: undisturbed_def)

text \<open>A step that concerns another partition changes nothing the invariant speaks of.\<close>

lemma data_inv_cong:
  assumes "a_sent a' p = a_sent a p" "a_done a' p = a_done a p" "a_buf a' p = a_buf a p"
    "a_infl a' p = a_infl a p" "tokens_of p (a_tok a') = tokens_of p (a_tok a)"
    "a_view a' p = a_view a p"
  shows "data_inv p a' = data_inv p a"
  using assms by (simp add: data_inv_def)

lemma data_invE:
  assumes "data_inv p a"
  obtains ys where "a_sent a p = a_done a p @ ys @ a_buf a p" and "\<not> a_infl a p \<Longrightarrow> ys = []"
    and "\<And>st b. (st, b) \<in># tokens_of p (a_tok a) \<Longrightarrow> token_data st b (a_done a p) ys
           \<and> b_messages b \<noteq> [] \<and> b_maxOffset b = m_Offset (last (b_messages b))"
    and "\<And>m. a_view a p = Completed m \<Longrightarrow> a_done a p \<noteq> [] \<and> m_Offset (last (a_done a p)) = m"
proof -
  from assms obtain ys where "a_sent a p = a_done a p @ ys @ a_buf a p" "\<not> a_infl a p \<longrightarrow> ys = []"
    "\<forall>(st, b)\<in>#tokens_of p (a_tok a). token_data st b (a_done a p) ys
             \<and> b_messages b \<noteq> [] \<and> b_maxOffset b = m_Offset (last (b_messages b))"
    "\<forall>m. a_view a p = Completed m \<longrightarrow> a_done a p \<noteq> [] \<and> m_Offset (last (a_done a p)) = m"
    unfolding data_inv_def by blast
  then show thesis by - (rule that [of ys], auto)
qed

lemma data_invI:
  assumes "a_sent a p = a_done a p @ ys @ a_buf a p" and "\<not> a_infl a p \<Longrightarrow> ys = []"
    and "\<And>st b. (st, b) \<in># tokens_of p (a_tok a) \<Longrightarrow> token_data st b (a_done a p) ys
           \<and> b_messages b \<noteq> [] \<and> b_maxOffset b = m_Offset (last (b_messages b))"
    and "\<And>m. a_view a p = Completed m \<Longrightarrow> a_done a p \<noteq> [] \<and> m_Offset (last (a_done a p)) = m"
  shows "data_inv p a"
  unfolding data_inv_def by (intro exI [where x = ys]) (use assms in auto)

lemma data_inv_step:
  assumes step: "proto_step a a'" and tok: "token_inv a" and inv: "data_inv p a"
    and quiet: "undisturbed p a'"
  shows "data_inv p a'"
proof -
  from inv obtain ys where ys: "a_sent a p = a_done a p @ ys @ a_buf a p" "\<not> a_infl a p \<Longrightarrow> ys = []"
    "\<And>st b. (st, b) \<in># tokens_of p (a_tok a) \<Longrightarrow> token_data st b (a_done a p) ys
           \<and> b_messages b \<noteq> [] \<and> b_maxOffset b = m_Offset (last (b_messages b))"
    "\<And>m. a_view a p = Completed m \<Longrightarrow> a_done a p \<noteq> [] \<and> m_Offset (last (a_done a p)) = m"
    by (rule data_invE) blast
  have only: "tokens_of p T = {#}" if "a_tok a = add_mset (st, b) T" "b_partition b = p" for st b T
    using token_inv_others(2) [OF tok that(1)] that(2) by (auto simp: tokens_of_empty_iff)
  from step show ?thesis
  proof cases
    case (accept q msgs)
    show ?thesis
    proof (cases "q = p")
      case True
      show ?thesis by (rule data_invI [where ys = ys]) (use ys accept True in auto)
    next
      case False
      then show ?thesis using inv data_inv_cong [of a' p a] by (simp add: accept(1))
    qed
  next
    case (assemble b rest)
    show ?thesis
    proof (cases "b_partition b = p")
      case True
      have none: "tokens_of p (a_tok a) = {#}"
        using token_invD(1) [OF tok, of p] assemble(2) True by simp
      have "ys = []" using ys(2) assemble(2) True by simp
      show ?thesis
      proof (rule data_invI [where ys = "b_messages b"])
        show "a_sent a' p = a_done a' p @ b_messages b @ a_buf a' p"
          using ys(1) assemble(3) True \<open>ys = []\<close> by (simp add: assemble(1))
        show "token_data st c (a_done a' p) (b_messages b) \<and> b_messages c \<noteq> []
            \<and> b_maxOffset c = m_Offset (last (b_messages c))" if "(st, c) \<in># tokens_of p (a_tok a')" for st c
          using that none True assemble(4,5) by (simp add: assemble(1))
        show "a_done a' p \<noteq> [] \<and> m_Offset (last (a_done a' p)) = m" if "a_view a' p = Completed m" for m
          using that ys(4) by (simp add: assemble(1))
      qed (simp add: assemble(1) True)
    next
      case False
      then show ?thesis using inv data_inv_cong [of a' p a] by (simp add: assemble(1))
    qed
  next
    case (lose x T)
    show ?thesis
    proof (rule data_invI [where ys = ys])
      show "token_data st b (a_done a' p) ys \<and> b_messages b \<noteq> []
          \<and> b_maxOffset b = m_Offset (last (b_messages b))" if "(st, b) \<in># tokens_of p (a_tok a')" for st b
        using that ys(3) [of st b] by (cases "b_partition (snd x) = p") (simp_all add: lose)
    qed (use ys(1,2,4) lose in simp_all)
  next
    case (track b T)
    show ?thesis
    proof (cases "b_partition b = p")
      case True
      show ?thesis
        by (rule data_invI [where ys = ys])
          (use ys(1,2) ys(3) [of Untracked b] track True only [OF track(2) True] in auto)
    next
      case False
      then show ?thesis using inv data_inv_cong [of a' p a] by (simp add: track)
    qed
  next
    case (settle b T)
    show ?thesis
    proof (cases "b_partition b = p")
      case True
      have v: "a_view a p = Idle \<or> a_view a p = InFlight (b_maxOffset b)"
        using token_invD(2) [OF tok, of Tracked b] settle True by simp
      show ?thesis
        by (rule data_invI [where ys = "[]"])
          (use ys(1,2) ys(3) [of Tracked b] v settle True only [OF settle(2) True] in auto)
    next
      case False
      then show ?thesis using inv data_inv_cong [of a' p a] by (simp add: settle)
    qed
  next
    case (finish b T)
    show ?thesis
    proof (cases "b_partition b = p")
      case True
      have "finish_slot (b_maxOffset b) v = Completed m \<Longrightarrow> m = b_maxOffset b" for v m
        by (cases v) auto
      then show ?thesis
        by - (rule data_invI [where ys = ys],
          use ys(1,2) ys(3) [of Settled b] finish True only [OF finish(2) True] in auto)
    next
      case False
      then show ?thesis using inv data_inv_cong [of a' p a] by (simp add: finish)
    qed
  next
    case (release b T)
    show ?thesis
    proof (cases "b_partition b = p")
      case True
      show ?thesis
        by (rule data_invI [where ys = ys])
          (use ys(1,2,4) ys(3) [of Finished b] release True only [OF release(2) True] in auto)
    next
      case False
      then show ?thesis using inv data_inv_cong [of a' p a] by (simp add: release)
    qed
  next
    case (undo b T)
    then have "b_partition b \<noteq> p" using quiet by (auto simp: undisturbed_def)
    then show ?thesis using inv data_inv_cong [of a' p a] by (simp add: undo)
  next
    case (put_back b T)
    then have "b_partition b \<noteq> p" using quiet by (auto simp: undisturbed_def)
    then show ?thesis using inv data_inv_cong [of a' p a] by (simp add: put_back)
  next
    case (revoke q)
    show ?thesis
    proof (cases "q = p")
      case True
      have "without_tail (a_buf a p) (a_sent a p) = a_done a p @ ys"
        using without_tail_simps(2) [of "a_buf a p" "a_done a p @ ys"] ys(1) by simp
      then show ?thesis by - (rule data_invI [where ys = ys], use ys revoke True in auto)
    next
      case False
      then show ?thesis using inv data_inv_cong [of a' p a] by (simp add: revoke)
    qed
  next
    case (reset q)
    show ?thesis by (rule data_invI [where ys = ys]) (use ys reset in \<open>auto split: if_splits\<close>)
  qed
qed

lemma bp_data_inv: "bp.reach a \<Longrightarrow> undisturbed p a \<Longrightarrow> data_inv p a"
proof (rule bp.invariant_under [where I = "data_inv p" and B = "undisturbed p"])
  show "data_inv p s" if "proto_init s" for s
    using that by (auto simp: proto_init_def data_inv_def tokens_of_def)
qed (auto intro: undisturbed_back data_inv_step bp_token_inv)

subsection \<open>Where messages come from\<close>

text \<open>
  Whatever is buffered, held in a batch, or settled for a partition was accepted for it; a
  batch is never empty and its offset is that of its last message.
\<close>

definition origin_inv :: "proto \<Rightarrow> bool" where
  "origin_inv a \<longleftrightarrow>
     (\<forall>p. set (a_buf a p) \<subseteq> set (a_accepted a p) \<and> set (a_done a p) \<subseteq> set (a_accepted a p))
     \<and> (\<forall>(st, b)\<in>#a_tok a. set (b_messages b) \<subseteq> set (a_accepted a (b_partition b))
          \<and> b_messages b \<noteq> [] \<and> b_maxOffset b = m_Offset (last (b_messages b)))"

lemma origin_invD:
  "origin_inv a \<Longrightarrow> (st, b) \<in># a_tok a \<Longrightarrow> set (b_messages b) \<subseteq> set (a_accepted a (b_partition b))
     \<and> b_messages b \<noteq> [] \<and> b_maxOffset b = m_Offset (last (b_messages b))"
  unfolding origin_inv_def by fast

lemma origin_inv_step: "proto_step a a' \<Longrightarrow> origin_inv a \<Longrightarrow> origin_inv a'"
proof (induction rule: proto_step.induct)
  case (assemble a b rest)
  then have "set (b_messages b @ rest) \<subseteq> set (a_accepted a (b_partition b))"
    unfolding origin_inv_def by metis
  with assemble show ?case by (auto simp: origin_inv_def)
qed (auto simp: origin_inv_def)

lemma bp_origin_inv: "bp.reach a \<Longrightarrow> origin_inv a"
proof (rule bp.invariant_rule [where I = origin_inv])
  show "origin_inv s" if "proto_init s" for s using that by (simp add: proto_init_def origin_inv_def)
qed (auto intro: origin_inv_step)

end
