(* ===== verification/Batch_Processing.thy ===== *)
theory Batch_Processing
  imports Unordered_Dispatcher
begin

text \<open>
  The worker of the unordered dispatcher: \<open>processBatch\<close> with its retry loop,
  \<open>holdUntilCircuitCloses\<close>, and the worker loop around them.

  What the loop meets from outside is a list of rounds, one per iteration: how the sleeps end
  (timer or context), what the circuit breaker answers to \<open>Execute\<close>, and the breaker state.
  The loop can run for as long as the circuit stays open, so it consumes rounds, and the
  result \<open>None\<close> says that it is still running when the rounds are used up. gobreaker is used
  as documented: a rejected request is not run and returns the rejection error, an accepted
  one returns what the request returned, and a panic of the request goes through.
\<close>

subsection \<open>One attempt\<close>

datatype processor_result = PReturn "go_error option" | PPanic string

datatype exec_answer = Rejected go_error | Ran processor_result

record round =
  r_backoff :: sleep_outcome
  r_exec :: exec_answer
  r_hold :: sleep_outcome
  r_state :: gobreaker_state

text \<open>
  The closure given to \<open>Execute\<close>: a non-retryable error is returned as the result (the
  wrapper) and not as the error, so the breaker counts the attempt as a success.
\<close>

definition cb_request :: "go_error option \<Rightarrow> go_error option \<times> go_error option" where
  "cb_request err =
     (case err of
        None \<Rightarrow> (None, None)
      | Some e \<Rightarrow> if IsNonRetryable e then (Some e, None) else (None, Some e))"

datatype executed = Returned "go_error option" "go_error option" | Panicking string

fun Execute :: "exec_answer \<Rightarrow> executed" where
  "Execute (Rejected e) = Returned None (Some e)"
| "Execute (Ran (PPanic v)) = Panicking v"
| "Execute (Ran (PReturn err)) = (let (result, cbErr) = cb_request err in Returned result cbErr)"

definition circuit_open_error :: "go_error \<Rightarrow> bool" where
  "circuit_open_error e \<longleftrightarrow> errors_Is e ErrOpenState \<or> errors_Is e ErrTooManyRequests"

subsection \<open>The retry loop\<close>

datatype verdict =
    Success
  | NonRetryable go_error
  | Exhausted go_error
  | Abandoned
  | Panicked panic

text \<open>What the loop did: slept a backoff, ran \<open>Execute\<close>, waited for the circuit.\<close>

datatype loop_event = EvBackoff int | EvExecute | EvHold int | EvRecovery

definition logged :: "loop_event list \<Rightarrow> (loop_event list \<times> verdict) option
    \<Rightarrow> (loop_event list \<times> verdict) option"
where
  "logged evs res = map_option (\<lambda>(tr, v). (evs @ tr, v)) res"

text \<open>
  \<open>retry_loop\<close> is the \<open>for\<close> loop of \<open>processBatch\<close> and the decision after it;
  \<open>holdUntilCircuitCloses\<close> starts \<open>processBatch\<close> again. An iteration that is held because the
  circuit is open decrements the counter which the loop header then increments.
\<close>

fun retry_loop :: "int \<Rightarrow> int \<Rightarrow> go_error option \<Rightarrow> round list \<Rightarrow> (loop_event list \<times> verdict) option"
  and holdUntilCircuitCloses :: "int \<Rightarrow> round list \<Rightarrow> (loop_event list \<times> verdict) option"
where
  "retry_loop maxRetries attempt lastErr [] = None"
| "retry_loop maxRetries attempt lastErr (r # rs) =
     (if attempt \<le> maxRetries then
        (let slept = (if attempt > 0 then [EvBackoff (attempt - 1)] else [])
         in if attempt > 0 \<and> sleepWithContext (r_backoff r) \<noteq> None then Some (slept, Abandoned)
            else logged (slept @ [EvExecute])
              (case Execute (r_exec r) of
                 Panicking v \<Rightarrow> Some ([], Panicked (ProcessorPanic v))
               | Returned (Some e) cbErr \<Rightarrow> Some ([], NonRetryable e)
               | Returned None None \<Rightarrow> Some ([], Success)
               | Returned None (Some err) \<Rightarrow>
                   if circuit_open_error err then
                     (if sleepWithContext (r_hold r) \<noteq> None then Some ([EvHold attempt], Abandoned)
                      else logged [EvHold attempt] (retry_loop maxRetries ((attempt - 1) + 1) lastErr rs))
                   else retry_loop maxRetries (attempt + 1) (Some err) rs))
      else if r_state r = StateOpen then holdUntilCircuitCloses maxRetries rs
      else case lastErr of
             None \<Rightarrow> Some ([], Panicked NilDereference)
           | Some e \<Rightarrow> Some ([], Exhausted e))"
| "holdUntilCircuitCloses maxRetries [] = None"
| "holdUntilCircuitCloses maxRetries (r # rs) =
     (if sleepWithContext (r_hold r) \<noteq> None then Some ([EvRecovery], Abandoned)
      else if r_state r = StateClosed \<or> r_state r = StateHalfOpen
      then logged [EvRecovery] (retry_loop maxRetries 0 None rs)
      else logged [EvRecovery] (holdUntilCircuitCloses maxRetries rs))"

subsection \<open>The effects on the dispatcher\<close>

text \<open>The end of \<open>processBatch\<close> for a verdict that settles the batch.\<close>

definition settle ::
  "int32 list \<Rightarrow> batch \<Rightarrow> int \<Rightarrow> int \<Rightarrow> string \<Rightarrow> dispatcher \<Rightarrow> panic + dispatcher"
where
  "settle ord b start now status d =
     go_bind (complete b (d\<lparr>d_m := recordBatchMetrics b start now status (d_m d)\<rparr>))
       (onBatchDone ord (b_partition b))"

definition processBatch ::
  "(message list \<Rightarrow> go_error \<Rightarrow> go_error option) option \<Rightarrow> int32 list \<Rightarrow> int \<Rightarrow> int \<Rightarrow> round list
    \<Rightarrow> batch \<Rightarrow> dispatcher \<Rightarrow> (panic + dispatcher) option"
where
  "processBatch dlq ord start now rounds b d =
     (case retry_loop (dc_MaxRetries (d_cfg d)) 0 None rounds of
        None \<Rightarrow> None
      | Some (_, Success) \<Rightarrow> Some (settle ord b start now StatusSuccess d)
      | Some (_, NonRetryable e) \<Rightarrow>
          Some (settle ord b start now StatusNonRetryable
                  (d\<lparr>d_m := sendToDLQ dlq b e StatusNonRetryable (d_m d)\<rparr>))
      | Some (_, Exhausted e) \<Rightarrow>
          Some (settle ord b start now StatusRetriesExhausted
                  (d\<lparr>d_m := sendToDLQ dlq b e StatusRetriesExhausted (d_m d)\<rparr>))
      | Some (_, Abandoned) \<Rightarrow> Some (Inr d)
      | Some (_, Panicked p) \<Rightarrow> Some (Inl p))"

text \<open>
  One turn of the worker: blocked on an empty channel or still processing (\<open>None\<close>), returned
  because the channel is closed and empty, ready for the next batch, or recovered from a
  panic, which cancels the root context.
\<close>

datatype worker_turn = WorkerReturned | WorkerNext | WorkerRecovered panic

definition worker_turn ::
  "(message list \<Rightarrow> go_error \<Rightarrow> go_error option) option \<Rightarrow> int32 list \<Rightarrow> int \<Rightarrow> int \<Rightarrow> round list
    \<Rightarrow> dispatcher \<Rightarrow> (worker_turn \<times> dispatcher) option"
where
  "worker_turn dlq ord start now rounds d =
     (case d_batchCh d of
        [] \<Rightarrow> if d_batchChClosed d
               then Some (WorkerReturned, d\<lparr>d_workers := d_workers d - 1\<rparr>) else None
      | b # bs \<Rightarrow>
          map_option (\<lambda>res. case res of
                Inr d' \<Rightarrow> (WorkerNext, d')
              | Inl p \<Rightarrow> (WorkerRecovered p, d\<lparr>d_batchCh := bs, d_workers := d_workers d - 1\<rparr>))
            (processBatch dlq ord start now rounds b (d\<lparr>d_batchCh := bs\<rparr>)))"

subsection \<open>Lemmas on the loop\<close>

lemma logged_simps [simp]:
  "logged evs None = None" "logged evs (Some (tr, v)) = Some (evs @ tr, v)"
  "logged evs res = None \<longleftrightarrow> res = None"
  "logged evs res = Some (l, v) \<longleftrightarrow> (\<exists>tr. res = Some (tr, v) \<and> l = evs @ tr)"
  by (auto simp: logged_def)

lemma logged_logged [simp]: "logged a (logged b res) = logged (a @ b) res"
  by (cases res) (auto simp: logged_def)

lemma logged_Nil [simp]: "logged [] res = res"
  by (cases res) (auto simp: logged_def)

definition executions :: "loop_event list \<Rightarrow> nat" where
  "executions tr = length (filter (\<lambda>e. e = EvExecute) tr)"

lemma executions_simps [simp]:
  "executions [] = 0" "executions (a @ b) = executions a + executions b"
  "executions (EvExecute # a) = Suc (executions a)"
  "executions (EvBackoff n # a) = executions a" "executions (EvHold n # a) = executions a"
  "executions (EvRecovery # a) = executions a"
  by (simp_all add: executions_def)

text \<open>A round in which the processor ran and its error counts as a failed attempt.\<close>

definition transient :: "go_error \<Rightarrow> round \<Rightarrow> bool" where
  "transient e r \<longleftrightarrow> r_exec r = Ran (PReturn (Some e)) \<and> \<not> IsNonRetryable e \<and> \<not> circuit_open_error e"

lemma Execute_eq:
  "Execute a = Returned res cbErr \<longleftrightarrow>
     (a = Ran (PReturn None) \<and> res = None \<and> cbErr = None)
     \<or> (\<exists>e. a = Ran (PReturn (Some e)) \<and> IsNonRetryable e \<and> res = Some e \<and> cbErr = None)
     \<or> (\<exists>e. (a = Ran (PReturn (Some e)) \<and> \<not> IsNonRetryable e \<or> a = Rejected e)
             \<and> res = None \<and> cbErr = Some e)"
  by (cases a rule: Execute.cases) (auto simp: cb_request_def split: option.splits)

text \<open>The errors gobreaker documents for a rejected request.\<close>

definition gobreaker_documented :: "round list \<Rightarrow> bool" where
  "gobreaker_documented rs \<longleftrightarrow>
     (\<forall>r\<in>set rs. \<forall>e. r_exec r = Rejected e
        \<longrightarrow> e = Sentinel ErrOpenState \<or> e = Sentinel ErrTooManyRequests)"

lemma gobreaker_documented_Cons [simp]:
  "gobreaker_documented (r # rs) \<longleftrightarrow>
     (\<forall>e. r_exec r = Rejected e \<longrightarrow> e = Sentinel ErrOpenState \<or> e = Sentinel ErrTooManyRequests)
     \<and> gobreaker_documented rs"
  by (simp add: gobreaker_documented_def)

lemma circuit_open_sentinels [simp]:
  "circuit_open_error (Sentinel ErrOpenState)" "circuit_open_error (Sentinel ErrTooManyRequests)"
  by (simp_all add: circuit_open_error_def)

lemma Rejected_open:
  "gobreaker_documented (r # rs) \<Longrightarrow> r_exec r = Rejected e \<Longrightarrow> circuit_open_error e"
  by (auto simp: circuit_open_error_def)

text \<open>
  The cases of one iteration of the loop: every way in which it ends the loop or goes on.
\<close>

lemma retry_loop_step:
  assumes "attempt \<le> mx"
  shows "retry_loop mx attempt le (r # rs) =
    (let slept = (if attempt > 0 then [EvBackoff (attempt - 1)] else [])
     in if attempt > 0 \<and> sleepWithContext (r_backoff r) \<noteq> None then Some (slept, Abandoned)
        else case r_exec r of
          Ran (PPanic v) \<Rightarrow> Some (slept @ [EvExecute], Panicked (ProcessorPanic v))
        | Ran (PReturn None) \<Rightarrow> Some (slept @ [EvExecute], Success)
        | Ran (PReturn (Some e)) \<Rightarrow>
            if IsNonRetryable e then Some (slept @ [EvExecute], NonRetryable e)
            else if circuit_open_error e then
              (if sleepWithContext (r_hold r) \<noteq> None
               then Some (slept @ [EvExecute, EvHold attempt], Abandoned)
               else logged (slept @ [EvExecute, EvHold attempt]) (retry_loop mx attempt le rs))
            else logged (slept @ [EvExecute]) (retry_loop mx (attempt + 1) (Some e) rs)
        | Rejected e \<Rightarrow>
            if circuit_open_error e then
              (if sleepWithContext (r_hold r) \<noteq> None
               then Some (slept @ [EvExecute, EvHold attempt], Abandoned)
               else logged (slept @ [EvExecute, EvHold attempt]) (retry_loop mx attempt le rs))
            else logged (slept @ [EvExecute]) (retry_loop mx (attempt + 1) (Some e) rs))"
  using assms
  by (auto simp: Let_def cb_request_def simp del: logged_simps(4)
      split: exec_answer.split processor_result.split option.split)

lemma retry_loop_after:
  "\<not> attempt \<le> mx \<Longrightarrow> retry_loop mx attempt le (r # rs) =
     (if r_state r = StateOpen then holdUntilCircuitCloses mx rs
      else case le of None \<Rightarrow> Some ([], Panicked NilDereference) | Some e \<Rightarrow> Some ([], Exhausted e))"
  by simp

text \<open>
  A round that looks like an open circuit and in which no sleep is interrupted: the breaker
  rejected the request, or the processor itself returned an error that wraps one of
  gobreaker's rejection errors. It costs no attempt.
\<close>

definition held_round :: "round \<Rightarrow> bool" where
  "held_round r \<longleftrightarrow>
     (\<exists>e. circuit_open_error e
        \<and> (r_exec r = Rejected e \<or> r_exec r = Ran (PReturn (Some e)) \<and> \<not> IsNonRetryable e))
     \<and> r_backoff r = TimerFired \<and> r_hold r = TimerFired"

text \<open>The log of \<open>n\<close> held rounds: the same attempt each time, with its backoff, and a hold after it.\<close>

fun hold_log :: "int \<Rightarrow> nat \<Rightarrow> loop_event list" where
  "hold_log a 0 = []"
| "hold_log a (Suc n) = (if a > 0 then [EvBackoff (a - 1)] else []) @ EvExecute # EvHold a # hold_log a n"

lemma retry_loop_held:
  assumes "attempt \<le> mx" and "held_round r"
  shows "retry_loop mx attempt le (r # rs) = logged (hold_log attempt 1) (retry_loop mx attempt le rs)"
  using assms by (auto simp: held_round_def cb_request_def)

lemma retry_loop_held_all:
  assumes "attempt \<le> mx" and "\<forall>r\<in>set rs. held_round r"
  shows "retry_loop mx attempt le (rs @ rs') = logged (hold_log attempt (length rs)) (retry_loop mx attempt le rs')"
  using assms(2)
proof (induction rs)
  case (Cons r rs)
  with retry_loop_held [OF assms(1), of r le "rs @ rs'"] show ?case by simp
qed simp

text \<open>The log of \<open>n\<close> consecutive attempts from attempt \<open>a\<close> on.\<close>

fun attempt_log :: "int \<Rightarrow> nat \<Rightarrow> loop_event list" where
  "attempt_log a 0 = []"
| "attempt_log a (Suc n) =
     (if a > 0 then [EvBackoff (a - 1)] else []) @ EvExecute # attempt_log (a + 1) n"

lemma executions_attempt_log [simp]: "executions (attempt_log a n) = n"
  by (induction n arbitrary: a) auto

lemma retry_loop_transients:
  assumes "\<forall>(e, r)\<in>set fs. transient e r \<and> r_backoff r = TimerFired" and "a + int (length fs) \<le> mx + 1"
  shows "retry_loop mx a le (map snd fs @ rs) =
    logged (attempt_log a (length fs))
      (retry_loop mx (a + int (length fs)) (if fs = [] then le else Some (fst (last fs))) rs)"
  using assms
proof (induction fs arbitrary: a le)
  case (Cons f fs)
  obtain e r where f: "f = (e, r)" by (cases f)
  have "a \<le> mx" "transient e r" "r_backoff r = TimerFired" using Cons.prems f by auto
  then have "retry_loop mx a le (map snd (f # fs) @ rs)
    = logged ((if a > 0 then [EvBackoff (a - 1)] else []) @ [EvExecute])
        (retry_loop mx (a + 1) (Some e) (map snd fs @ rs))"
    using f by (simp add: transient_def cb_request_def)
  also have "retry_loop mx (a + 1) (Some e) (map snd fs @ rs) =
    logged (attempt_log (a + 1) (length fs))
      (retry_loop mx (a + 1 + int (length fs)) (if fs = [] then Some e else Some (fst (last fs))) rs)"
    by (rule Cons.IH) (use Cons.prems in auto)
  finally show ?case using f by (simp add: add_ac)
qed simp

text \<open>Where a verdict comes from: the rounds up to the one that decided it.\<close>

definition failures :: "round list \<Rightarrow> nat" where
  "failures rs = length (filter (\<lambda>r. \<exists>e. transient e r) rs)"

lemma failures_simps [simp]:
  "failures [] = 0" "failures (r # rs) = (if \<exists>e. transient e r then 1 else 0) + failures rs"
  by (simp_all add: failures_def)

definition exhausted_by :: "int \<Rightarrow> go_error option \<Rightarrow> go_error \<Rightarrow> round list \<Rightarrow> bool" where
  "exhausted_by n le e rs \<longleftrightarrow>
     (\<exists>pre r post. rs = pre @ r # post \<and> r_state r \<noteq> StateOpen \<and> n \<le> int (failures pre)
        \<and> (le = Some e \<or> (\<exists>x\<in>set pre. transient e x)))"

lemma exhausted_by_Cons:
  assumes "exhausted_by n le e rs" and "m \<le> n + (if \<exists>e. transient e r then 1 else 0)"
    and "\<And>x. le = Some x \<Longrightarrow> le' = Some x \<or> transient x r"
  shows "exhausted_by m le' e (r # rs)"
proof -
  from assms(1) obtain pre r' post where p: "rs = pre @ r' # post" "r_state r' \<noteq> StateOpen"
    "n \<le> int (failures pre)" "le = Some e \<or> (\<exists>x\<in>set pre. transient e x)"
    unfolding exhausted_by_def by blast
  have "r # rs = (r # pre) @ r' # post" using p(1) by simp
  moreover have "m \<le> int (failures (r # pre))" using p(3) assms(2) by (auto split: if_splits)
  moreover have "le' = Some e \<or> (\<exists>x\<in>set (r # pre). transient e x)" using p(4) assms(3) by auto
  ultimately show ?thesis using p(2) unfolding exhausted_by_def by blast
qed

lemma exhausted_by_here: "r_state r \<noteq> StateOpen \<Longrightarrow> n \<le> 0 \<Longrightarrow> exhausted_by n (Some e) e (r # rs)"
  unfolding exhausted_by_def by (intro exI [where x = "[]"]) auto

lemma Exhausted_step:
  assumes "a \<le> mx" and "gobreaker_documented (r # rs)"
    and "retry_loop mx a le (r # rs) = Some (tr, Exhausted e)"
  obtains (held) tr' where "retry_loop mx a le rs = Some (tr', Exhausted e)"
  | (failed) x tr' where "transient x r" and "retry_loop mx (a + 1) (Some x) rs = Some (tr', Exhausted e)"
  using assms(3) Rejected_open [OF assms(2)] unfolding retry_loop_step [OF assms(1)] transient_def
  by (auto simp: Let_def split: if_splits exec_answer.splits processor_result.splits option.splits)

lemma Exhausted_sound:
  "gobreaker_documented rs \<Longrightarrow>
     (\<forall>a le tr. 0 \<le> a \<and> retry_loop mx a le rs = Some (tr, Exhausted e)
        \<longrightarrow> exhausted_by (mx + 1 - a) le e rs)
     \<and> (\<forall>tr. holdUntilCircuitCloses mx rs = Some (tr, Exhausted e) \<longrightarrow> exhausted_by (mx + 1) None e rs)"
proof (induction rs)
  case (Cons r rs)
  then have ih_loop: "\<And>a le tr. 0 \<le> a \<Longrightarrow> retry_loop mx a le rs = Some (tr, Exhausted e)
        \<Longrightarrow> exhausted_by (mx + 1 - a) le e rs"
    and ih_hold: "\<And>tr. holdUntilCircuitCloses mx rs = Some (tr, Exhausted e)
        \<Longrightarrow> exhausted_by (mx + 1) None e rs"
    by auto
  have "exhausted_by (mx + 1 - a) le e (r # rs)"
    if nn: "0 \<le> a" and res: "retry_loop mx a le (r # rs) = Some (tr, Exhausted e)" for a le tr
  proof (cases "a \<le> mx")
    case True
    show ?thesis
    proof (cases rule: Exhausted_step [OF True Cons.prems res, case_names held failed])
      case (held tr')
      show ?thesis by (rule exhausted_by_Cons [OF ih_loop [OF nn held]]) auto
    next
      case (failed x tr')
      show ?thesis by (rule exhausted_by_Cons [OF ih_loop [OF _ failed(2)]]) (use nn failed(1) in auto)
    qed
  next
    case False
    show ?thesis
    proof (cases "r_state r = StateOpen")
      case True
      with False res have "holdUntilCircuitCloses mx rs = Some (tr, Exhausted e)" by simp
      from ih_hold [OF this] show ?thesis by (rule exhausted_by_Cons) (use nn False in auto)
    next
      case st: False
      with False res have "le = Some e" by (auto split: option.splits)
      with st False show ?thesis using exhausted_by_here [OF st, of "mx + 1 - a" e rs] by simp
    qed
  qed
  moreover have "exhausted_by (mx + 1) None e (r # rs)"
    if "holdUntilCircuitCloses mx (r # rs) = Some (tr, Exhausted e)" for tr
    using that ih_loop [of 0 None] ih_hold
    by (auto split: if_splits intro!: exhausted_by_Cons [where r = r and m = "mx + 1" and le' = None])
  ultimately show ?case by blast
qed simp

text \<open>A non-retryable verdict carries an error the processor returned.\<close>

lemma NonRetryable_sound:
  "(\<forall>a le tr. retry_loop mx a le rs = Some (tr, NonRetryable e)
       \<longrightarrow> (\<exists>r\<in>set rs. r_exec r = Ran (PReturn (Some e)) \<and> IsNonRetryable e))
     \<and> (\<forall>tr. holdUntilCircuitCloses mx rs = Some (tr, NonRetryable e)
       \<longrightarrow> (\<exists>r\<in>set rs. r_exec r = Ran (PReturn (Some e)) \<and> IsNonRetryable e))"
proof (induction rs)
  case (Cons r rs)
  have "\<exists>x\<in>set (r # rs). r_exec x = Ran (PReturn (Some e)) \<and> IsNonRetryable e"
    if res: "retry_loop mx a le (r # rs) = Some (tr, NonRetryable e)" for a le tr
  proof (cases "a \<le> mx")
    case True
    show ?thesis
      using res Cons.IH unfolding retry_loop_step [OF True]
      by (auto simp: Let_def split: if_splits exec_answer.splits processor_result.splits option.splits)
  next
    case False
    then show ?thesis using res Cons.IH by (auto split: if_splits option.splits)
  qed
  moreover have "\<exists>x\<in>set (r # rs). r_exec x = Ran (PReturn (Some e)) \<and> IsNonRetryable e"
    if "holdUntilCircuitCloses mx (r # rs) = Some (tr, NonRetryable e)" for tr
    using that Cons.IH by (auto split: if_splits)
  ultimately show ?case by blast
qed simp

text \<open>With at least one attempt allowed the last error is set when the retries are used up.\<close>

lemma no_nil_error:
  assumes "0 \<le> mx"
  shows "(\<forall>a le tr. a \<le> mx \<or> le \<noteq> None \<longrightarrow> retry_loop mx a le rs \<noteq> Some (tr, Panicked NilDereference))
     \<and> (\<forall>tr. holdUntilCircuitCloses mx rs \<noteq> Some (tr, Panicked NilDereference))"
proof (induction rs)
  case (Cons r rs)
  have "retry_loop mx a le (r # rs) \<noteq> Some (tr, Panicked NilDereference)"
    if pre: "a \<le> mx \<or> le \<noteq> None" for a le tr
  proof (cases "a \<le> mx")
    case True
    then show ?thesis
      using Cons.IH unfolding retry_loop_step [OF True]
      by (auto simp: Let_def split: if_splits exec_answer.splits processor_result.splits option.splits)
  next
    case False
    then show ?thesis using pre Cons.IH by (auto split: if_splits option.splits)
  qed
  moreover have "holdUntilCircuitCloses mx (r # rs) \<noteq> Some (tr, Panicked NilDereference)" for tr
    using Cons.IH assms by (auto split: if_splits)
  ultimately show ?case by blast
qed simp

lemma retry_loop_panics_all:
  "(\<forall>a le tr. retry_loop mx a le rs = Some (tr, Panicked x)
       \<longrightarrow> x = NilDereference \<or> (\<exists>v. x = ProcessorPanic v))
     \<and> (\<forall>tr. holdUntilCircuitCloses mx rs = Some (tr, Panicked x)
       \<longrightarrow> x = NilDereference \<or> (\<exists>v. x = ProcessorPanic v))"
proof (induction rs)
  case (Cons r rs)
  have "x = NilDereference \<or> (\<exists>v. x = ProcessorPanic v)"
    if res: "retry_loop mx a le (r # rs) = Some (tr, Panicked x)" for a le tr
  proof (cases "a \<le> mx")
    case True
    show ?thesis
      using res Cons.IH unfolding retry_loop_step [OF True]
      by (auto simp: Let_def split: if_splits exec_answer.splits processor_result.splits option.splits)
  next
    case False
    then show ?thesis using res Cons.IH by (auto split: if_splits option.splits)
  qed
  moreover have "x = NilDereference \<or> (\<exists>v. x = ProcessorPanic v)"
    if "holdUntilCircuitCloses mx (r # rs) = Some (tr, Panicked x)" for tr
    using that Cons.IH by (auto split: if_splits)
  ultimately show ?case by blast
qed simp

lemma retry_loop_panics:
  "retry_loop mx a le rs = Some (tr, Panicked x) \<Longrightarrow> x = NilDereference \<or> (\<exists>v. x = ProcessorPanic v)"
  using retry_loop_panics_all [of mx rs x] by blast

text \<open>Without an open circuit the loop ends within the allowed attempts.\<close>

definition circuit_quiet :: "round \<Rightarrow> bool" where
  "circuit_quiet r \<longleftrightarrow> r_state r \<noteq> StateOpen
     \<and> (case r_exec r of Rejected e \<Rightarrow> False
        | Ran (PReturn (Some e)) \<Rightarrow> \<not> circuit_open_error e \<or> IsNonRetryable e
        | _ \<Rightarrow> True)"

lemma retry_loop_ends:
  assumes "\<forall>r\<in>set rs. circuit_quiet r" and "mx + 1 - a < int (length rs)" and "rs \<noteq> []"
  shows "retry_loop mx a le rs \<noteq> None"
  using assms
proof (induction rs arbitrary: a le)
  case (Cons r rs)
  show ?case
  proof (cases "a \<le> mx")
    case True
    then have ih: "retry_loop mx (a + 1) (Some e) rs \<noteq> None" for e
      using Cons.prems by (intro Cons.IH) auto
    have "circuit_quiet r" using Cons.prems by simp
    with ih show ?thesis
      unfolding retry_loop_step [OF True] circuit_quiet_def
      by (auto simp: Let_def simp del: not_None_eq
          split: exec_answer.split processor_result.split option.split)
  next
    case False
    then show ?thesis using Cons.prems by (auto simp: circuit_quiet_def split: option.split)
  qed
qed simp

lemma attempt_log_snoc:
  "attempt_log a (Suc n) = attempt_log a n
     @ (if a + int n > 0 then [EvBackoff (a + int n - 1)] else []) @ [EvExecute]"
proof (induction n arbitrary: a)
  case (Suc n)
  have "attempt_log a (Suc (Suc n))
      = (if a > 0 then [EvBackoff (a - 1)] else []) @ EvExecute # attempt_log (a + 1) (Suc n)" by simp
  also have "attempt_log (a + 1) (Suc n) = attempt_log (a + 1) n
      @ (if a + 1 + int n > 0 then [EvBackoff (a + 1 + int n - 1)] else []) @ [EvExecute]"
    by (rule Suc.IH)
  finally show ?case by (simp add: add_ac)
qed simp

lemma complete_commits:
  assumes "coord_wf (d_coordinator d)"
    and "coord_view (d_coordinator d) (b_partition b) = InFlight (b_maxOffset b)"
  shows "\<exists>d1. settle ord b start now status d = onBatchDone ord (b_partition b) d1
    \<and> coord_wf (d_coordinator d1)
    \<and> coord_view (d_coordinator d1)
        = (coord_view (d_coordinator d))(b_partition b := Completed (b_maxOffset b))
    \<and> d_m d1 = recordBatchMetrics b start now status (d_m d)
    \<and> d_partitions d1 = d_partitions d \<and> d_batchCh d1 = d_batchCh d \<and> d_cfg d1 = d_cfg d
    \<and> d_closed d1 = d_closed d \<and> d_batchChClosed d1 = d_batchChClosed d"
proof -
  define d0 where "d0 = d\<lparr>d_m := recordBatchMetrics b start now status (d_m d)\<rparr>"
  have "coord_wf (d_coordinator d0)"
    "coord_view (d_coordinator d0) (b_partition b) = InFlight (b_maxOffset b)"
    using assms by (simp_all add: d0_def)
  from complete_ok [OF this] obtain c where c: "complete b d0 = Inr (d0\<lparr>d_coordinator := c\<rparr>)"
    "coord_wf c" "coord_view c = (coord_view (d_coordinator d0))(b_partition b := Completed (b_maxOffset b))" .
  then have "settle ord b start now status d = onBatchDone ord (b_partition b) (d0\<lparr>d_coordinator := c\<rparr>)"
    by (simp add: settle_def d0_def)
  with c show ?thesis
    by (intro exI [where x = "d0\<lparr>d_coordinator := c\<rparr>"]) (simp add: d0_def)
qed

subsection \<open>Properties\<close>

text \<open>
  C4: the retry schedule. After \<open>k\<close> transient failures, \<open>k \<le> MaxRetries\<close>, the next attempt
  settles the batch if it succeeds or fails with a non-retryable error; the backoffs slept
  before it are exactly those for attempts \<open>0, ..., k - 1\<close>, each in front of its attempt.
  After \<open>MaxRetries + 1\<close> failures the batch is given up with the last error when the breaker is
  not open (half-open included), and is held for recovery when it is open.
\<close>

theorem retry_schedule:
  assumes fs: "\<forall>(e, r)\<in>set fs. transient e r \<and> r_backoff r = TimerFired"
  shows "(int (length fs) \<le> mx \<and> r_backoff r = TimerFired \<and> r_exec r = Ran (PReturn None) \<longrightarrow>
      retry_loop mx 0 None (map snd fs @ r # rs) = Some (attempt_log 0 (Suc (length fs)), Success))
    \<and> (int (length fs) \<le> mx \<and> r_backoff r = TimerFired \<and> r_exec r = Ran (PReturn (Some e))
         \<and> IsNonRetryable e \<longrightarrow>
      retry_loop mx 0 None (map snd fs @ r # rs)
        = Some (attempt_log 0 (Suc (length fs)), NonRetryable e))
    \<and> (int (length fs) = mx + 1 \<and> fs \<noteq> [] \<and> r_state r \<noteq> StateOpen \<longrightarrow>
      retry_loop mx 0 None (map snd fs @ r # rs)
        = Some (attempt_log 0 (length fs), Exhausted (fst (last fs))))
    \<and> (int (length fs) = mx + 1 \<and> r_state r = StateOpen \<longrightarrow>
      retry_loop mx 0 None (map snd fs @ r # rs)
        = logged (attempt_log 0 (length fs)) (holdUntilCircuitCloses mx rs))"
proof -
  have step: "retry_loop mx 0 None (map snd fs @ r # rs) = logged (attempt_log 0 (length fs))
      (retry_loop mx (int (length fs)) (if fs = [] then None else Some (fst (last fs))) (r # rs))"
    if "int (length fs) \<le> mx + 1"
    using retry_loop_transients [OF fs, of 0 mx None "r # rs"] that by simp
  show ?thesis
    using step
    by (auto simp: cb_request_def attempt_log_snoc [of 0] simp del: attempt_log.simps)
qed

definition round_ok :: round where
  "round_ok = \<lparr>r_backoff = TimerFired, r_exec = Ran (PReturn None), r_hold = TimerFired,
     r_state = StateClosed\<rparr>"

definition round_err :: "go_error \<Rightarrow> round" where
  "round_err e = \<lparr>r_backoff = TimerFired, r_exec = Ran (PReturn (Some e)), r_hold = TimerFired,
     r_state = StateHalfOpen\<rparr>"

lemma transient_round_err:
  "\<not> IsNonRetryable e \<Longrightarrow> \<not> circuit_open_error e
    \<Longrightarrow> transient e (round_err e) \<and> r_backoff (round_err e) = TimerFired"
  by (simp add: transient_def round_err_def)

theorem retry_schedule_witness:
  "retry_loop 1 0 None [round_err (ErrorString ''x''), round_ok]
      = Some ([EvExecute, EvBackoff 0, EvExecute], Success)
    \<and> retry_loop 0 0 None [round_err (ErrorString ''x''), round_err (ErrorString ''y'')]
      = Some ([EvExecute], Exhausted (ErrorString ''x''))"
proof -
  let ?e = "ErrorString ''x''"
  have t: "\<forall>(e, r)\<in>set [(?e, round_err ?e)]. transient e r \<and> r_backoff r = TimerFired"
    using transient_round_err [of ?e] by (simp add: circuit_open_error_def)
  show ?thesis
    using retry_schedule [OF t, of 1 round_ok "[]"] retry_schedule [OF t, of 0 "round_err (ErrorString ''y'')" "[]"]
    by (simp add: round_ok_def round_err_def)
qed

text \<open>
  C15: a batch is given up for the right reason only. If the loop gives it up as exhausted
  with error \<open>e\<close>, then before the decision at least \<open>MaxRetries + 1\<close> attempts reached the
  processor and failed transiently, \<open>e\<close> is the error of such an attempt, and the breaker was
  not open at the decision; rejections by the open breaker never count. If it gives it up as
  non-retryable with \<open>e\<close>, the processor returned \<open>e\<close> and \<open>e\<close> carries the marker.
\<close>

theorem given_up_for_a_reason:
  assumes "gobreaker_documented rs" and "retry_loop mx 0 None rs = Some (tr, v)"
  shows "(\<forall>e. v = Exhausted e \<longrightarrow>
       (\<exists>pre r post. rs = pre @ r # post \<and> r_state r \<noteq> StateOpen \<and> mx + 1 \<le> int (failures pre)
          \<and> (\<exists>x\<in>set pre. transient e x)))
    \<and> (\<forall>e. v = NonRetryable e \<longrightarrow>
       (\<exists>r\<in>set rs. r_exec r = Ran (PReturn (Some e)) \<and> IsNonRetryable e))"
proof (intro conjI allI impI)
  fix e assume "v = Exhausted e"
  with assms Exhausted_sound [of rs mx e] have "exhausted_by (mx + 1) None e rs"
    by (auto dest: spec [where x = "0::int"])
  then show "\<exists>pre r post. rs = pre @ r # post \<and> r_state r \<noteq> StateOpen \<and> mx + 1 \<le> int (failures pre)
          \<and> (\<exists>x\<in>set pre. transient e x)"
    by (simp add: exhausted_by_def)
next
  fix e assume "v = NonRetryable e"
  with assms(2) NonRetryable_sound [of mx rs e]
  show "\<exists>r\<in>set rs. r_exec r = Ran (PReturn (Some e)) \<and> IsNonRetryable e" by blast
qed

theorem given_up_for_a_reason_witness:
  "gobreaker_documented [round_err (ErrorString ''x''), round_ok]
    \<and> retry_loop 0 0 None [round_err (ErrorString ''x''), round_ok]
        = Some ([EvExecute], Exhausted (ErrorString ''x''))
    \<and> (\<exists>r\<in>set [round_err (ErrorString ''x''), round_ok]. transient (ErrorString ''x'') r)"
proof -
  let ?rs = "[round_err (ErrorString ''x''), round_ok]"
  have d: "gobreaker_documented ?rs" by (simp add: gobreaker_documented_def round_err_def round_ok_def)
  have r: "retry_loop 0 0 None ?rs = Some ([EvExecute], Exhausted (ErrorString ''x''))"
    by (simp add: round_err_def round_ok_def cb_request_def circuit_open_error_def)
  from given_up_for_a_reason [OF d r] obtain pre q post where
    "?rs = pre @ q # post" "\<exists>x\<in>set pre. transient (ErrorString ''x'') x" by blast
  then have "\<exists>x\<in>set ?rs. transient (ErrorString ''x'') x" by (metis UnCI set_append)
  with d r show ?thesis by blast
qed

text \<open>
  C16: the retry loop returns. While the breaker neither rejects a request nor is open,
  \<open>MaxRetries + 2\<close> rounds are enough for a verdict, whatever the processor and the context do;
  and with \<open>MaxRetries \<ge> 0\<close> the loop never dereferences an unset last error, however long the
  circuit stays open.
\<close>

theorem retry_loop_returns:
  assumes "0 \<le> mx"
  shows "((\<forall>r\<in>set rs. circuit_quiet r) \<and> mx + 2 \<le> int (length rs)
       \<longrightarrow> (\<exists>tr v. retry_loop mx 0 None rs = Some (tr, v)))
    \<and> retry_loop mx 0 None rs' \<noteq> Some (tr, Panicked NilDereference)"
proof (intro conjI impI)
  assume "(\<forall>r\<in>set rs. circuit_quiet r) \<and> mx + 2 \<le> int (length rs)"
  moreover from this assms have "rs \<noteq> []" by auto
  ultimately have "retry_loop mx 0 None rs \<noteq> None" using retry_loop_ends [of rs mx 0 None] by simp
  then show "\<exists>tr v. retry_loop mx 0 None rs = Some (tr, v)" by auto
next
  show "retry_loop mx 0 None rs' \<noteq> Some (tr, Panicked NilDereference)"
    using no_nil_error [OF assms, of rs'] assms by auto
qed

theorem retry_loop_returns_witness:
  "(0::int) \<le> 1 \<and> (\<exists>tr v. retry_loop 1 0 None [round_err (ErrorString ''x''), round_err (ErrorString ''y''),
       round_ok] = Some (tr, v))"
  using retry_loop_returns [of 1 "[round_err (ErrorString ''x''), round_err (ErrorString ''y''), round_ok]"]
  by (simp add: circuit_quiet_def round_err_def round_ok_def circuit_open_error_def)

text \<open>
  C20: an open circuit costs no attempt and never sends a batch to the dead letter queue, whenever
  it opens. After any failures \<open>fs\<close> that leave an attempt, any number of rounds that look like an
  open circuit are the same attempt over and over: the loop goes on with the attempt and the
  last error it had, so the verdict is as if these rounds had not been, and while there are
  only such rounds the batch is held. The same is true at any attempt of the loop with any last
  error. Rounds that look like an open circuit include those in which the breaker let the
  request through and the processor's own error wraps one of gobreaker's rejection errors: such
  a batch is retried for ever.
\<close>

theorem open_circuit_holds:
  assumes "\<forall>(e, r)\<in>set fs. transient e r \<and> r_backoff r = TimerFired" and "int (length fs) \<le> mx"
    and "\<forall>r\<in>set hs. held_round r"
  shows "retry_loop mx 0 None (map snd fs @ hs @ rs)
      = logged (attempt_log 0 (length fs) @ hold_log (int (length fs)) (length hs))
          (retry_loop mx (int (length fs)) (if fs = [] then None else Some (fst (last fs))) rs)
    \<and> map_option snd (retry_loop mx 0 None (map snd fs @ hs @ rs))
      = map_option snd (retry_loop mx 0 None (map snd fs @ rs))
    \<and> retry_loop mx 0 None (map snd fs @ hs) = None
    \<and> (a \<le> mx \<longrightarrow> map_option snd (retry_loop mx a le (hs @ rs)) = map_option snd (retry_loop mx a le rs))
    \<and> (circuit_open_error e \<and> \<not> IsNonRetryable e
        \<longrightarrow> retry_loop mx 0 None (replicate n (round_err e)) = None)"
proof -
  let ?a = "int (length fs)" and ?le = "if fs = [] then None else Some (fst (last fs))"
  have snd_logged: "map_option snd (logged tr x) = map_option snd x" for tr and x :: "(loop_event list \<times> verdict) option"
    by (cases x) (auto simp: logged_def)
  have fails: "retry_loop mx 0 None (map snd fs @ xs) = logged (attempt_log 0 (length fs)) (retry_loop mx ?a ?le xs)" for xs
    using retry_loop_transients [OF assms(1), of 0 mx None xs] assms(2) by simp
  have held: "retry_loop mx ?a ?le (hs @ xs) = logged (hold_log ?a (length hs)) (retry_loop mx ?a ?le xs)" for xs
    by (rule retry_loop_held_all [OF assms(2,3)])
  have "held_round (round_err e)" if "circuit_open_error e \<and> \<not> IsNonRetryable e"
    using that by (auto simp: held_round_def round_err_def)
  then have "retry_loop mx 0 None (replicate n (round_err e)) = None" if "circuit_open_error e \<and> \<not> IsNonRetryable e"
    using that assms(2) retry_loop_held_all [of 0 mx "replicate n (round_err e)" None "[]"] by simp
  then show ?thesis
    using held [of rs] held [of "[]"] retry_loop_held_all [OF _ assms(3), of a mx le rs]
    by (auto simp: fails snd_logged)
qed

theorem open_circuit_holds_witness:
  "retry_loop 3 0 None ([round_err (ErrorString ''x'')] @ [round_err (Wrapped ''upstream: '' (Sentinel ErrOpenState))]
       @ [round_ok])
     = Some ([EvExecute, EvBackoff 0, EvExecute, EvHold 1, EvBackoff 0, EvExecute], Success)
   \<and> retry_loop 3 0 None (replicate 1000 (round_err (Wrapped ''upstream: '' (Sentinel ErrOpenState)))) = None"
proof -
  let ?e = "Wrapped ''upstream: '' (Sentinel ErrOpenState)" and ?x = "ErrorString ''x''"
  have h: "held_round (round_err ?e)" and e: "circuit_open_error ?e \<and> \<not> IsNonRetryable ?e"
    by (auto simp: held_round_def round_err_def circuit_open_error_def)
  have "transient ?x (round_err ?x) \<and> r_backoff (round_err ?x) = TimerFired"
    by (simp add: transient_def round_err_def circuit_open_error_def)
  with open_circuit_holds [of "[(?x, round_err ?x)]" 3 "[round_err ?e]" "[round_ok]" 0 None ?e 1000] h e
  show ?thesis by (simp add: round_ok_def logged_def cb_request_def)
qed

text \<open>
  C21: what processing does to the dispatcher. An abandoned batch changes nothing, so it is
  never reported as committable. A settled batch is completed at the coordinator, whose
  report for its partition is then one more than its highest offset, it is counted under its
  status, taken off the in-flight gauge, and the waiting partitions are dispatched. A given
  up batch is completed in just the same way when no dead-letter producer is configured or
  when producing to the dead letter queue failed: only the counter of dead letters differs.
\<close>

theorem process_batch_effects:
  assumes wf: "coord_wf (d_coordinator d)"
    and fl: "coord_view (d_coordinator d) p = InFlight m" and b: "p = b_partition b" "m = b_maxOffset b"
    and run: "retry_loop (dc_MaxRetries (d_cfg d)) 0 None rounds = Some (tr, v)"
  shows "(v = Abandoned \<longrightarrow> processBatch dlq ord start now rounds b d = Some (Inr d))
    \<and> (v = Panicked pan \<longrightarrow> processBatch dlq ord start now rounds b d = Some (Inl pan))
    \<and> (v \<in> {Success, NonRetryable e, Exhausted e} \<longrightarrow>
        (let status = (case v of Success \<Rightarrow> StatusSuccess | NonRetryable _ \<Rightarrow> StatusNonRetryable
                         | _ \<Rightarrow> StatusRetriesExhausted);
             accepted = (v \<noteq> Success \<and> (\<exists>f. dlq = Some f \<and> f (b_messages b) e = None));
             n = int (length (b_messages b))
         in \<exists>d1. processBatch dlq ord start now rounds b d = Some (onBatchDone ord p d1)
          \<and> fmlookup (Committable (d_coordinator d1)) p = Some (m + 1)
          \<and> d_partitions d1 = d_partitions d \<and> d_batchCh d1 = d_batchCh d
          \<and> dm_MessagesProcessed (d_m d1) status p = dm_MessagesProcessed (d_m d) status p + n
          \<and> dm_InflightMessages (d_m d1) p = dm_InflightMessages (d_m d) p - n
          \<and> dm_DLQMessages (d_m d1) status p
              = dm_DLQMessages (d_m d) status p + (if accepted then n else 0)))"
proof -
  have s: "\<exists>d1. settle ord b start now status (d\<lparr>d_m := mm\<rparr>) = onBatchDone ord p d1
      \<and> fmlookup (Committable (d_coordinator d1)) p = Some (m + 1)
      \<and> d_partitions d1 = d_partitions d \<and> d_batchCh d1 = d_batchCh d
      \<and> d_m d1 = recordBatchMetrics b start now status mm" for status mm
  proof -
    have "coord_wf (d_coordinator (d\<lparr>d_m := mm\<rparr>))"
      "coord_view (d_coordinator (d\<lparr>d_m := mm\<rparr>)) (b_partition b) = InFlight (b_maxOffset b)"
      using wf fl b by simp_all
    from complete_commits [OF this, of ord start now status] show ?thesis
      by (auto simp: b oc.lookup_committable spec_committable_def)
  qed
  have s0: "\<exists>d1. settle ord b start now StatusSuccess d = onBatchDone ord p d1
      \<and> fmlookup (Committable (d_coordinator d1)) p = Some (m + 1)
      \<and> d_partitions d1 = d_partitions d \<and> d_batchCh d1 = d_batchCh d
      \<and> d_m d1 = recordBatchMetrics b start now StatusSuccess (d_m d)"
    using s [of StatusSuccess "d_m d"] by simp
  show ?thesis
  proof (cases v)
    case Success
    with run s0 show ?thesis
      by (auto simp: processBatch_def recordBatchMetrics_def Let_def b)
  next
    case (NonRetryable x)
    with run s [of StatusNonRetryable "sendToDLQ dlq b x StatusNonRetryable (d_m d)"] show ?thesis
      by (auto simp: processBatch_def recordBatchMetrics_def sendToDLQ_def Let_def b
          split: option.splits)
  next
    case (Exhausted x)
    with run s [of StatusRetriesExhausted "sendToDLQ dlq b x StatusRetriesExhausted (d_m d)"] show ?thesis
      by (auto simp: processBatch_def recordBatchMetrics_def sendToDLQ_def Let_def b
          split: option.splits)
  qed (use run in \<open>simp_all add: processBatch_def\<close>)
qed

theorem process_batch_effects_witness:
  "\<exists>d b d1. coord_view (d_coordinator d) 0 = InFlight 5
     \<and> processBatch None [] 0 1 [round_err (ErrorString ''x''), round_ok] b d = Some (onBatchDone [] 0 d1)
     \<and> fmlookup (Committable (d_coordinator d1)) 0 = Some 6"
proof -
  let ?st = "\<lparr>ps_maxOffset = 5, ps_inFlight = True, ps_completed = False\<rparr>"
  let ?d = "\<lparr>d_cfg = DefaultDispatcherConfig\<lparr>dc_MaxRetries := 0\<rparr>,
     d_coordinator = \<lparr>co_partitions = fmupd 0 ?st fmempty\<rparr>, d_batchCh = [], d_batchChClosed = False,
     d_readyCh = False, d_circuitStateCh = [], d_partitions = fmempty, d_closed = False,
     d_workers = 1, d_timers = [], d_nextTimer = 0, d_m = NewDispatcherMetrics\<rparr>"
  let ?b = "\<lparr>b_partition = 0, b_maxOffset = 5, b_messages = []\<rparr>"
  have wf: "coord_wf (d_coordinator ?d)" by (simp add: coord_wf_def fmpred_upd)
  have fl: "coord_view (d_coordinator ?d) 0 = InFlight 5" by (simp add: coord_view_def)
  have run: "retry_loop (dc_MaxRetries (d_cfg ?d)) 0 None [round_err (ErrorString ''x''), round_ok]
      = Some ([EvExecute], Exhausted (ErrorString ''x''))"
    by (simp add: round_err_def round_ok_def cb_request_def circuit_open_error_def)
  have "\<exists>d1. processBatch None [] 0 1 [round_err (ErrorString ''x''), round_ok] ?b ?d
        = Some (onBatchDone [] 0 d1)
      \<and> fmlookup (Committable (d_coordinator d1)) 0 = Some 6"
    using process_batch_effects [OF wf fl _ _ run, of ?b None "[]" 0 1 _ "ErrorString ''x''"]
    by (auto simp: Let_def)
  with fl show ?thesis by blast
qed

end
