(* ===== verification/Dispatcher_Concurrency.thy ===== *)
theory Dispatcher_Concurrency
  imports Batch_Protocol Batch_Processing
begin

text \<open>
  The goroutines around one unordered dispatcher, interleaved: the poll loop that calls
  \<open>Send\<close>, \<open>OnPartitionsAssigned\<close>, \<open>OnPartitionsRevoked\<close>, \<open>Close\<close> and the coordinator's
  \<open>Reset\<close>, one at a time; the worker pool; and the callbacks of the linger timers. A step of
  the system is one stretch of code that runs under a lock, or one channel or coordinator
  operation; the stretches are those of \<open>Unordered_Dispatcher\<close>. A goroutine is the position it
  has reached, \<open>thread\<close>.

  \<open>sys_step\<close> is a function of the state and of a label that says which goroutine moves and
  what the environment answers, so that schedules can be executed. A panic ends its
  goroutine and is recorded. A worker recovers and cancels the root context; a linger callback
  and the poll loop have no \<open>recover\<close>, so their panic ends the process: \<open>s_crash\<close> holds it and
  no goroutine takes a step any more. The fields
  \<open>s_accepted\<close>, \<open>s_sent\<close>, \<open>s_done\<close> and \<open>s_rejected\<close> are histories that the code does not have:
  the messages \<open>Send\<close> accepted, those of them that no revocation has discarded from the
  buffer, the messages of settled batches, and the partitions whose batch met a full channel.
\<close>

subsection \<open>Goroutines\<close>

text \<open>Who waits for the result of \<open>tryDispatch\<close>: \<open>Send\<close>, the timer callback, or the loop of \<open>onBatchDone\<close>.\<close>

datatype cont = C_Poll | C_Timer | C_Pending "int32 list"

datatype thread =
    P_Idle
  | P_Closed
  | T_Try int32 cont
  | T_Linger int32
  | T_Flush int32
  | T_Check batch cont
  | T_Track batch cont
  | T_SendCh batch cont
  | T_Undo batch cont
  | T_PutBack batch cont
  | W_Idle
  | W_Run batch
  | W_Complete batch
  | W_Done batch
  | W_Signal "int32 list"

record sys =
  s_disp :: dispatcher
  s_threads :: "thread list"
  s_cancelled :: bool
  s_panics :: "panic list"
  s_crash :: "panic option"
  s_sent :: "int32 \<Rightarrow> message list"
  s_done :: "int32 \<Rightarrow> message list"
  s_accepted :: "int32 \<Rightarrow> message list"
  s_rejected :: "int32 set"

text \<open>Where the caller of \<open>tryDispatch\<close> goes on; the loop of \<open>onBatchDone\<close> stops at an error.\<close>

fun resume :: "cont \<Rightarrow> go_error option \<Rightarrow> thread list" where
  "resume C_Poll err = [P_Idle]"
| "resume C_Timer err = []"
| "resume (C_Pending ps) (Some err) = [W_Idle]"
| "resume (C_Pending []) None = [W_Idle]"
| "resume (C_Pending (p # ps)) None = [T_Try p (C_Pending ps)]"

text \<open>The next step of a goroutine whose step does not depend on the environment.\<close>

fun thread_step :: "int32 list \<Rightarrow> thread \<Rightarrow> dispatcher \<Rightarrow> (panic + (thread list \<times> dispatcher)) option"
where
  "thread_step ord (T_Try p k) d =
     Some (go_bind (try_region p d) (\<lambda>(ob, d').
       Inr (case ob of None \<Rightarrow> resume k None | Some b \<Rightarrow> [T_Check b k], d')))"
| "thread_step ord (T_Linger p) d = Some (Inr ([T_Flush p], linger_region p d))"
| "thread_step ord (T_Flush p) d =
     Some (go_bind (flush_region p d) (\<lambda>(ob, d').
       Inr (case ob of None \<Rightarrow> [] | Some b \<Rightarrow> [T_Check b C_Timer], d')))"
| "thread_step ord (T_Check b k) d =
     Some (Inr (if d_closed d then resume k (Some errClosed) else [T_Track b k], d))"
| "thread_step ord (T_Track b k) d =
     Some (go_bind (track b d) (\<lambda>d'. Inr ([T_SendCh b k], d')))"
| "thread_step ord (T_SendCh b k) d =
     Some (go_bind (chan_send b d) (\<lambda>(sent, d').
       Inr (if sent then resume k None else [T_Undo b k], d')))"
| "thread_step ord (T_Undo b k) d =
     Some (go_bind (complete b d) (\<lambda>d'. Inr ([T_PutBack b k], d')))"
| "thread_step ord (T_PutBack b k) d =
     Some (go_bind (put_back b d) (\<lambda>d'. Inr (resume k (Some (Sentinel ErrBackpressure)), d')))"
| "thread_step ord (W_Complete b) d =
     Some (go_bind (complete b d) (\<lambda>d'. Inr ([W_Done b], d')))"
| "thread_step ord (W_Done b) d =
     Some (Inr (let (pending, d') = done_region ord (b_partition b) d in ([W_Signal pending], d')))"
| "thread_step ord (W_Signal ps) d = Some (Inr (resume (C_Pending ps) None, signal_ready d))"
| "thread_step ord _ d = None"

text \<open>The calls of the poll loop.\<close>

datatype call =
    CSend int32 "message list"
  | CAssign "partition list"
  | CRevoke "partition list"
  | CReset int32
  | CClose "int32 list"

fun call_step :: "call \<Rightarrow> dispatcher \<Rightarrow> panic + (thread list \<times> dispatcher)" where
  "call_step (CSend p msgs) d =
     go_bind (send_region p msgs d) (\<lambda>(err, d').
       Inr (case err of None \<Rightarrow> [T_Try p C_Poll] | Some _ \<Rightarrow> [P_Idle], d'))"
| "call_step (CAssign ps) d = go_bind (OnPartitionsAssigned ps d) (\<lambda>d'. Inr ([P_Idle], d'))"
| "call_step (CRevoke ps) d = Inr ([P_Idle], OnPartitionsRevoked ps d)"
| "call_step (CReset p) d = Inr ([P_Idle], d\<lparr>d_coordinator := Reset p (d_coordinator d)\<rparr>)"
| "call_step (CClose ord) d = go_bind (close_region ord d) (\<lambda>d'. Inr ([P_Closed], d'))"

subsection \<open>Steps of the system\<close>

datatype label =
    Act nat "int32 list"
  | Call nat call
  | Take nat
  | Exit nat
  | Process nat "round list" int int "(message list \<Rightarrow> go_error \<Rightarrow> go_error option) option"
  | Fire nat
  | Cancel

text \<open>A goroutine is replaced by what it becomes.\<close>

definition replace_thread :: "nat \<Rightarrow> thread list \<Rightarrow> sys \<Rightarrow> sys" where
  "replace_thread i ts s = s\<lparr>s_threads := take i (s_threads s) @ ts @ drop (Suc i) (s_threads s)\<rparr>"

fun is_worker :: "thread \<Rightarrow> bool" where
  "is_worker (T_Try p (C_Pending ps)) = True"
| "is_worker (T_Check b (C_Pending ps)) = True"
| "is_worker (T_Track b (C_Pending ps)) = True"
| "is_worker (T_SendCh b (C_Pending ps)) = True"
| "is_worker (T_Undo b (C_Pending ps)) = True"
| "is_worker (T_PutBack b (C_Pending ps)) = True"
| "is_worker (W_Run b) = True"
| "is_worker (W_Complete b) = True"
| "is_worker _ = False"

text \<open>
  A panic of goroutine \<open>i\<close>. The deferred function of \<open>worker\<close> recovers it, cancels the root
  context and leaves the pool; any other goroutine takes the process down.
\<close>

definition panic_at :: "nat \<Rightarrow> panic \<Rightarrow> sys \<Rightarrow> sys" where
  "panic_at i e s = (replace_thread i [] s)\<lparr>s_panics := s_panics s @ [e],
     s_crash := (if is_worker (s_threads s ! i) then s_crash s else Some e),
     s_cancelled := s_cancelled s \<or> is_worker (s_threads s ! i),
     s_disp := (s_disp s)\<lparr>d_workers :=
       d_workers (s_disp s) - (if is_worker (s_threads s ! i) then 1 else 0)\<rparr>\<rparr>"

fun note_sent :: "call \<Rightarrow> thread list \<Rightarrow> sys \<Rightarrow> sys" where
  "note_sent (CSend p msgs) ts s =
     (if ts = [P_Idle] then s
      else s\<lparr>s_sent := (s_sent s)(p := s_sent s p @ msgs),
             s_accepted := (s_accepted s)(p := s_accepted s p @ msgs)\<rparr>)"
| "note_sent (CRevoke ps) ts s =
     s\<lparr>s_sent := (\<lambda>p. if p \<in> p_Partition ` set ps
                     then without_tail (buffered p (s_disp s)) (s_sent s p) else s_sent s p)\<rparr>"
| "note_sent _ ts s = s"

fun note_rejected :: "thread \<Rightarrow> sys \<Rightarrow> sys" where
  "note_rejected (T_Undo b k) s = s\<lparr>s_rejected := insert (b_partition b) (s_rejected s)\<rparr>"
| "note_rejected _ s = s"

text \<open>The metrics a verdict records before the batch is completed.\<close>

fun verdict_metrics ::
  "(message list \<Rightarrow> go_error \<Rightarrow> go_error option) option \<Rightarrow> batch \<Rightarrow> int \<Rightarrow> int \<Rightarrow> verdict
    \<Rightarrow> dispatcher_metrics \<Rightarrow> dispatcher_metrics"
where
  "verdict_metrics dlq b start now Success m = recordBatchMetrics b start now StatusSuccess m"
| "verdict_metrics dlq b start now (NonRetryable e) m =
     recordBatchMetrics b start now StatusNonRetryable (sendToDLQ dlq b e StatusNonRetryable m)"
| "verdict_metrics dlq b start now (Exhausted e) m =
     recordBatchMetrics b start now StatusRetriesExhausted (sendToDLQ dlq b e StatusRetriesExhausted m)"
| "verdict_metrics dlq b start now _ m = m"

definition run_step ::
  "nat \<Rightarrow> batch \<Rightarrow> round list \<Rightarrow> int \<Rightarrow> int \<Rightarrow> (message list \<Rightarrow> go_error \<Rightarrow> go_error option) option
    \<Rightarrow> sys \<Rightarrow> sys option"
where
  "run_step i b rounds start now dlq s =
     (case retry_loop (dc_MaxRetries (d_cfg (s_disp s))) 0 None rounds of
        None \<Rightarrow> None
      | Some (_, Abandoned) \<Rightarrow> if s_cancelled s then Some (replace_thread i [W_Idle] s) else None
      | Some (_, Panicked e) \<Rightarrow> Some (panic_at i e s)
      | Some (_, v) \<Rightarrow>
          Some ((replace_thread i [W_Complete b] s)
            \<lparr>s_disp := (s_disp s)\<lparr>d_m := verdict_metrics dlq b start now v (d_m (s_disp s))\<rparr>,
             s_done := (s_done s)(b_partition b := s_done s (b_partition b) @ b_messages b)\<rparr>))"

text \<open>A step of a process that is still alive.\<close>

fun live_step :: "label \<Rightarrow> sys \<Rightarrow> sys option" where
  "live_step (Act i ord) s =
     (if i < length (s_threads s) then
        (case thread_step ord (s_threads s ! i) (s_disp s) of
           None \<Rightarrow> None
         | Some (Inl e) \<Rightarrow> Some (panic_at i e s)
         | Some (Inr (ts, d)) \<Rightarrow>
             Some ((note_rejected (s_threads s ! i) (replace_thread i ts s))\<lparr>s_disp := d\<rparr>))
      else None)"
| "live_step (Call i c) s =
     (if i < length (s_threads s) \<and> s_threads s ! i = P_Idle then
        (case call_step c (s_disp s) of
           Inl e \<Rightarrow> Some (panic_at i e s)
         | Inr (ts, d) \<Rightarrow> Some ((note_sent c ts (replace_thread i ts s))\<lparr>s_disp := d\<rparr>))
      else None)"
| "live_step (Take i) s =
     (if i < length (s_threads s) \<and> s_threads s ! i = W_Idle then
        (case d_batchCh (s_disp s) of
           [] \<Rightarrow> None
         | b # bs \<Rightarrow> Some ((replace_thread i [W_Run b] s)\<lparr>s_disp := (s_disp s)\<lparr>d_batchCh := bs\<rparr>\<rparr>))
      else None)"
| "live_step (Exit i) s =
     (if i < length (s_threads s) \<and> s_threads s ! i = W_Idle
         \<and> d_batchCh (s_disp s) = [] \<and> d_batchChClosed (s_disp s)
      then Some ((replace_thread i [] s)
             \<lparr>s_disp := (s_disp s)\<lparr>d_workers := d_workers (s_disp s) - 1\<rparr>\<rparr>)
      else None)"
| "live_step (Process i rounds start now dlq) s =
     (if i < length (s_threads s) then
        (case s_threads s ! i of W_Run b \<Rightarrow> run_step i b rounds start now dlq s | _ \<Rightarrow> None)
      else None)"
| "live_step (Fire j) s =
     (if j < length (d_timers (s_disp s)) then
        (let (n, p) = d_timers (s_disp s) ! j
         in Some (s\<lparr>s_threads := s_threads s @ [T_Linger p],
                s_disp := (s_disp s)\<lparr>d_timers := take j (d_timers (s_disp s))
                                                  @ drop (Suc j) (d_timers (s_disp s))\<rparr>\<rparr>))
      else None)"
| "live_step Cancel s = Some (s\<lparr>s_cancelled := True\<rparr>)"

text \<open>A process that an unrecovered panic has ended takes no step.\<close>

definition sys_step :: "label \<Rightarrow> sys \<Rightarrow> sys option" where
  "sys_step l s = (if s_crash s = None then live_step l s else None)"

lemma sys_step_Some: "sys_step l s = Some t \<longleftrightarrow> s_crash s = None \<and> live_step l s = Some t"
  by (simp add: sys_step_def)

lemmas sys_step_simps [simp] =
  sys_step_Some [of "Act i ord"] sys_step_Some [of "Call i c"] sys_step_Some [of "Take i"]
  sys_step_Some [of "Exit i"] sys_step_Some [of "Process i rounds start now dlq"]
  sys_step_Some [of "Fire j"] sys_step_Some [of Cancel] for i ord c rounds start now dlq j

lemma crashed_stuck: "s_crash s = Some e \<Longrightarrow> sys_step l s = None"
  by (simp add: sys_step_def)

text \<open>\<open>Start\<close> launches the workers; the poll loop is the first goroutine.\<close>

definition sys_of :: "dispatcher \<Rightarrow> sys" where
  "sys_of d = \<lparr>s_disp = Start d, s_threads = P_Idle # replicate (nat (dc_WorkerCount (d_cfg d))) W_Idle,
     s_cancelled = False, s_panics = [], s_crash = None, s_sent = (\<lambda>_. []), s_done = (\<lambda>_. []),
     s_accepted = (\<lambda>_. []), s_rejected = {}\<rparr>"

definition sys_start :: "config \<Rightarrow> sys option" where
  "sys_start cfg =
     (case NewUnorderedDispatcher cfg (Some ()) (Some NewCoordinator) (Some NewDispatcherMetrics) of
        Inr (Inr d) \<Rightarrow> Some (sys_of d)
      | _ \<Rightarrow> None)"

text \<open>Runs of a dispatcher that was configured with positive batch size and non-negative retries.\<close>

definition sys_init :: "sys \<Rightarrow> bool" where
  "sys_init s \<longleftrightarrow> (\<exists>cfg. 0 < dc_BatchSize cfg \<and> 0 \<le> dc_MaxRetries cfg \<and> sys_start cfg = Some s)"

definition sys_next :: "sys \<Rightarrow> sys \<Rightarrow> bool" where
  "sys_next s t \<longleftrightarrow> (\<exists>l. sys_step l s = Some t)"

interpretation sy: transition_system sys_init sys_next .

text \<open>A schedule, executed.\<close>

fun run :: "label list \<Rightarrow> sys \<Rightarrow> sys option" where
  "run [] s = Some s"
| "run (l # ls) s = (case sys_step l s of None \<Rightarrow> None | Some t \<Rightarrow> run ls t)"

lemma run_reach: "sy.reach s \<Longrightarrow> run ls s = Some t \<Longrightarrow> sy.reach t"
proof (induction ls arbitrary: s)
  case (Cons l ls)
  then obtain s' where s': "sys_step l s = Some s'" "run ls s' = Some t"
    by (auto split: option.splits)
  from s'(1) have "sys_next s s'" unfolding sys_next_def by blast
  with Cons.prems(1) have "sy.reach s'" by (rule sy.reach_step)
  from this s'(2) show ?case by (rule Cons.IH)
qed simp

subsection \<open>The system as a run of the protocol\<close>

fun held :: "thread \<Rightarrow> (stage \<times> batch) multiset" where
  "held (T_Check b k) = {#(Untracked, b)#}"
| "held (T_Track b k) = {#(Untracked, b)#}"
| "held (T_SendCh b k) = {#(Tracked, b)#}"
| "held (T_Undo b k) = {#(Tracked, b)#}"
| "held (T_PutBack b k) = {#(Finished, b)#}"
| "held (W_Run b) = {#(Tracked, b)#}"
| "held (W_Complete b) = {#(Settled, b)#}"
| "held (W_Done b) = {#(Finished, b)#}"
| "held _ = {#}"

definition held_all :: "thread list \<Rightarrow> (stage \<times> batch) multiset" where
  "held_all ts = sum_list (map held ts)"

definition queued :: "dispatcher \<Rightarrow> (stage \<times> batch) multiset" where
  "queued d = image_mset (Pair Tracked) (mset (d_batchCh d))"

definition abs_of :: "sys \<Rightarrow> proto" where
  "abs_of s = \<lparr>a_tok = held_all (s_threads s) + queued (s_disp s),
     a_view = coord_view (d_coordinator (s_disp s)),
     a_infl = (\<lambda>p. in_flight p (s_disp s)), a_buf = (\<lambda>p. buffered p (s_disp s)),
     a_sent = s_sent s, a_done = s_done s, a_accepted = s_accepted s, a_rejected = s_rejected s\<rparr>"

text \<open>The panics that can occur: the send on a closed channel, and the processor's own.\<close>

definition allowed_panic :: "panic \<Rightarrow> bool" where
  "allowed_panic e \<longleftrightarrow> e = SendOnClosedChannel \<or> (\<exists>v. e = ProcessorPanic v)"

definition sys_inv :: "sys \<Rightarrow> bool" where
  "sys_inv s \<longleftrightarrow> 0 < dc_BatchSize (d_cfg (s_disp s)) \<and> 0 \<le> dc_MaxRetries (d_cfg (s_disp s))
     \<and> coord_wf (d_coordinator (s_disp s))
     \<and> (\<forall>b k. T_PutBack b k \<in> set (s_threads s) \<longrightarrow> b_partition b \<in> s_rejected s)
     \<and> (\<forall>e\<in>set (s_panics s). allowed_panic e)"

lemma held_all_simps [simp]:
  "held_all [] = {#}" "held_all (t # ts) = held t + held_all ts"
  "held_all (ts @ us) = held_all ts + held_all us"
  by (simp_all add: held_all_def)

lemma held_all_replicate [simp]: "held_all (replicate n W_Idle) = {#}"
  by (induction n) simp_all

lemma held_all_resume [simp]: "held_all (resume k e) = {#}"
  by (cases "(k, e)" rule: resume.cases) simp_all

lemma PutBack_not_resume [simp]: "T_PutBack b k' \<notin> set (resume k e)"
  by (cases "(k, e)" rule: resume.cases) simp_all

lemma thread_split:
  assumes "i < length (s_threads s)"
  obtains pre post where "s_threads s = pre @ s_threads s ! i # post"
    and "\<And>ts. s_threads (replace_thread i ts s) = pre @ ts @ post"
    and "\<And>ts. replace_thread i ts s = s\<lparr>s_threads := pre @ ts @ post\<rparr>"
proof (rule that)
  show "s_threads s = take i (s_threads s) @ s_threads s ! i # drop (Suc i) (s_threads s)"
    using assms by (rule id_take_nth_drop)
qed (simp_all add: replace_thread_def)

lemma queued_simps [simp]:
  "queued (d\<lparr>d_coordinator := c\<rparr>) = queued d" "queued (d\<lparr>d_m := m\<rparr>) = queued d"
  "queued (d\<lparr>d_timers := ti\<rparr>) = queued d" "queued (d\<lparr>d_workers := w\<rparr>) = queued d"
  by (simp_all add: queued_def)

lemma buffer_views_upd [simp]:
  "in_flight p (d\<lparr>d_coordinator := c\<rparr>) = in_flight p d" "buffered p (d\<lparr>d_coordinator := c\<rparr>) = buffered p d"
  "in_flight p (d\<lparr>d_m := m\<rparr>) = in_flight p d" "buffered p (d\<lparr>d_m := m\<rparr>) = buffered p d"
  "in_flight p (d\<lparr>d_timers := ti\<rparr>) = in_flight p d" "buffered p (d\<lparr>d_timers := ti\<rparr>) = buffered p d"
  "in_flight p (d\<lparr>d_workers := w\<rparr>) = in_flight p d" "buffered p (d\<lparr>d_workers := w\<rparr>) = buffered p d"
  "in_flight p (d\<lparr>d_batchCh := ch\<rparr>) = in_flight p d" "buffered p (d\<lparr>d_batchCh := ch\<rparr>) = buffered p d"
  "in_flight p (d\<lparr>d_closed := f\<rparr>) = in_flight p d" "buffered p (d\<lparr>d_closed := f\<rparr>) = buffered p d"
  "in_flight p (d\<lparr>d_batchChClosed := f\<rparr>) = in_flight p d"
  "buffered p (d\<lparr>d_batchChClosed := f\<rparr>) = buffered p d"
  by (simp_all add: buffer_views)

text \<open>What the stretches do to the views, as functions of the partition.\<close>

lemma taken_views:
  assumes "taken p d d'"
  shows "(\<lambda>q. in_flight q d') = (\<lambda>q. in_flight q d)(p := True)"
    and "(\<lambda>q. buffered q d') = (\<lambda>q. buffered q d)(p := drop (batch_size d) (buffered p d))"
    and "queued d' = queued d" and "d_coordinator d' = d_coordinator d" and "d_cfg d' = d_cfg d"
  using takenD [OF assms] only_bufferD [OF takenD(1) [OF assms]]
  by (auto simp: fun_eq_iff queued_def)

lemma only_buffer_views:
  assumes "only_buffer p d d'" and "in_flight p d' = in_flight p d" and "buffered p d' = buffered p d"
  shows "(\<lambda>q. in_flight q d') = (\<lambda>q. in_flight q d)" and "(\<lambda>q. buffered q d') = (\<lambda>q. buffered q d)"
    and "queued d' = queued d" and "d_coordinator d' = d_coordinator d" and "d_cfg d' = d_cfg d"
  using only_bufferD [OF assms(1)] assms(2,3) by (auto simp: fun_eq_iff queued_def) metis+

lemma put_back_views:
  assumes "put_back b d = Inr d'"
  shows "(\<lambda>q. in_flight q d') = (\<lambda>q. in_flight q d)(b_partition b := False)"
    and "(\<lambda>q. buffered q d') = (\<lambda>q. buffered q d)(b_partition b := b_messages b @ buffered (b_partition b) d)"
    and "queued d' = queued d" and "d_coordinator d' = d_coordinator d" and "d_cfg d' = d_cfg d"
  using assms
  by (auto simp: put_back_def fun_eq_iff buffer_views queued_def frame_simps split: option.splits)

lemma set_inFlight_views:
  "(\<lambda>q. in_flight q (set_inFlight p False d)) = (\<lambda>q. in_flight q d)(p := False)"
  "(\<lambda>q. buffered q (set_inFlight p False d)) = (\<lambda>q. buffered q d)"
  by (auto simp: fun_eq_iff buffer_views split: option.splits)

lemma linger_region_views:
  "in_flight q (linger_region p d) = in_flight q d" "buffered q (linger_region p d) = buffered q d"
  "queued (linger_region p d) = queued d" "d_coordinator (linger_region p d) = d_coordinator d"
  "d_cfg (linger_region p d) = d_cfg d"
  by (auto simp: linger_region_def buffer_views queued_def frame_simps split: option.split)

lemma in_flight_lookup: "in_flight p d \<Longrightarrow> \<exists>pb. fmlookup (d_partitions d) p = Some pb"
  by (auto simp: in_flight_def split: option.splits)

text \<open>The coordinator's answers in terms of the view.\<close>

lemma track_view:
  assumes "coord_wf (d_coordinator d)" and "track b d = Inr d'"
  shows "\<exists>c. d' = d\<lparr>d_coordinator := c\<rparr> \<and> coord_wf c
    \<and> coord_view c = (coord_view (d_coordinator d))(b_partition b := InFlight (b_maxOffset b))"
  using oc.dispatched_cases [OF assms(1), of "b_partition b" "b_maxOffset b"] assms(2)
  by (auto simp: track_def)

lemma complete_view:
  assumes "coord_wf (d_coordinator d)"
    and "coord_view (d_coordinator d) (b_partition b) \<in> {Idle, InFlight (b_maxOffset b)}"
  shows "\<exists>c. complete b d = Inr (d\<lparr>d_coordinator := c\<rparr>) \<and> coord_wf c
    \<and> coord_view c = (coord_view (d_coordinator d))
        (b_partition b := finish_slot (b_maxOffset b) (coord_view (d_coordinator d) (b_partition b)))"
proof -
  obtain c where "BatchComplete (b_partition b) (b_maxOffset b) (d_coordinator d) = Inr c" "coord_wf c"
    "coord_view c = (case coord_view (d_coordinator d) (b_partition b) of
        Idle \<Rightarrow> coord_view (d_coordinator d)
      | _ \<Rightarrow> (coord_view (d_coordinator d))(b_partition b := Completed (b_maxOffset b)))"
    using oc.complete_no_panic [OF assms(1), of "b_partition b" "b_maxOffset b"] assms(2) by auto
  then show ?thesis
    using assms(2)
    by (intro exI [where x = c]) (auto simp: complete_def fun_upd_idem)
qed

lemma sys_invD:
  assumes "sys_inv s"
  shows "0 < dc_BatchSize (d_cfg (s_disp s))" "0 \<le> dc_MaxRetries (d_cfg (s_disp s))"
    "coord_wf (d_coordinator (s_disp s))"
    "T_PutBack b k \<in> set (s_threads s) \<Longrightarrow> b_partition b \<in> s_rejected s"
    "e \<in> set (s_panics s) \<Longrightarrow> allowed_panic e"
  using assms by (auto simp: sys_inv_def)

text \<open>
  The state in which goroutine \<open>i\<close> stands at \<open>t\<close>, and the tokens of the others.
\<close>

lemma token_at:
  assumes "s_threads s = pre @ t # post" and "held t = {#(st, b)#}"
  shows "a_tok (abs_of s) = add_mset (st, b) (held_all pre + held_all post + queued (s_disp s))"
  using assms by (simp add: abs_of_def)

lemma view_at:
  assumes "token_inv (abs_of s)" and "s_threads s = pre @ t # post" and "held t = {#(st, b)#}"
  shows "stage_ok st b (coord_view (d_coordinator (s_disp s)) (b_partition b))"
    and "in_flight (b_partition b) (s_disp s)"
  using token_invD(2) [OF assms(1), of st b] token_inv_others(1) [OF assms(1) token_at [OF assms(2,3)]]
    token_at [OF assms(2,3)]
  by (simp_all add: abs_of_def)

lemma sim_assemble:
  assumes "s_threads s = pre @ t # post" and "held t = {#}" and "taken p (s_disp s) d'"
    and "\<not> in_flight p (s_disp s)" and "buffered p (s_disp s) \<noteq> []"
    and "0 < dc_BatchSize (d_cfg (s_disp s))"
    and "held t' = {#(Untracked, batch_of p (take (batch_size (s_disp s)) (buffered p (s_disp s))))#}"
  shows "proto_step (abs_of s) (abs_of (s\<lparr>s_threads := pre @ t' # post, s_disp := d'\<rparr>))"
proof -
  let ?b = "batch_of p (take (batch_size (s_disp s)) (buffered p (s_disp s)))"
  have "abs_of (s\<lparr>s_threads := pre @ t' # post, s_disp := d'\<rparr>)
    = (abs_of s)\<lparr>a_tok := add_mset (Untracked, ?b) (a_tok (abs_of s)),
        a_infl := (a_infl (abs_of s))(b_partition ?b := True),
        a_buf := (a_buf (abs_of s))(b_partition ?b := drop (batch_size (s_disp s)) (buffered p (s_disp s)))\<rparr>"
    using assms by (simp add: abs_of_def taken_views [OF assms(3)])
  moreover have "proto_step (abs_of s) \<dots>"
    by (rule proto_step.assemble) (use assms in \<open>simp_all add: abs_of_def\<close>)
  ultimately show ?thesis by simp
qed

lemma act_sim_assemble:
  assumes "sys_inv s" and "s_threads s = pre @ t # post" and "held t = {#}"
    and "(try_region p (s_disp s) = Inr (Some b, d') \<or> flush_region p (s_disp s) = Inr (Some b, d'))"
    and "held t' = {#(Untracked, b)#}"
  shows "proto_step (abs_of s) (abs_of (s\<lparr>s_threads := pre @ t' # post, s_disp := d'\<rparr>))
    \<and> d_cfg d' = d_cfg (s_disp s) \<and> d_coordinator d' = d_coordinator (s_disp s)"
  using assms(4)
proof
  assume r: "try_region p (s_disp s) = Inr (Some b, d')"
  show ?thesis
  proof (cases rule: try_region_cases [OF sys_invD(1) [OF assms(1)], of p, case_names skip full wait])
    case (full d'')
    with r have "d'' = d'" "b = batch_of p (take (batch_size (s_disp s)) (buffered p (s_disp s)))" by simp_all
    with full sim_assemble [OF assms(2,3) _ _ _ sys_invD(1) [OF assms(1)]] assms(5) taken_views(4,5)
    show ?thesis by blast
  qed (use r in simp_all)
next
  assume r: "flush_region p (s_disp s) = Inr (Some b, d')"
  show ?thesis
  proof (cases rule: flush_region_cases [OF sys_invD(1) [OF assms(1)], of p, case_names skip some])
    case (some d'')
    with r have "d'' = d'" "b = batch_of p (take (batch_size (s_disp s)) (buffered p (s_disp s)))" by simp_all
    with some sim_assemble [OF assms(2,3) _ _ _ sys_invD(1) [OF assms(1)]] assms(5) taken_views(4,5)
    show ?thesis by blast
  qed (use r in simp_all)
qed

lemma act_sim_none:
  assumes "sys_inv s"
    and "(try_region p (s_disp s) = Inr (None, d') \<or> flush_region p (s_disp s) = Inr (None, d'))"
  shows "(\<lambda>q. in_flight q d') = (\<lambda>q. in_flight q (s_disp s))"
    "(\<lambda>q. buffered q d') = (\<lambda>q. buffered q (s_disp s))" "queued d' = queued (s_disp s)"
    "d_coordinator d' = d_coordinator (s_disp s)" "d_cfg d' = d_cfg (s_disp s)"
proof -
  have "\<exists>q. only_buffer q (s_disp s) d' \<and> in_flight q d' = in_flight q (s_disp s)
      \<and> buffered q d' = buffered q (s_disp s)"
    using assms(2)
  proof
    assume r: "try_region p (s_disp s) = Inr (None, d')"
    show ?thesis
      by (cases rule: try_region_cases [OF sys_invD(1) [OF assms(1)], of p, case_names skip full wait])
        (use r in auto)
  next
    assume r: "flush_region p (s_disp s) = Inr (None, d')"
    show ?thesis
      by (cases rule: flush_region_cases [OF sys_invD(1) [OF assms(1)], of p, case_names skip some])
        (use r in auto)
  qed
  then obtain q where q: "only_buffer q (s_disp s) d'" "in_flight q d' = in_flight q (s_disp s)"
      "buffered q d' = buffered q (s_disp s)" by blast
  from only_buffer_views [OF q] show "(\<lambda>q. in_flight q d') = (\<lambda>q. in_flight q (s_disp s))"
    "(\<lambda>q. buffered q d') = (\<lambda>q. buffered q (s_disp s))" "queued d' = queued (s_disp s)"
    "d_coordinator d' = d_coordinator (s_disp s)" "d_cfg d' = d_cfg (s_disp s)" by blast+
qed

lemma regions_no_panic:
  "sys_inv s \<Longrightarrow> try_region p (s_disp s) \<noteq> Inl e"
  "sys_inv s \<Longrightarrow> flush_region p (s_disp s) \<noteq> Inl e"
  using try_region_cases [OF sys_invD(1), of s p] flush_region_cases [OF sys_invD(1), of s p] by force+

text \<open>
  One step of a goroutine is a step of the protocol, or changes nothing the protocol sees.
  \<open>stepped\<close> is the state after goroutine \<open>t\<close> has become \<open>ts\<close>; there is one lemma per position.
\<close>

definition stepped :: "thread list \<Rightarrow> thread \<Rightarrow> thread list \<Rightarrow> thread list \<Rightarrow> dispatcher \<Rightarrow> sys \<Rightarrow> sys"
where
  "stepped pre t ts post d' s = (note_rejected t (s\<lparr>s_threads := pre @ ts @ post\<rparr>))\<lparr>s_disp := d'\<rparr>"

definition simulated :: "sys \<Rightarrow> sys \<Rightarrow> bool" where
  "simulated s s' \<longleftrightarrow> (abs_of s' = abs_of s \<or> proto_step (abs_of s) (abs_of s')) \<and> sys_inv s'"

lemma simulatedI:
  assumes "sys_inv s" and "s_threads s = pre @ t # post"
    and "d_cfg d' = d_cfg (s_disp s)" and "coord_wf (d_coordinator d')"
    and "\<And>b k. T_PutBack b k \<in> set ts \<Longrightarrow> t = T_Undo b k"
    and "abs_of (stepped pre t ts post d' s) = abs_of s
      \<or> proto_step (abs_of s) (abs_of (stepped pre t ts post d' s))"
  shows "simulated s (stepped pre t ts post d' s)"
proof -
  have "b_partition b \<in> s_rejected s" if "T_PutBack b k \<in> set pre \<or> T_PutBack b k \<in> set post" for b k
    using sys_invD(4) [OF assms(1), of b k] that by (auto simp: assms(2))
  with assms(1,3-5) have "sys_inv (stepped pre t ts post d' s)"
    unfolding sys_inv_def stepped_def by (cases t) auto
  with assms(6) show ?thesis by (simp add: simulated_def)
qed

lemma sim_dispatch:
  assumes inv: "sys_inv s" and th: "s_threads s = pre @ t # post" and t: "held t = {#}" "\<And>b k. t \<noteq> T_Undo b k"
    and r: "try_region p (s_disp s) = Inr (ob, d') \<or> flush_region p (s_disp s) = Inr (ob, d')"
    and ts: "ts = (case ob of None \<Rightarrow> ts0 | Some b \<Rightarrow> [T_Check b k])"
    and ts0: "held_all ts0 = {#}" "\<And>b k. T_PutBack b k \<notin> set ts0"
  shows "simulated s (stepped pre t ts post d' s)"
proof (cases ob)
  case None
  note v = act_sim_none [OF inv r [unfolded None]]
  show ?thesis
  proof (rule simulatedI [OF inv th v(5)])
    show "coord_wf (d_coordinator d')" using sys_invD(3) [OF inv] by (simp add: v(4))
    show "T_PutBack b k \<in> set ts \<Longrightarrow> t = T_Undo b k" for b k using ts None ts0(2) by simp
  qed (use None ts ts0 t v in \<open>cases t; simp add: stepped_def abs_of_def th\<close>)
next
  case (Some b)
  have "held (T_Check b k) = {#(Untracked, b)#}" by simp
  note a = act_sim_assemble [OF inv th t(1) r [unfolded Some] this]
  show ?thesis
  proof (rule simulatedI [OF inv th])
    show "T_PutBack b k \<in> set ts \<Longrightarrow> t = T_Undo b k" for b k using ts Some by simp
  qed (use a sys_invD(3) [OF inv] Some ts t in \<open>cases t; simp add: stepped_def\<close>)+
qed

lemma sim_check:
  assumes inv: "sys_inv s" and th: "s_threads s = pre @ T_Check b k # post"
  shows "simulated s (stepped pre (T_Check b k)
    (if d_closed (s_disp s) then resume k (Some errClosed) else [T_Track b k]) post (s_disp s) s)"
proof (rule simulatedI [OF inv th])
  let ?rest = "held_all pre + held_all post + queued (s_disp s)"
  have "proto_step (abs_of s) ((abs_of s)\<lparr>a_tok := ?rest\<rparr>)"
    by (rule proto_step.lose, rule token_at [OF th]) simp
  then show "abs_of (stepped pre (T_Check b k)
      (if d_closed (s_disp s) then resume k (Some errClosed) else [T_Track b k]) post (s_disp s) s) = abs_of s
    \<or> proto_step (abs_of s) (abs_of (stepped pre (T_Check b k)
      (if d_closed (s_disp s) then resume k (Some errClosed) else [T_Track b k]) post (s_disp s) s))"
    by (simp add: stepped_def abs_of_def th)
qed (use sys_invD(3) [OF inv] in \<open>simp_all split: if_splits\<close>)

lemma sim_track:
  assumes inv: "sys_inv s" and th: "s_threads s = pre @ T_Track b k # post"
    and r: "track b (s_disp s) = Inr d'"
  shows "simulated s (stepped pre (T_Track b k) [T_SendCh b k] post d' s)"
proof -
  let ?rest = "held_all pre + held_all post + queued (s_disp s)"
  obtain c where c: "d' = (s_disp s)\<lparr>d_coordinator := c\<rparr>" "coord_wf c"
    "coord_view c = (coord_view (d_coordinator (s_disp s)))(b_partition b := InFlight (b_maxOffset b))"
    using track_view [OF sys_invD(3) [OF inv] r] by blast
  have "proto_step (abs_of s) ((abs_of s)\<lparr>a_tok := add_mset (Tracked, b) ?rest,
      a_view := (a_view (abs_of s))(b_partition b := InFlight (b_maxOffset b))\<rparr>)"
    by (rule proto_step.track, rule token_at [OF th]) simp
  then show ?thesis
    by (intro simulatedI [OF inv th]) (simp_all add: c stepped_def abs_of_def)
qed

lemma sim_send:
  assumes inv: "sys_inv s" and th: "s_threads s = pre @ T_SendCh b k # post"
    and r: "chan_send b (s_disp s) = Inr (sent, d')"
  shows "simulated s (stepped pre (T_SendCh b k)
    (if sent then resume k None else [T_Undo b k]) post d' s)"
proof -
  have "queued d' = (if sent then add_mset (Tracked, b) (queued (s_disp s)) else queued (s_disp s))"
    "d_coordinator d' = d_coordinator (s_disp s)" "d_cfg d' = d_cfg (s_disp s)"
    "\<And>q. in_flight q d' = in_flight q (s_disp s)" "\<And>q. buffered q d' = buffered q (s_disp s)"
    using r by (auto simp: chan_send_def queued_def split: if_splits)
  then show ?thesis
    by (intro simulatedI [OF inv th])
      (use sys_invD(3) [OF inv] in \<open>simp_all add: stepped_def abs_of_def th split: if_splits\<close>)
qed

lemma sim_complete:
  assumes inv: "sys_inv s" and tok: "token_inv (abs_of s)"
    and th: "s_threads s = pre @ t # post" and r: "complete b (s_disp s) = Inr d'"
    and t: "(t = T_Undo b k \<and> ts = [T_PutBack b k]) \<or> (t = W_Complete b \<and> ts = [W_Done b])"
  shows "simulated s (stepped pre t ts post d' s)"
proof -
  let ?rest = "held_all pre + held_all post + queued (s_disp s)"
  have "coord_view (d_coordinator (s_disp s)) (b_partition b) \<in> {Idle, InFlight (b_maxOffset b)}"
    using view_at(1) [OF tok th, of Tracked b] view_at(1) [OF tok th, of Settled b] t by auto
  from complete_view [OF sys_invD(3) [OF inv] this] r obtain c where
    c: "d' = (s_disp s)\<lparr>d_coordinator := c\<rparr>" "coord_wf c"
      "coord_view c = (coord_view (d_coordinator (s_disp s)))
        (b_partition b := finish_slot (b_maxOffset b) (coord_view (d_coordinator (s_disp s)) (b_partition b)))"
    by auto
  have "abs_of (stepped pre t ts post d' s) = abs_of s
    \<or> proto_step (abs_of s) (abs_of (stepped pre t ts post d' s))"
    using t
  proof
    assume u: "t = T_Undo b k \<and> ts = [T_PutBack b k]"
    have "proto_step (abs_of s) ((abs_of s)\<lparr>a_tok := add_mset (Finished, b) ?rest,
        a_view := (a_view (abs_of s))(b_partition b := finish_slot (b_maxOffset b)
          (a_view (abs_of s) (b_partition b))), a_rejected := insert (b_partition b) (a_rejected (abs_of s))\<rparr>)"
      by (rule proto_step.undo, rule token_at [OF th]) (simp add: u)
    with u show ?thesis by (simp add: c stepped_def abs_of_def)
  next
    assume u: "t = W_Complete b \<and> ts = [W_Done b]"
    have "proto_step (abs_of s) ((abs_of s)\<lparr>a_tok := add_mset (Finished, b) ?rest,
        a_view := (a_view (abs_of s))(b_partition b := finish_slot (b_maxOffset b)
          (a_view (abs_of s) (b_partition b)))\<rparr>)"
      by (rule proto_step.finish, rule token_at [OF th]) (simp add: u)
    with u show ?thesis by (simp add: c stepped_def abs_of_def)
  qed
  then show ?thesis
    by (intro simulatedI [OF inv th]) (use t in \<open>auto simp: c\<close>)
qed

lemma sim_put_back:
  assumes inv: "sys_inv s" and th: "s_threads s = pre @ T_PutBack b k # post"
    and r: "put_back b (s_disp s) = Inr d'"
  shows "simulated s (stepped pre (T_PutBack b k) (resume k e) post d' s)"
proof -
  let ?rest = "held_all pre + held_all post + queued (s_disp s)"
  have "b_partition b \<in> s_rejected s" using sys_invD(4) [OF inv, of b k] by (simp add: th)
  then have "proto_step (abs_of s) ((abs_of s)\<lparr>a_tok := ?rest,
      a_infl := (a_infl (abs_of s))(b_partition b := False),
      a_buf := (a_buf (abs_of s))(b_partition b := b_messages b @ a_buf (abs_of s) (b_partition b))\<rparr>)"
    by - (rule proto_step.put_back, rule token_at [OF th], simp_all add: abs_of_def)
  then show ?thesis
    by (intro simulatedI [OF inv th])
      (use sys_invD(3) [OF inv] in \<open>simp_all add: stepped_def abs_of_def put_back_views [OF r]\<close>)
qed

lemma sim_done:
  assumes inv: "sys_inv s" and th: "s_threads s = pre @ W_Done b # post"
  shows "simulated s (stepped pre (W_Done b) [W_Signal ps] post
    (set_inFlight (b_partition b) False (s_disp s)) s)"
proof -
  let ?rest = "held_all pre + held_all post + queued (s_disp s)"
  have "proto_step (abs_of s) ((abs_of s)\<lparr>a_tok := ?rest,
      a_infl := (a_infl (abs_of s))(b_partition b := False)\<rparr>)"
    by (rule proto_step.release, rule token_at [OF th]) simp
  then show ?thesis
    by (intro simulatedI [OF inv th])
      (use sys_invD(3) [OF inv] in
        \<open>simp_all add: stepped_def abs_of_def set_inFlight_views frame_simps queued_def\<close>)
qed

lemma sim_quiet:
  assumes inv: "sys_inv s" and th: "s_threads s = pre @ t # post"
    and t: "held t = {#}" "\<And>b k. t \<noteq> T_Undo b k" "held_all ts = {#}" "\<And>b k. T_PutBack b k \<notin> set ts"
    and d: "\<And>q. in_flight q d' = in_flight q (s_disp s)" "\<And>q. buffered q d' = buffered q (s_disp s)"
      "queued d' = queued (s_disp s)" "d_coordinator d' = d_coordinator (s_disp s)"
      "d_cfg d' = d_cfg (s_disp s)"
  shows "simulated s (stepped pre t ts post d' s)"
proof (rule simulatedI [OF inv th d(5)])
  show "abs_of (stepped pre t ts post d' s) = abs_of s
    \<or> proto_step (abs_of s) (abs_of (stepped pre t ts post d' s))"
    using t d by (cases t) (simp_all add: stepped_def abs_of_def th)
qed (use t sys_invD(3) [OF inv] in \<open>simp_all add: d\<close>)

lemma act_sim:
  assumes inv: "sys_inv s" and tok: "token_inv (abs_of s)" and th: "s_threads s = pre @ t # post"
    and step: "thread_step ord t (s_disp s) = Some (Inr (ts, d'))"
  shows "simulated s (stepped pre t ts post d' s)"
proof (cases t)
  case (T_Try p k)
  with step obtain ob where "try_region p (s_disp s) = Inr (ob, d')"
    and "ts = (case ob of None \<Rightarrow> resume k None | Some b \<Rightarrow> [T_Check b k])"
    by (auto simp: go_bind_Inr_iff)
  with T_Try show ?thesis by (intro sim_dispatch [OF inv th, of p ob d' ts "resume k None" k]) simp_all
next
  case (T_Linger p)
  with step show ?thesis
    by (auto simp: linger_region_views intro!: sim_quiet [OF inv th [unfolded T_Linger]])
next
  case (T_Flush p)
  with step obtain ob where "flush_region p (s_disp s) = Inr (ob, d')"
    and "ts = (case ob of None \<Rightarrow> [] | Some b \<Rightarrow> [T_Check b C_Timer])"
    by (auto simp: go_bind_Inr_iff)
  with T_Flush show ?thesis by (intro sim_dispatch [OF inv th, of p ob d' ts "[]" C_Timer]) simp_all
next
  case (W_Done b)
  with step have "\<exists>ps. ts = [W_Signal ps]" "d' = set_inFlight (b_partition b) False (s_disp s)"
    by (auto simp: done_region_def Let_def)
  with W_Done th show ?thesis using sim_done [OF inv] by auto
next
  case (W_Signal ps)
  with step show ?thesis
    by (auto simp: signal_ready_def queued_def buffer_views intro!: sim_quiet [OF inv th [unfolded W_Signal]])
next
  case (T_Check b k)
  with step th sim_check [OF inv, of pre b k post] show ?thesis by auto
next
  case (T_Track b k)
  with step th sim_track [OF inv, of pre b k post] show ?thesis by (auto simp: go_bind_Inr_iff)
next
  case (T_SendCh b k)
  with step th sim_send [OF inv, of pre b k post] show ?thesis by (auto simp: go_bind_Inr_iff)
next
  case (T_PutBack b k)
  with step th sim_put_back [OF inv, of pre b k post] show ?thesis by (auto simp: go_bind_Inr_iff)
next
  case (T_Undo b k)
  with step show ?thesis
    by (auto simp: go_bind_Inr_iff intro!: sim_complete [OF inv tok th [unfolded T_Undo], where b = b])
next
  case (W_Complete b)
  with step show ?thesis
    by (auto simp: go_bind_Inr_iff intro!: sim_complete [OF inv tok th [unfolded W_Complete], where b = b])
qed (use step in simp_all)

text \<open>The only panic a step of a goroutine can end in is the send on a closed channel.\<close>

lemma act_panic:
  assumes inv: "sys_inv s" and tok: "token_inv (abs_of s)" and th: "s_threads s = pre @ t # post"
    and step: "thread_step ord t (s_disp s) = Some (Inl e)"
  shows "e = SendOnClosedChannel"
proof -
  note wf = sys_invD(3) [OF inv]
  have track: "False" if "t = T_Track b k" "track b (s_disp s) = Inl x" for b k x
    using view_at(1) [OF tok th, of Untracked b] oc.dispatched_cases [OF wf, of "b_partition b" "b_maxOffset b"] that
    by (auto simp: track_def)
  have compl: "False" if "t = T_Undo b k \<or> t = W_Complete b" "complete b (s_disp s) = Inl x" for b k x
    using view_at(1) [OF tok th, of Tracked b] view_at(1) [OF tok th, of Settled b]
      complete_view [OF wf, of b] that by auto
  have returned: "False" if "t = T_PutBack b k" "put_back b (s_disp s) = Inl x" for b k x
    using view_at(2) [OF tok th, of Finished b] that in_flight_lookup [of "b_partition b" "s_disp s"]
    by (auto simp: put_back_def)
  show ?thesis
    using step track compl returned regions_no_panic [OF inv]
    by (cases t) (auto simp: go_bind_Inl_iff chan_send_def split: if_splits)
qed

subsection \<open>The other steps\<close>

lemma held_cases: "held t = {#} \<or> (\<exists>x. held t = {#x#})"
  by (cases t) simp_all

text \<open>A goroutine that ends, by a panic or because it abandons its batch.\<close>

lemma sim_lose:
  assumes inv: "sys_inv s" and th: "s_threads s = pre @ t # post"
    and ts: "held_all ts = {#}" "\<And>b k. T_PutBack b k \<notin> set ts" and e: "\<And>e. e \<in> set es \<Longrightarrow> allowed_panic e"
  shows "simulated s (s\<lparr>s_threads := pre @ ts @ post, s_panics := s_panics s @ es, s_crash := x, s_cancelled := c,
    s_disp := (s_disp s)\<lparr>d_workers := n\<rparr>\<rparr>)"
    (is "simulated s ?s'")
proof -
  have rej: "b_partition b \<in> s_rejected s" if "T_PutBack b k \<in> set pre \<or> T_PutBack b k \<in> set post" for b k
    using sys_invD(4) [OF inv, of b k] that by (auto simp: th)
  have "sys_inv ?s'" using inv ts(2) e rej unfolding sys_inv_def by auto
  moreover have "abs_of ?s' = abs_of s \<or> proto_step (abs_of s) (abs_of ?s')"
  proof (cases "held t = {#}")
    case True
    then show ?thesis using ts by (simp add: abs_of_def th)
  next
    case False
    then obtain st b where "held t = {#(st, b)#}" using held_cases [of t] by auto
    from proto_step.lose [OF token_at [OF th this]] ts show ?thesis by (simp add: abs_of_def)
  qed
  ultimately show ?thesis by (simp add: simulated_def)
qed

lemma send_views:
  assumes "send_region p msgs d = Inr (err, d')"
  shows "d_cfg d' = d_cfg d" "d_coordinator d' = d_coordinator d" "queued d' = queued d"
    "in_flight q d' = in_flight q d"
    "buffered q d' = (if err = None \<and> q = p then buffered p d @ msgs else buffered q d)"
  using assms
  by (auto simp: send_region_def go_bind_Inr_iff new_buffer_def frame_simps queued_def buffer_views
      split: if_splits option.splits)

lemma assigned_views:
  "OnPartitionsAssigned ps d = Inr d' \<Longrightarrow>
     d_cfg d' = d_cfg d \<and> d_coordinator d' = d_coordinator d \<and> queued d' = queued d
     \<and> (\<forall>q. in_flight q d' = in_flight q d \<and> buffered q d' = buffered q d)"
proof (induction ps arbitrary: d)
  case (Cons p ps)
  show ?case
  proof (cases "fmlookup (d_partitions d) (p_Partition p)")
    case None
    with Cons.prems obtain pb where pb: "new_buffer (d_cfg d) = Inr pb"
      "OnPartitionsAssigned ps (set_buffer (p_Partition p) pb d) = Inr d'"
      by (auto simp: go_bind_Inr_iff)
    then show ?thesis
      using Cons.IH [OF pb(2)] None
      by (auto simp: frame_simps queued_def buffer_views new_buffer_def split: if_splits)
  next
    case (Some pb)
    with Cons show ?thesis by simp
  qed
qed simp

lemma assigned_no_panic: "0 < dc_BatchSize (d_cfg d) \<Longrightarrow> OnPartitionsAssigned ps d \<noteq> Inl e"
  by (induction ps arbitrary: d) (auto simp: new_buffer_def go_bind_Inl_iff frame_simps split: option.splits)

lemma revoke_one_views:
  "d_cfg (revoke_one p d) = d_cfg d" "d_coordinator (revoke_one p d) = d_coordinator d"
  "queued (revoke_one p d) = queued d" "in_flight q (revoke_one p d) = in_flight q d"
  "buffered q (revoke_one p d) = (if q = p then [] else buffered q d)"
  by (auto simp: revoke_one_def frame_simps queued_def buffer_views split: option.split)

lemma revoked_views:
  "d_cfg (OnPartitionsRevoked ps d) = d_cfg d
   \<and> d_coordinator (OnPartitionsRevoked ps d) = d_coordinator d
   \<and> queued (OnPartitionsRevoked ps d) = queued d
   \<and> (\<forall>q. in_flight q (OnPartitionsRevoked ps d) = in_flight q d
        \<and> buffered q (OnPartitionsRevoked ps d) = (if q \<in> p_Partition ` set ps then [] else buffered q d))"
  unfolding OnPartitionsRevoked_def
  by (induction ps arbitrary: d) (auto simp: revoke_one_views)

lemma stopTimer_views:
  assumes "fmlookup (d_partitions d) p = Some pb"
  shows "in_flight q (stopTimer p pb d) = in_flight q d" "buffered q (stopTimer p pb d) = buffered q d"
  using assms by (simp_all add: buffer_views)

lemma close_views:
  assumes "close_region ord d = Inr d'"
  shows "d_cfg d' = d_cfg d \<and> d_coordinator d' = d_coordinator d \<and> queued d' = queued d
    \<and> (\<forall>q. in_flight q d' = in_flight q d \<and> buffered q d' = buffered q d)"
proof -
  have "d_cfg (stop_all ord x) = d_cfg x \<and> d_coordinator (stop_all ord x) = d_coordinator x
      \<and> d_batchCh (stop_all ord x) = d_batchCh x
      \<and> (\<forall>q. in_flight q (stop_all ord x) = in_flight q x \<and> buffered q (stop_all ord x) = buffered q x)" for x
  proof (induction ord arbitrary: x)
    case (Cons p ord)
    let ?y = "case fmlookup (d_partitions x) p of None \<Rightarrow> x | Some pb \<Rightarrow> stopTimer p pb x"
    have "stop_all (p # ord) x = stop_all ord ?y" by (simp add: stop_all_def)
    moreover have "d_cfg ?y = d_cfg x \<and> d_coordinator ?y = d_coordinator x \<and> d_batchCh ?y = d_batchCh x
      \<and> (\<forall>q. in_flight q ?y = in_flight q x \<and> buffered q ?y = buffered q x)"
      by (cases "fmlookup (d_partitions x) p") (simp_all add: frame_simps stopTimer_views)
    ultimately show ?case using Cons.IH [of ?y] by simp
  qed (simp add: stop_all_def)
  from this [of "d\<lparr>d_closed := True\<rparr>"] assms show ?thesis
    by (simp add: close_region_def queued_def split: if_splits) force
qed

definition revoked_all :: "int32 list \<Rightarrow> proto \<Rightarrow> proto" where
  "revoked_all ps a = a\<lparr>a_buf := (\<lambda>q. if q \<in> set ps then [] else a_buf a q),
     a_sent := (\<lambda>q. if q \<in> set ps then without_tail (a_buf a q) (a_sent a q) else a_sent a q)\<rparr>"

lemma proto_revoke_all: "proto_step\<^sup>*\<^sup>* a (revoked_all ps a)"
proof (induction ps arbitrary: a)
  case Nil
  then show ?case by (simp add: revoked_all_def)
next
  case (Cons p ps)
  let ?a = "a\<lparr>a_buf := (a_buf a)(p := []),
      a_sent := (a_sent a)(p := without_tail (a_buf a p) (a_sent a p))\<rparr>"
  have "proto_step a ?a" by (rule proto_step.revoke)
  moreover have "revoked_all ps ?a = revoked_all (p # ps) a"
    by (cases a) (auto simp: revoked_all_def fun_eq_iff)
  moreover have "proto_step\<^sup>*\<^sup>* ?a (revoked_all ps ?a)" by (rule Cons.IH)
  ultimately show ?case by (simp only: converse_rtranclp_into_rtranclp)
qed

text \<open>The poll loop is one goroutine, and it makes no call after \<open>Close\<close>.\<close>

fun poller :: "thread \<Rightarrow> bool" where
  "poller P_Idle = True"
| "poller P_Closed = True"
| "poller (T_Try p C_Poll) = True"
| "poller (T_Check b C_Poll) = True"
| "poller (T_Track b C_Poll) = True"
| "poller (T_SendCh b C_Poll) = True"
| "poller (T_Undo b C_Poll) = True"
| "poller (T_PutBack b C_Poll) = True"
| "poller _ = False"

definition pollers :: "thread list \<Rightarrow> nat" where
  "pollers ts = length (filter poller ts)"

text \<open>The closed channel and the closed flag, which \<open>Close\<close> sets together.\<close>

definition flags :: "dispatcher \<Rightarrow> bool \<times> bool" where
  "flags d = (d_batchChClosed d, d_closed d)"

lemma flags_simps [simp]:
  "flags (d\<lparr>d_workers := n\<rparr>) = flags d" "flags (d\<lparr>d_m := m\<rparr>) = flags d"
  "flags (d\<lparr>d_batchCh := bs\<rparr>) = flags d" "flags (d\<lparr>d_timers := ti\<rparr>) = flags d"
  "flags (d\<lparr>d_coordinator := c\<rparr>) = flags d"
  by (simp_all add: flags_def)

lemma flags_eq_iff: "flags d' = flags d \<longleftrightarrow> d_batchChClosed d' = d_batchChClosed d \<and> d_closed d' = d_closed d"
  by (simp add: flags_def)

definition poll_inv :: "sys \<Rightarrow> bool" where
  "poll_inv s \<longleftrightarrow> pollers (s_threads s) \<le> 1
     \<and> (d_batchChClosed (s_disp s) \<longrightarrow> P_Closed \<in> set (s_threads s))
     \<and> d_closed (s_disp s) = d_batchChClosed (s_disp s)"

lemma pollers_simps [simp]:
  "pollers [] = 0" "pollers (t # ts) = (if poller t then 1 else 0) + pollers ts"
  "pollers (ts @ us) = pollers ts + pollers us"
  by (simp_all add: pollers_def)

lemma pollers_resume:
  "pollers (resume C_Poll e) = 1" "pollers (resume C_Timer e) = 0" "pollers (resume (C_Pending ps) e) = 0"
  by (simp_all, cases "(C_Pending ps, e)" rule: resume.cases) simp_all

lemma regions_closed:
  "sys_inv s \<Longrightarrow> try_region p (s_disp s) = Inr (ob, d') \<Longrightarrow> flags d' = flags (s_disp s)"
  "sys_inv s \<Longrightarrow> flush_region p (s_disp s) = Inr (ob, d') \<Longrightarrow> flags d' = flags (s_disp s)"
  unfolding flags_eq_iff
  using try_region_cases [OF sys_invD(1), of s p] flush_region_cases [OF sys_invD(1), of s p]
    only_bufferD(4,5) takenD(1) by (metis prod.inject sum.inject(2))+

lemma act_pollers:
  assumes inv: "sys_inv s" and step: "thread_step ord t (s_disp s) = Some (Inr (ts, d'))"
  shows "pollers ts \<le> (if poller t then 1 else 0) \<and> t \<noteq> P_Closed
    \<and> flags d' = flags (s_disp s)"
proof -
  have k: "pollers (resume k e) = (if k = C_Poll then 1 else 0)" for k e
    by (cases k) (simp_all add: pollers_resume)
  have p: "poller (T_Check b k) = (k = C_Poll)" "poller (T_Track b k) = (k = C_Poll)"
    "poller (T_SendCh b k) = (k = C_Poll)" "poller (T_Undo b k) = (k = C_Poll)"
    "poller (T_PutBack b k) = (k = C_Poll)" "poller (T_Try q k) = (k = C_Poll)" for b q k
    by (cases k; simp)+
  show ?thesis
    using step regions_closed [OF inv] unfolding flags_eq_iff
    by (cases t) (auto simp: go_bind_Inr_iff k p track_def complete_def chan_send_def put_back_def
        linger_region_def done_region_def signal_ready_def Let_def frame_simps
        split: option.splits if_splits)
qed

lemma poll_inv_update:
  assumes "poll_inv s" and "s_threads s = pre @ t # post" and "s_threads s' = pre @ ts @ post"
    and "pollers ts \<le> (if poller t then 1 else 0)" and "t = P_Closed \<Longrightarrow> P_Closed \<in> set ts"
    and "flags (s_disp s') = flags (s_disp s) \<or> P_Closed \<in> set ts \<and> flags (s_disp s') = (True, True)"
  shows "poll_inv s'"
  using assms by (auto simp: poll_inv_def flags_def split: if_splits)

lemma idle_open:
  assumes "poll_inv s" and "s_threads s = pre @ P_Idle # post"
  shows "\<not> d_batchChClosed (s_disp s)"
proof
  have "pollers xs > 0" if "P_Closed \<in> set xs" for xs
    using that by (force simp: pollers_def filter_empty_conv)
  moreover assume "d_batchChClosed (s_disp s)"
  ultimately show False using assms by (fastforce simp: poll_inv_def)
qed

lemma call_closed:
  assumes "call_step c d = Inr (ts, d')"
  shows "flags d' = flags d \<or> P_Closed \<in> set ts \<and> flags d' = (True, True)"
    and "pollers ts \<le> 1"
proof -
  have assigned: "OnPartitionsAssigned ps x = Inr y \<Longrightarrow> flags y = flags x" for ps x y
  proof (induction ps arbitrary: x)
    case (Cons p ps)
    then show ?case
      by (fastforce simp: go_bind_Inr_iff flags_def frame_simps split: option.splits)
  qed simp
  have "flags (revoke_one p x) = flags x" for p x
    by (auto simp: revoke_one_def flags_def frame_simps split: option.split)
  then have revoked: "flags (OnPartitionsRevoked ps x) = flags x" for ps x
    unfolding OnPartitionsRevoked_def by (induction ps arbitrary: x) simp_all
  have stopped: "d_closed (stop_all ord x) = d_closed x" for ord x
    unfolding stop_all_def by (rule fold_invariant [where P = "\<lambda>y. d_closed y = d_closed x" and Q = "\<lambda>_. True"])
      (auto simp: frame_simps split: option.split)
  show "flags d' = flags d \<or> P_Closed \<in> set ts \<and> flags d' = (True, True)"
    using assms assigned revoked stopped
    by (cases c) (auto simp: go_bind_Inr_iff send_region_def close_region_def flags_def frame_simps
        split: if_splits option.splits)
  show "pollers ts \<le> 1"
    using assms by (cases c) (auto simp: go_bind_Inr_iff split: option.splits)
qed

text \<open>Every step but the firing of a timer replaces one goroutine.\<close>

lemma note_threads [simp]: "s_threads (note_rejected t s) = s_threads s" "s_threads (note_sent c ts s) = s_threads s"
  by (cases t, simp_all) (cases c, simp_all)

lemma poll_inv_act:
  assumes inv: "sys_inv s" and poll: "poll_inv s" and step: "sys_step (Act i ord) s = Some s'"
  shows "poll_inv s'"
proof -
  have i: "i < length (s_threads s)" using step by (auto split: if_splits)
  obtain pre post where th: "s_threads s = pre @ s_threads s ! i # post"
    and rep: "\<And>ts. replace_thread i ts s = s\<lparr>s_threads := pre @ ts @ post\<rparr>"
    using thread_split [OF i] by metis
  obtain r where r: "thread_step ord (s_threads s ! i) (s_disp s) = Some r"
    using step i by (auto split: option.splits)
  show ?thesis
  proof (cases r)
    case (Inl e)
    then have "s_threads s ! i \<noteq> P_Closed" using r by auto
    with Inl r step i rep show ?thesis
      by (intro poll_inv_update [OF poll th, where ts = "[]"]) (auto simp: panic_at_def)
  next
    case (Inr x)
    obtain ts d' where "x = (ts, d')" by (cases x)
    with Inr r step i rep act_pollers [OF inv, of ord "s_threads s ! i" ts d'] show ?thesis
      by (intro poll_inv_update [OF poll th, where ts = ts]) auto
  qed
qed

lemma call_no_panic:
  assumes inv: "sys_inv s" and "poll_inv s" and "s_threads s = pre @ P_Idle # post"
  shows "call_step c (s_disp s) \<noteq> Inl e"
  using idle_open [OF assms(2,3)] sys_invD(1) [OF assms(1)] assigned_no_panic
  by (cases c) (auto simp: go_bind_Inl_iff send_region_def new_buffer_def close_region_def
      split: if_splits option.splits)

lemma poll_inv_call:
  assumes inv: "sys_inv s" and poll: "poll_inv s" and step: "sys_step (Call i c) s = Some s'"
  shows "poll_inv s'"
proof -
  have i: "i < length (s_threads s)" "s_threads s ! i = P_Idle" using step by (auto split: if_splits)
  obtain pre post where th: "s_threads s = pre @ P_Idle # post"
    and rep: "\<And>ts. replace_thread i ts s = s\<lparr>s_threads := pre @ ts @ post\<rparr>"
    using thread_split [OF i(1)] i(2) by metis
  obtain ts d' where r: "call_step c (s_disp s) = Inr (ts, d')"
    using call_no_panic [OF inv poll th] by (cases "call_step c (s_disp s)") auto
  show ?thesis
    by (rule poll_inv_update [OF poll th, where ts = ts]) (use step r i rep call_closed [OF r] in auto)
qed

lemma poll_inv_worker:
  assumes poll: "poll_inv s" and step: "sys_step l s = Some s'"
    and l: "l \<in> {Take i, Exit i, Process i rounds start now dlq}"
  shows "poll_inv s'"
proof -
  have i: "i < length (s_threads s)" using step l by (auto split: if_splits)
  obtain pre post where th: "s_threads s = pre @ s_threads s ! i # post"
    and rep: "\<And>ts. replace_thread i ts s = s\<lparr>s_threads := pre @ ts @ post\<rparr>"
    using thread_split [OF i] by metis
  have "s_threads s ! i \<noteq> P_Closed \<and> flags (s_disp s') = flags (s_disp s)
    \<and> (s_threads s' = pre @ [] @ post \<or> (\<exists>t. s_threads s' = pre @ [t] @ post \<and> \<not> poller t))"
    using step l i
    by (auto simp: run_step_def panic_at_def rep
        split: if_splits list.splits thread.splits option.splits verdict.splits)
  then obtain ts where "s_threads s ! i \<noteq> P_Closed" "flags (s_disp s') = flags (s_disp s)"
    "s_threads s' = pre @ ts @ post" "pollers ts = 0" by fastforce
  then show ?thesis by (intro poll_inv_update [OF poll th, where ts = ts]) auto
qed

lemma poll_inv_step:
  assumes inv: "sys_inv s" and poll: "poll_inv s" and step: "sys_step l s = Some s'"
  shows "poll_inv s'"
proof (cases l)
  case (Fire j)
  with step poll show ?thesis by (auto simp: poll_inv_def Let_def case_prod_beta split: if_splits)
next
  case Cancel
  with step poll show ?thesis by (auto simp: poll_inv_def)
qed (use poll_inv_act [OF inv poll] poll_inv_call [OF inv poll] poll_inv_worker [OF poll] step in blast)+

text \<open>Runs of the protocol that end in a state that satisfies the system's own invariant.\<close>

definition simulated_run :: "sys \<Rightarrow> sys \<Rightarrow> bool" where
  "simulated_run s s' \<longleftrightarrow> proto_step\<^sup>*\<^sup>* (abs_of s) (abs_of s') \<and> sys_inv s'"

lemma simulated_runI: "simulated s s' \<Longrightarrow> simulated_run s s'"
  by (auto simp: simulated_def simulated_run_def)

lemma sys_inv_update:
  assumes "sys_inv s" and "s_threads s = pre @ t # post" and "s_threads s' = pre @ ts @ post"
    and "\<And>b k. T_PutBack b k \<notin> set ts" and "s_rejected s' = s_rejected s" and "s_panics s' = s_panics s"
    and "d_cfg (s_disp s') = d_cfg (s_disp s)" and "coord_wf (d_coordinator (s_disp s'))"
  shows "sys_inv s'"
  using assms by (auto simp: sys_inv_def)

text \<open>The state after the poll loop's call has changed the dispatcher to \<open>d'\<close>.\<close>

definition called :: "thread list \<Rightarrow> call \<Rightarrow> thread list \<Rightarrow> thread list \<Rightarrow> dispatcher \<Rightarrow> sys \<Rightarrow> sys" where
  "called pre c ts post d' s = (note_sent c ts (s\<lparr>s_threads := pre @ ts @ post\<rparr>))\<lparr>s_disp := d'\<rparr>"

lemma calledI:
  assumes inv: "sys_inv s" and th: "s_threads s = pre @ P_Idle # post"
    and "\<And>b k. T_PutBack b k \<notin> set ts"
    and "d_cfg d' = d_cfg (s_disp s)" and "coord_wf (d_coordinator d')"
    and "proto_step\<^sup>*\<^sup>* (abs_of s) (abs_of (called pre c ts post d' s))"
  shows "simulated_run s (called pre c ts post d' s)"
proof -
  have "sys_inv (called pre c ts post d' s)"
    by (rule sys_inv_update [OF inv th, where ts = ts])
      (use assms(3-5) in \<open>cases c; simp add: called_def\<close>)+
  with assms(6) show ?thesis by (simp add: simulated_run_def)
qed

lemma sim_call_send:
  assumes inv: "sys_inv s" and th: "s_threads s = pre @ P_Idle # post"
    and r: "send_region p msgs (s_disp s) = Inr (err, d')"
    and ts: "ts = (case err of None \<Rightarrow> [T_Try p C_Poll] | Some _ \<Rightarrow> [P_Idle])"
  shows "simulated_run s (called pre (CSend p msgs) ts post d' s)"
proof (rule calledI [OF inv th])
  note v = send_views [OF r]
  show "proto_step\<^sup>*\<^sup>* (abs_of s) (abs_of (called pre (CSend p msgs) ts post d' s))"
  proof (cases err)
    case None
    have "abs_of (called pre (CSend p msgs) ts post d' s)
      = (abs_of s)\<lparr>a_buf := (a_buf (abs_of s))(p := a_buf (abs_of s) p @ msgs),
          a_sent := (a_sent (abs_of s))(p := a_sent (abs_of s) p @ msgs),
          a_accepted := (a_accepted (abs_of s))(p := a_accepted (abs_of s) p @ msgs)\<rparr>"
      using ts None by (simp add: called_def abs_of_def th v fun_eq_iff)
    then show ?thesis using proto_step.accept [of "abs_of s" p msgs] by simp
  next
    case (Some e)
    then have "abs_of (called pre (CSend p msgs) ts post d' s) = abs_of s"
      using ts by (simp add: called_def abs_of_def th v)
    then show ?thesis by simp
  qed
qed (use ts send_views(1,2) [OF r] sys_invD(3) [OF inv] in \<open>simp_all split: option.splits\<close>)

lemma sim_call_revoke:
  assumes inv: "sys_inv s" and th: "s_threads s = pre @ P_Idle # post"
  shows "simulated_run s (called pre (CRevoke ps) [P_Idle] post (OnPartitionsRevoked ps (s_disp s)) s)"
    (is "simulated_run s ?s'")
proof (rule calledI [OF inv th])
  have "abs_of ?s' = revoked_all (map p_Partition ps) (abs_of s)"
    using revoked_views [of ps "s_disp s"]
    by (simp add: called_def abs_of_def th revoked_all_def fun_eq_iff)
  then show "proto_step\<^sup>*\<^sup>* (abs_of s) (abs_of ?s')"
    using proto_revoke_all [of "abs_of s" "map p_Partition ps"] by simp
qed (use revoked_views [of ps "s_disp s"] sys_invD(3) [OF inv] in simp_all)

lemma sim_call_reset:
  assumes inv: "sys_inv s" and th: "s_threads s = pre @ P_Idle # post"
  shows "simulated_run s (called pre (CReset p) [P_Idle] post
    ((s_disp s)\<lparr>d_coordinator := Reset p (d_coordinator (s_disp s))\<rparr>) s)" (is "simulated_run s ?s'")
proof (rule calledI [OF inv th])
  have "abs_of ?s' = (abs_of s)\<lparr>a_view := (a_view (abs_of s))(p := Idle)\<rparr>"
    using oc.view_reset [OF sys_invD(3) [OF inv], of p] by (simp add: called_def abs_of_def th)
  then show "proto_step\<^sup>*\<^sup>* (abs_of s) (abs_of ?s')"
    using proto_step.reset [of "abs_of s" p] by simp
qed (use oc.inv_reset [OF sys_invD(3) [OF inv]] in simp_all)

lemma sim_call_quiet:
  assumes inv: "sys_inv s" and th: "s_threads s = pre @ P_Idle # post"
    and c: "(\<exists>ps. c = CAssign ps \<and> ts = [P_Idle]) \<or> (\<exists>ord. c = CClose ord \<and> ts = [P_Closed])"
    and v: "d_cfg d' = d_cfg (s_disp s) \<and> d_coordinator d' = d_coordinator (s_disp s)
      \<and> queued d' = queued (s_disp s)
      \<and> (\<forall>q. in_flight q d' = in_flight q (s_disp s) \<and> buffered q d' = buffered q (s_disp s))"
  shows "simulated_run s (called pre c ts post d' s)"
proof (rule calledI [OF inv th])
  have "abs_of (called pre c ts post d' s) = abs_of s"
    using c v by (auto simp: called_def abs_of_def th)
  then show "proto_step\<^sup>*\<^sup>* (abs_of s) (abs_of (called pre c ts post d' s))" by simp
qed (use c v sys_invD(3) [OF inv] in auto)

lemma call_sim:
  assumes inv: "sys_inv s" and th: "s_threads s = pre @ P_Idle # post"
    and step: "call_step c (s_disp s) = Inr (ts, d')"
  shows "simulated_run s (called pre c ts post d' s)"
proof (cases c)
  case (CSend p msgs)
  with step show ?thesis using sim_call_send [OF inv th] by (auto simp: go_bind_Inr_iff)
next
  case (CAssign ps)
  with step show ?thesis
    using assigned_views by (intro sim_call_quiet [OF inv th]) (auto simp: go_bind_Inr_iff)
next
  case (CRevoke ps)
  with step show ?thesis using sim_call_revoke [OF inv th] by auto
next
  case (CReset p)
  with step show ?thesis using sim_call_reset [OF inv th] by auto
next
  case (CClose ord)
  with step show ?thesis
    using close_views by (intro sim_call_quiet [OF inv th]) (auto simp: go_bind_Inr_iff)
qed

text \<open>A worker that has run the retry loop.\<close>

lemma run_sim:
  assumes inv: "sys_inv s" and i: "i < length (s_threads s)" and t: "s_threads s ! i = W_Run b"
    and step: "run_step i b rounds start now dlq s = Some s'"
  shows "simulated s s'"
proof -
  obtain pre post where th: "s_threads s = pre @ W_Run b # post"
    and rep: "\<And>ts. replace_thread i ts s = s\<lparr>s_threads := pre @ ts @ post\<rparr>"
    using thread_split [OF i] t by metis
  obtain tr v where v: "retry_loop (dc_MaxRetries (d_cfg (s_disp s))) 0 None rounds = Some (tr, v)"
    using step by (auto simp: run_step_def split: option.splits)
  have settled: "simulated s (s\<lparr>s_threads := pre @ [W_Complete b] @ post,
      s_disp := (s_disp s)\<lparr>d_m := m\<rparr>,
      s_done := (s_done s)(b_partition b := s_done s (b_partition b) @ b_messages b)\<rparr>)" for m
  proof -
    let ?t = "s\<lparr>s_threads := pre @ [W_Complete b] @ post, s_disp := (s_disp s)\<lparr>d_m := m\<rparr>,
      s_done := (s_done s)(b_partition b := s_done s (b_partition b) @ b_messages b)\<rparr>"
    have "sys_inv ?t"
      by (rule sys_inv_update [OF inv th, where ts = "[W_Complete b]"]) (use sys_invD(3) [OF inv] in simp_all)
    moreover have "proto_step (abs_of s) (abs_of ?t)"
      using proto_step.settle [OF token_at [OF th, of Tracked b]] by (simp add: abs_of_def)
    ultimately show ?thesis by (simp add: simulated_def)
  qed
  show ?thesis
  proof (cases v)
    case Abandoned
    with step v rep sim_lose [OF inv th, where ts = "[W_Idle]" and es = "[]" and n = "d_workers (s_disp s)"
        and c = "s_cancelled s" and x = "s_crash s"] show ?thesis
      by (auto simp: run_step_def split: if_splits)
  next
    case (Panicked e)
    with v no_nil_error [OF sys_invD(2) [OF inv], of rounds] sys_invD(2) [OF inv]
    have "e \<noteq> NilDereference" by auto
    then have "allowed_panic e" using retry_loop_panics [OF v [unfolded Panicked]] by (auto simp: allowed_panic_def)
    with Panicked step v rep t sim_lose [OF inv th, where ts = "[]" and es = "[e]" and c = True and x = "s_crash s"] show ?thesis
      by (auto simp: run_step_def panic_at_def)
  qed (use step v rep settled in \<open>auto simp: run_step_def\<close>)
qed

lemma step_sim_act:
  assumes inv: "sys_inv s" and tok: "token_inv (abs_of s)" and step: "sys_step (Act i ord) s = Some s'"
  shows "simulated_run s s'"
proof -
  have i: "i < length (s_threads s)" using step by (auto split: if_splits)
  obtain pre post where th: "s_threads s = pre @ s_threads s ! i # post"
    and rep: "\<And>ts. replace_thread i ts s = s\<lparr>s_threads := pre @ ts @ post\<rparr>"
    using thread_split [OF i] by metis
  obtain r where r: "thread_step ord (s_threads s ! i) (s_disp s) = Some r"
    using step i by (auto split: option.splits)
  show ?thesis
  proof (cases r)
    case (Inl e)
    with r act_panic [OF inv tok th] have "allowed_panic e" by (simp add: allowed_panic_def)
    with sim_lose [OF inv th, of "[]" "[e]"] step i r Inl rep show ?thesis
      by (auto simp: panic_at_def intro!: simulated_runI)
  next
    case (Inr x)
    obtain ts d' where "x = (ts, d')" by (cases x)
    with act_sim [OF inv tok th, of ord ts d'] step i r Inr rep show ?thesis
      by (auto simp: stepped_def intro!: simulated_runI)
  qed
qed

lemma step_sim_call:
  assumes inv: "sys_inv s" and poll: "poll_inv s" and step: "sys_step (Call i c) s = Some s'"
  shows "simulated_run s s'"
proof -
  have i: "i < length (s_threads s)" "s_threads s ! i = P_Idle" using step by (auto split: if_splits)
  obtain pre post where th: "s_threads s = pre @ P_Idle # post"
    and rep: "\<And>ts. replace_thread i ts s = s\<lparr>s_threads := pre @ ts @ post\<rparr>"
    using thread_split [OF i(1)] i(2) by metis
  obtain ts d' where "call_step c (s_disp s) = Inr (ts, d')"
    using call_no_panic [OF inv poll th] by (cases "call_step c (s_disp s)") auto
  with call_sim [OF inv th, of c ts d'] step i rep show ?thesis by (auto simp: called_def)
qed

lemma step_sim_worker:
  assumes inv: "sys_inv s" and step: "sys_step (Take i) s = Some s' \<or> sys_step (Exit i) s = Some s'"
  shows "simulated_run s s'"
proof -
  have i: "i < length (s_threads s)" "s_threads s ! i = W_Idle" using step by (auto split: if_splits)
  obtain pre post where th: "s_threads s = pre @ W_Idle # post"
    and rep: "\<And>ts. replace_thread i ts s = s\<lparr>s_threads := pre @ ts @ post\<rparr>"
    using thread_split [OF i(1)] i(2) by metis
  obtain ts d' where s': "s' = s\<lparr>s_threads := pre @ ts @ post, s_disp := d'\<rparr>"
    and d': "d_cfg d' = d_cfg (s_disp s)" "d_coordinator d' = d_coordinator (s_disp s)"
      "\<And>q. in_flight q d' = in_flight q (s_disp s)" "\<And>q. buffered q d' = buffered q (s_disp s)"
      "held_all ts + queued d' = queued (s_disp s)" "\<And>b k. T_PutBack b k \<notin> set ts"
  proof (cases "sys_step (Exit i) s = Some s'")
    case True
    then show thesis
      using i rep that [where ts = "[]" and d' = "(s_disp s)\<lparr>d_workers := d_workers (s_disp s) - 1\<rparr>"]
      by (simp split: if_splits)
  next
    case False
    with step i rep obtain b bs where b: "d_batchCh (s_disp s) = b # bs"
      "s' = s\<lparr>s_threads := pre @ [W_Run b] @ post, s_disp := (s_disp s)\<lparr>d_batchCh := bs\<rparr>\<rparr>"
      by (auto split: list.splits)
    then show thesis
      using that [where ts = "[W_Run b]" and d' = "(s_disp s)\<lparr>d_batchCh := bs\<rparr>"] by (simp add: queued_def)
  qed
  have "sys_inv s'"
    by (rule sys_inv_update [OF inv th, where ts = ts])
      (use d' sys_invD(3) [OF inv] in \<open>simp_all add: s'\<close>)
  moreover have "held_all pre + (held_all ts + held_all post) + queued d'
      = held_all pre + held_all post + (held_all ts + queued d')" by (simp add: ac_simps)
  then have "abs_of s' = abs_of s" using d' by (simp add: s' abs_of_def th)
  ultimately show ?thesis by (simp add: simulated_run_def)
qed

lemma step_sim:
  assumes inv: "sys_inv s" and poll: "poll_inv s" and tok: "token_inv (abs_of s)"
    and step: "sys_step l s = Some s'"
  shows "simulated_run s s'"
proof (cases l)
  case (Process i rounds start now dlq)
  with step obtain b where "i < length (s_threads s)" "s_threads s ! i = W_Run b"
    "run_step i b rounds start now dlq s = Some s'"
    by (auto split: if_splits thread.splits)
  from run_sim [OF inv this] show ?thesis by (rule simulated_runI)
next
  case (Fire j)
  with step have "\<exists>p ti. s' = s\<lparr>s_threads := s_threads s @ [T_Linger p], s_disp := (s_disp s)\<lparr>d_timers := ti\<rparr>\<rparr>"
    by (auto simp: Let_def case_prod_beta split: if_splits)
  with inv show ?thesis by (auto simp: simulated_run_def sys_inv_def abs_of_def) blast
next
  case Cancel
  with step inv show ?thesis by (auto simp: simulated_run_def sys_inv_def abs_of_def) blast
qed (use step step_sim_act [OF inv tok] step_sim_call [OF inv poll] step_sim_worker [OF inv] in blast)+

subsection \<open>Reachable states\<close>

lemma bp_reach_star: "proto_step\<^sup>*\<^sup>* a a' \<Longrightarrow> bp.reach a \<Longrightarrow> bp.reach a'"
  by (induction rule: rtranclp_induct) (auto intro: bp.reach_step)

lemma sys_start_inv:
  assumes "sys_init s"
  shows "proto_init (abs_of s) \<and> sys_inv s \<and> poll_inv s"
proof -
  obtain cfg where "0 < dc_BatchSize cfg" "0 \<le> dc_MaxRetries cfg" "sys_start cfg = Some s"
    using assms by (auto simp: sys_init_def)
  then show ?thesis
    by (auto simp: sys_start_def sys_of_def NewUnorderedDispatcher_def Start_def proto_init_def abs_of_def sys_inv_def
        poll_inv_def pollers_def queued_def buffer_views coord_wf_new oc.view_new split: if_splits)
qed

lemma reach_sim: "sy.reach s \<Longrightarrow> bp.reach (abs_of s) \<and> sys_inv s \<and> poll_inv s"
proof (rule sy.invariant_rule [where I = "\<lambda>s. bp.reach (abs_of s) \<and> sys_inv s \<and> poll_inv s"])
  fix s assume "sys_init s"
  with sys_start_inv show "bp.reach (abs_of s) \<and> sys_inv s \<and> poll_inv s" by (blast intro: bp.reach_init)
next
  fix s t assume inv: "bp.reach (abs_of s) \<and> sys_inv s \<and> poll_inv s" and "sys_next s t"
  then obtain l where l: "sys_step l s = Some t" unfolding sys_next_def by blast
  from inv have "token_inv (abs_of s)" using bp_token_inv by blast
  with step_sim l inv have "simulated_run s t" by blast
  moreover have "poll_inv t" using inv l poll_inv_step by blast
  ultimately show "bp.reach (abs_of t) \<and> sys_inv t \<and> poll_inv t"
    using inv bp_reach_star unfolding simulated_run_def by blast
qed simp

lemma reach_token_inv: "sy.reach s \<Longrightarrow> token_inv (abs_of s)"
  using reach_sim bp_token_inv by blast

text \<open>
  The one way a process can be ended by a goroutine of the dispatcher: a send on the channel
  after it was closed.
\<close>

definition crash_inv :: "sys \<Rightarrow> bool" where
  "crash_inv s \<longleftrightarrow> (\<forall>e. s_crash s = Some e \<longrightarrow>
     e = SendOnClosedChannel \<and> d_batchChClosed (s_disp s) \<and> e \<in> set (s_panics s))"

lemma act_panic_closed:
  assumes inv: "sys_inv s" and tok: "token_inv (abs_of s)" and th: "s_threads s = pre @ t # post"
    and step: "thread_step ord t (s_disp s) = Some (Inl e)"
  shows "e = SendOnClosedChannel \<and> d_batchChClosed (s_disp s)"
proof -
  have "e = SendOnClosedChannel" by (rule act_panic [OF assms])
  moreover from this step regions_no_panic [OF inv] have "d_batchChClosed (s_disp s)"
    by (cases t) (auto simp: go_bind_Inl_iff chan_send_def track_def complete_def put_back_def
        BatchDispatched_def BatchComplete_def Let_def split: if_splits option.splits)
  ultimately show ?thesis by blast
qed

lemma note_crash [simp]:
  "s_crash (note_rejected t s) = s_crash s" "s_crash (note_sent c ts s) = s_crash s"
  "s_crash (replace_thread i ts s) = s_crash s"
  by (cases t, simp_all add: replace_thread_def) (cases c, simp_all)

lemma crash_inv_step:
  assumes inv: "sys_inv s" and poll: "poll_inv s" and tok: "token_inv (abs_of s)"
    and step: "sys_step l s = Some s'"
  shows "crash_inv s'"
proof -
  have live: "s_crash s = None" using step by (simp add: sys_step_Some)
  show ?thesis
  proof (cases "s_crash s'")
    case None
    then show ?thesis by (simp add: crash_inv_def)
  next
    case (Some e)
    show ?thesis
    proof (cases l)
      case (Act i ord)
      with step have i: "i < length (s_threads s)" by (auto split: if_splits)
      obtain pre post where th: "s_threads s = pre @ s_threads s ! i # post"
        using thread_split [OF i] by metis
      from Act step live i Some have "\<exists>x. thread_step ord (s_threads s ! i) (s_disp s) = Some (Inl x)
          \<and> s' = panic_at i x s" by (auto split: option.splits sum.splits)
      with act_panic_closed [OF inv tok th, of ord] Some live show ?thesis
        by (auto simp: crash_inv_def panic_at_def split: if_splits)
    next
      case (Call i c)
      with step have i: "i < length (s_threads s)" "s_threads s ! i = P_Idle" by (auto split: if_splits)
      obtain pre post where th: "s_threads s = pre @ P_Idle # post" using thread_split [OF i(1)] i(2) by metis
      with Call step live i Some call_no_panic [OF inv poll th, of c] show ?thesis by (auto split: sum.splits)
    next
      case (Process i rounds start now dlq)
      with step live Some show ?thesis
        by (auto simp: run_step_def panic_at_def split: if_splits thread.splits option.splits verdict.splits)
    qed (use step live Some in \<open>auto simp: Let_def case_prod_beta split: if_splits list.splits\<close>)
  qed
qed

lemma reach_crash_inv: "sy.reach s \<Longrightarrow> crash_inv s"
proof (rule sy.invariant_rule [where I = crash_inv])
  fix s assume "sys_init s"
  then obtain cfg where "sys_start cfg = Some s" unfolding sys_init_def by blast
  then have "s_crash s = None" by (auto simp: sys_start_def sys_of_def split: sum.splits)
  then show "crash_inv s" by (simp add: crash_inv_def)
next
  fix s t assume "sy.reach s" "sys_next s t"
  then show "crash_inv t"
    using crash_inv_step [of s] reach_sim [of s] reach_token_inv [of s] unfolding sys_next_def by blast
qed simp

lemma reach_crash:
  "sy.reach s \<Longrightarrow> s_crash s = Some e \<Longrightarrow> e = SendOnClosedChannel"
  "sy.reach s \<Longrightarrow> \<not> d_batchChClosed (s_disp s) \<Longrightarrow> s_crash s = None"
  using reach_crash_inv [of s] by (auto simp: crash_inv_def)

text \<open>Messages in the order of their offsets, none of them at the largest offset there is.\<close>

definition increasing :: "message list \<Rightarrow> bool" where
  "increasing xs \<longleftrightarrow> sorted_wrt (\<lambda>x y. sint (m_Offset x) < sint (m_Offset y)) xs
     \<and> (\<forall>x\<in>set xs. sint (m_Offset x) < 2 ^ 63 - 1)"

lemma settled_below:
  assumes xs: "xs = dn @ rest" and inc: "increasing xs"
    and off: "dn \<noteq> []" "off = m_Offset (last dn) + 1" and x: "x \<in> set xs" "sint (m_Offset x) < sint off"
  shows "x \<in> set dn"
proof (rule ccontr)
  assume "x \<notin> set dn"
  then have "x \<in> set rest" using x(1) xs by simp
  then have "sint (m_Offset (last dn)) < sint (m_Offset x)"
    using inc off(1) by (simp add: increasing_def xs sorted_wrt_append)
  moreover have "sint off = sint (m_Offset (last dn)) + 1"
    using inc off by (simp add: increasing_def xs sint_plus_one)
  ultimately show False using x(2) by simp
qed

lemma reach_settled:
  assumes "sy.reach s" and "p \<notin> s_rejected s"
  shows "(\<exists>rest. s_sent s p = s_done s p @ rest)
    \<and> (\<forall>off. fmlookup (Committable (d_coordinator (s_disp s))) p = Some off \<longrightarrow>
         s_done s p \<noteq> [] \<and> off = m_Offset (last (s_done s p)) + 1)"
proof -
  have "undisturbed p (abs_of s)" using assms(2) by (simp add: undisturbed_def abs_of_def)
  with reach_sim [OF assms(1)] have "data_inv p (abs_of s)" using bp_data_inv by blast
  then obtain ys where ys: "s_sent s p = s_done s p @ ys @ buffered p (s_disp s)"
    and compl: "\<And>m. coord_view (d_coordinator (s_disp s)) p = Completed m
      \<Longrightarrow> s_done s p \<noteq> [] \<and> m_Offset (last (s_done s p)) = m"
    by (rule data_invE) (simp add: abs_of_def)
  have wf: "coord_wf (d_coordinator (s_disp s))" using reach_sim [OF assms(1)] sys_invD(3) by blast
  have "s_done s p \<noteq> [] \<and> off = m_Offset (last (s_done s p)) + 1"
    if "fmlookup (Committable (d_coordinator (s_disp s))) p = Some off" for off
    using that compl by (auto simp: oc.lookup_committable [OF wf] spec_committable_def split: slot.splits)
  with ys show ?thesis by blast
qed

lemma reach_origin: "sy.reach s \<Longrightarrow> origin_inv (abs_of s)"
  using reach_sim bp_origin_inv by blast

subsection \<open>Schedules\<close>

definition after :: "config \<Rightarrow> label list \<Rightarrow> sys option" where
  "after cfg ls = Option.bind (sys_start cfg) (run ls)"

lemma after_reach:
  assumes "after cfg ls = Some s" and "0 < dc_BatchSize cfg" and "0 \<le> dc_MaxRetries cfg"
  shows "sy.reach s"
proof -
  from assms(1) obtain s0 where s0: "sys_start cfg = Some s0" "run ls s0 = Some s"
    by (auto simp: after_def bind_eq_Some_conv)
  with assms(2,3) have "sys_init s0" unfolding sys_init_def by blast
  then have "sy.reach s0" by (rule sy.reach_init)
  from run_reach [OF this s0(2)] show ?thesis .
qed

definition demo_msg :: "int64 \<Rightarrow> message" where
  "demo_msg off = \<lparr>m_Topic = ''t'', m_Partition = 0, m_Offset = off, m_Key = None, m_Value = None,
     m_Timestamp = 0, m_Headers = [], m_PolledAt = 0\<rparr>"

text \<open>One worker, batches of two messages.\<close>

definition demo_cfg :: config where
  "demo_cfg = DefaultDispatcherConfig\<lparr>dc_BatchSize := 2, dc_WorkerCount := 1\<rparr>"

text \<open>
  A full batch is dispatched and processed; a linger flush that passed its closed check before
  \<open>Close\<close>; a batch that meets a full channel of capacity 1.
\<close>

definition dispatch_schedule :: "label list" where
  "dispatch_schedule = [Call 0 (CSend 0 [demo_msg 7, demo_msg 8]), Act 0 [], Act 0 [], Act 0 []]"

definition settle_schedule :: "label list" where
  "settle_schedule = dispatch_schedule @ [Act 0 [], Take 1, Process 1 [round_ok] 0 1 None, Act 1 []]"

definition close_schedule :: "label list" where
  "close_schedule = [Call 0 (CSend 0 [demo_msg 7]), Act 0 [], Fire 0, Act 2 [], Act 2 [], Act 2 [],
     Call 0 (CClose [0]), Act 2 [], Act 2 []]"

definition full_cfg :: config where
  "full_cfg = DefaultDispatcherConfig\<lparr>dc_BatchSize := 1, dc_WorkerCount := 1, dc_ChannelCap := 1\<rparr>"

definition full_schedule :: "label list" where
  "full_schedule = [Call 0 (CSend 0 [demo_msg 3]), Act 0 [], Act 0 [], Act 0 [], Act 0 [],
     Call 0 (CSend 1 [demo_msg 41]), Act 0 [], Act 0 [], Act 0 [], Act 0 [], Act 0 [], Act 0 []]"

text \<open>A linger flush has assembled a batch when its partition is revoked and reset.\<close>

definition stale_schedule :: "label list" where
  "stale_schedule = [Call 0 (CSend 0 [demo_msg 7]), Act 0 [], Fire 0, Act 2 [], Act 2 [],
     Call 0 (CRevoke [\<lparr>p_Topic = ''t'', p_Partition = 0\<rparr>]), Call 0 (CReset 0),
     Act 2 [], Act 2 [], Act 2 [], Take 1, Process 1 [round_ok] 0 1 None, Act 1 []]"

lemma cfg_ok:
  "0 < dc_BatchSize demo_cfg" "0 \<le> dc_MaxRetries demo_cfg"
  "0 < dc_BatchSize full_cfg" "0 \<le> dc_MaxRetries full_cfg"
  by (simp_all add: demo_cfg_def full_cfg_def DefaultDispatcherConfig_def)

subsection \<open>Properties\<close>

text \<open>
  C2: however the poll loop, the workers, the linger timers, rebalances, coordinator resets
  and shutdown interleave, no batch ever reaches the coordinator twice or under another
  offset. In every reachable state the only panics that have happened are the processor's own
  and a send on the closed batch channel: never one of the coordinator's two panics, a nil
  buffer, an empty batch or a second close. For each partition at most one batch is between
  assembly and release, and what the coordinator has in flight is that batch.
\<close>

theorem one_batch_in_flight:
  assumes "sy.reach s"
  shows "(\<forall>e\<in>set (s_panics s). e = SendOnClosedChannel \<or> (\<exists>v. e = ProcessorPanic v))
    \<and> size (tokens_of p (held_all (s_threads s) + queued (s_disp s))) \<le> (if in_flight p (s_disp s) then 1 else 0)
    \<and> (\<forall>m. coord_view (d_coordinator (s_disp s)) p = InFlight m \<longrightarrow> in_flight p (s_disp s))
    \<and> (\<forall>b. W_Run b \<in> set (s_threads s) \<longrightarrow>
         coord_view (d_coordinator (s_disp s)) (b_partition b) \<in> {Idle, InFlight (b_maxOffset b)})"
proof -
  note tok = reach_token_inv [OF assms] and inv = reach_sim [OF assms]
  have run: "coord_view (d_coordinator (s_disp s)) (b_partition b) \<in> {Idle, InFlight (b_maxOffset b)}"
    if "W_Run b \<in> set (s_threads s)" for b
  proof -
    from split_list [OF that] obtain pre post where "s_threads s = pre @ W_Run b # post" by blast
    from view_at(1) [OF tok this, of Tracked b] show ?thesis by simp
  qed
  show ?thesis
    using token_invD(1) [OF tok, of p] token_invD(3) [OF tok, of p] run inv
    by (auto simp: abs_of_def sys_inv_def allowed_panic_def)
qed

theorem one_batch_in_flight_witness:
  "\<exists>s. sy.reach s \<and> s_panics s = [SendOnClosedChannel]
     \<and> (\<forall>p. size (tokens_of p (held_all (s_threads s) + queued (s_disp s))) \<le> 1)"
proof -
  have "map_option s_panics (after demo_cfg close_schedule) = Some [SendOnClosedChannel]" by code_simp
  then obtain s where s: "after demo_cfg close_schedule = Some s" "s_panics s = [SendOnClosedChannel]" by auto
  from after_reach [OF s(1) cfg_ok(1,2)] have r: "sy.reach s" .
  have "size (tokens_of p (held_all (s_threads s) + queued (s_disp s))) \<le> 1" for p
    using one_batch_in_flight [OF r, of p] by (simp split: if_splits)
  with r s(2) show ?thesis by blast
qed

text \<open>
  C27: the channel cannot fill up while it has a place for every partition. A goroutine that
  is about to put a batch into the open channel finds room in every reachable state in which
  the dispatcher knows at most \<open>ChannelCap\<close> partitions; \<open>Send\<close> then never reports
  backpressure and what is buffered is not bounded by the channel's capacity, although the
  requirements (NFR-4.3) say that the memory in use is.
\<close>

theorem channel_has_room:
  assumes "sy.reach s" and "T_SendCh b k \<in> set (s_threads s)"
    and "int (fcard (fmdom (d_partitions (s_disp s)))) \<le> dc_ChannelCap (d_cfg (s_disp s))"
    and "\<not> d_batchChClosed (s_disp s)"
  shows "\<exists>d'. chan_send b (s_disp s) = Inr (True, d')"
proof -
  let ?d = "s_disp s"
  have "size (a_tok (abs_of s)) \<le> card (fset (fmdom (d_partitions ?d)))"
  proof (rule tokens_bounded [OF reach_token_inv [OF assms(1)]])
    show "p \<in> fset (fmdom (d_partitions ?d))" if "a_infl (abs_of s) p" for p
      using that in_flight_lookup [of p ?d] by (auto simp: abs_of_def fmlookup_dom_iff)
  qed simp
  moreover obtain pre post where "s_threads s = pre @ T_SendCh b k # post"
    using split_list [OF assms(2)] by blast
  then have "Suc (length (d_batchCh ?d)) \<le> size (a_tok (abs_of s))"
    by (simp add: abs_of_def queued_def)
  ultimately have "int (length (d_batchCh ?d)) < dc_ChannelCap (d_cfg ?d)"
    using assms(3) by (simp add: fcard.rep_eq)
  with assms(4) show ?thesis by (simp add: chan_send_def)
qed

theorem channel_has_room_witness:
  "\<exists>s b k. sy.reach s \<and> s_threads s = [T_SendCh b k, W_Idle]
     \<and> (\<exists>d'. chan_send b (s_disp s) = Inr (True, d'))"
proof -
  have "map_option (\<lambda>s. (s_threads s, fcard (fmdom (d_partitions (s_disp s))), d_cfg (s_disp s),
        d_batchChClosed (s_disp s))) (after demo_cfg dispatch_schedule)
      = Some ([T_SendCh (batch_of 0 [demo_msg 7, demo_msg 8]) C_Poll, W_Idle], 1, demo_cfg, False)"
    by code_simp
  then obtain s where s: "after demo_cfg dispatch_schedule = Some s"
      "s_threads s = [T_SendCh (batch_of 0 [demo_msg 7, demo_msg 8]) C_Poll, W_Idle]"
      "fcard (fmdom (d_partitions (s_disp s))) = 1" "d_cfg (s_disp s) = demo_cfg"
      "\<not> d_batchChClosed (s_disp s)" by auto
  from after_reach [OF s(1) cfg_ok(1,2)] have r: "sy.reach s" .
  have "\<exists>d'. chan_send (batch_of 0 [demo_msg 7, demo_msg 8]) (s_disp s) = Inr (True, d')"
    by (rule channel_has_room [OF r, of _ C_Poll])
      (use s in \<open>simp_all add: demo_cfg_def DefaultDispatcherConfig_def\<close>)
  with r s(2) show ?thesis by blast
qed

text \<open>
  At least once. As long as none of the batches of a partition met a full channel, its
  settled messages are an initial part, in order and without repetition, of the messages that
  \<open>Send\<close> accepted for it and no revocation has discarded from the buffer; and the offset that
  \<open>Committable\<close> reports is one more than the offset of the last settled message. So when the
  offsets increase, every such message below the reported offset has been settled. This holds
  at every moment of every interleaving, rebalances and coordinator resets included.
\<close>

theorem committable_implies_settled:
  assumes "sy.reach s" and "p \<notin> s_rejected s"
  shows "(\<exists>rest. s_sent s p = s_done s p @ rest)
    \<and> (\<forall>off. fmlookup (Committable (d_coordinator (s_disp s))) p = Some off \<longrightarrow>
         s_done s p \<noteq> [] \<and> off = m_Offset (last (s_done s p)) + 1
         \<and> (increasing (s_sent s p) \<longrightarrow>
              (\<forall>x\<in>set (s_sent s p). sint (m_Offset x) < sint off \<longrightarrow> x \<in> set (s_done s p))))"
proof -
  from reach_settled [OF assms] obtain rest where rest: "s_sent s p = s_done s p @ rest"
    and c: "\<forall>off. fmlookup (Committable (d_coordinator (s_disp s))) p = Some off
      \<longrightarrow> s_done s p \<noteq> [] \<and> off = m_Offset (last (s_done s p)) + 1" by blast
  then show ?thesis using settled_below [OF rest] by blast
qed

theorem committable_implies_settled_witness:
  "\<exists>s. sy.reach s \<and> fmlookup (Committable (d_coordinator (s_disp s))) 0 = Some 9
     \<and> s_done s 0 = [demo_msg 7, demo_msg 8]
     \<and> (\<forall>x\<in>set (s_sent s 0). sint (m_Offset x) < sint (9 :: int64) \<longrightarrow> x \<in> set (s_done s 0))"
proof -
  have "map_option (\<lambda>s. (fmlookup (Committable (d_coordinator (s_disp s))) 0, s_done s 0, s_sent s 0))
        (after demo_cfg settle_schedule)
      = Some (Some 9, [demo_msg 7, demo_msg 8], [demo_msg 7, demo_msg 8])"
    "map_option (\<lambda>s. 0 \<in> s_rejected s) (after demo_cfg settle_schedule) = Some False"
    by code_simp+
  then obtain s where s: "after demo_cfg settle_schedule = Some s"
      "fmlookup (Committable (d_coordinator (s_disp s))) 0 = Some 9"
      "s_done s 0 = [demo_msg 7, demo_msg 8]" "s_sent s 0 = [demo_msg 7, demo_msg 8]"
      "0 \<notin> s_rejected s" by auto
  from after_reach [OF s(1) cfg_ok(1,2)] have r: "sy.reach s" .
  have "increasing (s_sent s 0)" by (simp add: s(4) demo_msg_def increasing_def)
  with committable_implies_settled [OF r s(5)] s(2)
  have "\<forall>x\<in>set (s_sent s 0). sint (m_Offset x) < sint (9 :: int64) \<longrightarrow> x \<in> set (s_done s 0)" by blast
  with r s(2,3) show ?thesis by blast
qed

text \<open>
  C28: \<open>Close\<close> can crash the process. The check of the closed flag in \<open>dispatchBatch\<close> and the
  channel send are two steps, and \<open>Close\<close> can close the channel between them: a schedule of one
  \<open>Send\<close>, the firing of its linger timer and \<open>Close\<close> ends in a send on a closed channel, in
  the timer's goroutine, which does not recover. The process has crashed with that panic: no
  goroutine takes another step.
\<close>

theorem close_races_dispatch:
  "\<exists>s. sy.reach s \<and> after demo_cfg close_schedule = Some s \<and> s_panics s = [SendOnClosedChannel]
     \<and> s_threads s = [P_Closed, W_Idle] \<and> \<not> s_cancelled s
     \<and> s_crash s = Some SendOnClosedChannel \<and> (\<forall>l. sys_step l s = None)"
proof -
  have "map_option (\<lambda>s. (s_panics s, s_threads s, s_cancelled s, s_crash s)) (after demo_cfg close_schedule)
      = Some ([SendOnClosedChannel], [P_Closed, W_Idle], False, Some SendOnClosedChannel)" by code_simp
  then obtain s where s: "after demo_cfg close_schedule = Some s" "s_panics s = [SendOnClosedChannel]"
    "s_threads s = [P_Closed, W_Idle]" "\<not> s_cancelled s" "s_crash s = Some SendOnClosedChannel" by auto
  show ?thesis
    by (rule exI [where x = s], intro conjI)
      (use s after_reach [OF s(1) cfg_ok(1,2)] crashed_stuck [OF s(5)] in simp_all)
qed

text \<open>
  C29: with a full channel the coordinator reports offsets that nobody has processed. There is
  a reachable state in which the poll loop is idle, and so may commit, partition 1 has one
  accepted message, at offset 41, none of its messages is settled, and \<open>Committable\<close> reports
  offset 42 for it.
\<close>

theorem backpressure_commits_unprocessed:
  "\<exists>s. sy.reach s \<and> after full_cfg full_schedule = Some s \<and> s_threads s = [P_Idle, W_Idle]
     \<and> map m_Offset (s_sent s 1) = [41] \<and> s_done s 1 = []
     \<and> fmlookup (Committable (d_coordinator (s_disp s))) 1 = Some 42"
proof -
  have "map_option (\<lambda>s. (s_threads s, map m_Offset (s_sent s 1), s_done s 1,
        fmlookup (Committable (d_coordinator (s_disp s))) 1)) (after full_cfg full_schedule)
      = Some ([P_Idle, W_Idle], [41], [], Some 42)" by code_simp
  then obtain s where s: "after full_cfg full_schedule = Some s" "s_threads s = [P_Idle, W_Idle]"
    "map m_Offset (s_sent s 1) = [41]" "s_done s 1 = []"
    "fmlookup (Committable (d_coordinator (s_disp s))) 1 = Some 42" by auto
  show ?thesis
    by (rule exI [where x = s], intro conjI) (use s after_reach [OF s(1) cfg_ok(3,4)] in simp_all)
qed

text \<open>
  C30: a revocation does not stop an offset from becoming committable. A batch that a goroutine
  has assembled, but not yet tracked, when its partition is revoked and the coordinator reset
  is tracked afterwards; once it is processed, the coordinator reports an offset for a
  partition that is no longer assigned, and the next commit sends it.
\<close>

theorem revoked_offset_committable:
  "\<exists>s. sy.reach s \<and> after demo_cfg stale_schedule = Some s \<and> s_threads s = [P_Idle, W_Done (batch_of 0 [demo_msg 7])]
     \<and> {Call 0 (CRevoke [\<lparr>p_Topic = ''t'', p_Partition = 0\<rparr>]), Call 0 (CReset 0)} \<subseteq> set stale_schedule
     \<and> fmlookup (Committable (d_coordinator (s_disp s))) 0 = Some 8"
proof -
  have "map_option (\<lambda>s. (s_threads s, fmlookup (Committable (d_coordinator (s_disp s))) 0))
      (after demo_cfg stale_schedule) = Some ([P_Idle, W_Done (batch_of 0 [demo_msg 7])], Some 8)" by code_simp
  then obtain s where s: "after demo_cfg stale_schedule = Some s"
    "s_threads s = [P_Idle, W_Done (batch_of 0 [demo_msg 7])]"
    "fmlookup (Committable (d_coordinator (s_disp s))) 0 = Some 8" by auto
  show ?thesis
    by (rule exI [where x = s], intro conjI)
      (use s after_reach [OF s(1) cfg_ok(1,2)] in \<open>simp_all add: stale_schedule_def\<close>)
qed

end
