(* ===== verification/Concurrent_Loop.thy ===== *)
theory Concurrent_Loop
  imports Commit_Safety Dispatcher_Concurrency
begin

text \<open>
  The poll loop over the interleaved goroutines of the dispatcher. The world of the poll loop
  is here the system of \<open>Dispatcher_Concurrency\<close>, in which the poll loop is the first goroutine,
  together with a schedule: what the workers and the linger timers do at each point where the
  poll loop can be overtaken, that is before, between and after the steps of every call it
  makes. The operations of the dispatcher are then sequences of atomic steps of the poll
  loop's own goroutine with steps of the others in between, and the poll loop of \<open>Poll_Loop\<close>
  runs over them unchanged. The interface \<open>dispatch_port\<close> gives that nothing stops it before
  its context ends and that what it sends is handed over, \<open>commit_port\<close> that every commit it
  sends is backed by settled messages. A panic of a linger callback ends the process; the poll
  loop sees it as the panic \<open>OtherGoroutine\<close> of its next step.
\<close>

subsection \<open>The world of the poll loop\<close>

record cworld =
  cw_sys :: sys
  cw_sched :: "label list list"

text \<open>The steps that are not the poll loop's: its goroutine is the first one.\<close>

fun foreign :: "label \<Rightarrow> bool" where
  "foreign (Act i ord) = (0 < i)"
| "foreign (Call i c) = False"
| "foreign _ = True"

text \<open>A stretch of such steps; a step that is not enabled is skipped.\<close>

fun goroutines :: "label list \<Rightarrow> sys \<Rightarrow> sys" where
  "goroutines [] s = s"
| "goroutines (l # ls) s =
     goroutines ls (if foreign l then (case sys_step l s of None \<Rightarrow> s | Some t \<Rightarrow> t) else s)"

definition overtaken :: "cworld \<Rightarrow> cworld" where
  "overtaken w = (case cw_sched w of
     [] \<Rightarrow> w
   | ls # rest \<Rightarrow> \<lparr>cw_sys = goroutines ls (cw_sys w), cw_sched = rest\<rparr>)"

definition poll_thread :: "cworld \<Rightarrow> thread" where
  "poll_thread w = (case s_threads (cw_sys w) of [] \<Rightarrow> P_Closed | t # ts \<Rightarrow> t)"

text \<open>
  A step of the poll loop's own goroutine; a panic in it ends the loop, and there is no step
  when the process has crashed.
\<close>

definition own_step :: "label \<Rightarrow> cworld \<Rightarrow> panic + cworld" where
  "own_step l w = (case s_crash (cw_sys w) of
     Some e \<Rightarrow> Inl (OtherGoroutine e)
   | None \<Rightarrow>
       (case sys_step l (cw_sys w) of
          None \<Rightarrow> Inr w
        | Some t \<Rightarrow> if length (s_panics (cw_sys w)) < length (s_panics t) then Inl (last (s_panics t))
                    else Inr (w\<lparr>cw_sys := t\<rparr>)))"

text \<open>The error \<open>Send\<close> returns when its goroutine goes idle after the given position.\<close>

fun send_error :: "thread \<Rightarrow> dispatcher \<Rightarrow> go_error option" where
  "send_error (T_Check b k) d = (if d_closed d then Some errClosed else None)"
| "send_error (T_PutBack b k) d = Some (Sentinel ErrBackpressure)"
| "send_error _ d = None"

text \<open>
  The rest of \<open>Send\<close> after it has buffered the messages. The number bounds the steps: six are
  enough, from the attempt to dispatch to the put-back of a rejected batch.
\<close>

fun finish_send :: "nat \<Rightarrow> cworld \<Rightarrow> panic + (go_error option \<times> cworld)" where
  "finish_send 0 w = Inr (None, w)"
| "finish_send (Suc n) w =
     (let v = overtaken w
      in go_bind (own_step (Act 0 []) v) (\<lambda>u.
           if poll_thread u = P_Idle
           then Inr (send_error (poll_thread v) (s_disp (cw_sys v)), overtaken u)
           else finish_send n u))"

definition conc_Send :: "int32 \<Rightarrow> message list \<Rightarrow> cworld \<Rightarrow> panic + (go_error option \<times> cworld)" where
  "conc_Send p msgs w =
     go_bind (own_step (Call 0 (CSend p msgs)) (overtaken w)) (\<lambda>u.
       if poll_thread u = P_Idle then Inr (Some errClosed, u) else finish_send 6 u)"

text \<open>The calls that are one step.\<close>

definition conc_call :: "call \<Rightarrow> cworld \<Rightarrow> panic + cworld" where
  "conc_call c w = map_sum id overtaken (own_step (Call 0 c) (overtaken w))"

definition conc_call_total :: "call \<Rightarrow> cworld \<Rightarrow> cworld" where
  "conc_call_total c w = (case conc_call c w of Inl _ \<Rightarrow> w | Inr v \<Rightarrow> v)"

text \<open>
  \<open>Close\<close> waits, while the others go on, until the workers are gone or its deadline has passed;
  \<open>late\<close> says that the deadline was noticed first. A callback of a linger timer may meet the
  closed channel meanwhile.
\<close>

definition conc_Close :: "int32 list \<Rightarrow> bool \<Rightarrow> cworld \<Rightarrow> panic + (go_error option \<times> cworld)" where
  "conc_Close ord late w =
     go_bind (conc_call (CClose ord) w) (\<lambda>v.
       case s_crash (cw_sys v) of
         Some e \<Rightarrow> Inl (OtherGoroutine e)
       | None \<Rightarrow> Inr (if d_workers (s_disp (cw_sys v)) = 0 \<and> \<not> late then None
                     else Some (Sentinel ContextDeadlineExceeded), v))"

text \<open>What the others do from the end of \<open>Close\<close> on, while \<open>Run\<close> commits, closes and returns.\<close>

definition conc_Crash :: "cworld \<Rightarrow> panic option" where
  "conc_Crash w = s_crash (cw_sys (overtaken w))"

definition conc_ops :: "int32 list \<Rightarrow> bool \<Rightarrow> cworld disp_ops" where
  "conc_ops ord late =
     \<lparr>do_Send = conc_Send, do_Assigned = (\<lambda>ps. conc_call (CAssign ps)),
      do_Revoked = (\<lambda>ps. conc_call_total (CRevoke ps)), do_Close = conc_Close ord late,
      do_Committable = (\<lambda>w. Committable (d_coordinator (s_disp (cw_sys w)))),
      do_Reset = (\<lambda>p. conc_call_total (CReset p)), do_Crash = conc_Crash\<rparr>"

text \<open>What the others do between two events of the loop.\<close>

definition others :: "label list \<Rightarrow> cworld \<Rightarrow> cworld" where
  "others ls w = w\<lparr>cw_sys := goroutines ls (cw_sys w)\<rparr>"

definition conc_events :: "(event \<times> answers \<times> label list) list \<Rightarrow> (event \<times> answers \<times> (cworld \<Rightarrow> cworld)) list"
where
  "conc_events evs = map (\<lambda>(ev, ans, ls). (ev, ans, others ls)) evs"

subsection \<open>Steps of the system\<close>

text \<open>Settled messages stay settled, and a rejection is not forgotten.\<close>

definition later :: "sys \<Rightarrow> sys \<Rightarrow> bool" where
  "later s s' \<longleftrightarrow> s_rejected s \<subseteq> s_rejected s' \<and> (\<forall>p. \<exists>ys. s_done s' p = s_done s p @ ys)"

lemma later_refl: "later s s"
  by (simp add: later_def)

lemma later_trans: "later s t \<Longrightarrow> later t u \<Longrightarrow> later s u"
  unfolding later_def by (metis append.assoc dual_order.trans)

lemma history_simps [simp]:
  "s_done (replace_thread i ts s) = s_done s" "s_rejected (replace_thread i ts s) = s_rejected s"
  "s_done (panic_at i e s) = s_done s" "s_rejected (panic_at i e s) = s_rejected s"
  "s_sent (replace_thread i ts s) = s_sent s" "s_sent (panic_at i e s) = s_sent s"
  "s_accepted (replace_thread i ts s) = s_accepted s" "s_accepted (panic_at i e s) = s_accepted s"
  "s_disp (replace_thread i ts s) = s_disp s" "s_panics (replace_thread i ts s) = s_panics s"
  "flags (s_disp (panic_at i e s)) = flags (s_disp s)"
  by (simp_all add: replace_thread_def panic_at_def)

lemma note_simps [simp]:
  "s_done (note_rejected t s) = s_done s" "s_sent (note_rejected t s) = s_sent s"
  "s_accepted (note_rejected t s) = s_accepted s" "s_panics (note_rejected t s) = s_panics s"
  "s_rejected (note_rejected t s)
     = s_rejected s \<union> (case t of T_Undo b k \<Rightarrow> {b_partition b} | _ \<Rightarrow> {})"
  "s_done (note_sent c ts s) = s_done s" "s_rejected (note_sent c ts s) = s_rejected s"
  "s_panics (note_sent c ts s) = s_panics s"
  by (cases t; auto; fail)+ (cases c; simp)+

lemma step_later: "sys_step l s = Some s' \<Longrightarrow> later s s'"
  by (cases l)
    (auto simp: later_def run_step_def Let_def case_prod_beta
      split: if_splits option.splits sum.splits prod.splits list.splits thread.splits verdict.splits)

lemma foreign_step:
  assumes inv: "sys_inv s" and step: "sys_step l s = Some s'" "foreign l"
    and th: "s_threads s = t # rest" "poller t"
  shows "(\<exists>rest'. s_threads s' = t # rest') \<and> s_sent s' = s_sent s \<and> s_accepted s' = s_accepted s
    \<and> flags (s_disp s') = flags (s_disp s)"
proof -
  have keep: "\<exists>rest'. s_threads (replace_thread i ts s) = t # rest'" if "0 < i" for i ts
    using that by (cases i) (simp_all add: replace_thread_def th)
  then have keep_panic: "\<exists>rest'. s_threads (panic_at i e s) = t # rest'" if "0 < i" for i e
    using that by (simp add: panic_at_def)
  have pos: "0 < i" if "s_threads s ! i = W_Idle \<or> (\<exists>b. s_threads s ! i = W_Run b)" for i
    using that th by (cases i) auto
  show ?thesis
  proof (cases l)
    case (Act i ord)
    with step have i: "0 < i" "i < length (s_threads s)" by (auto split: if_splits)
    obtain r where r: "thread_step ord (s_threads s ! i) (s_disp s) = Some r"
      using step Act i by (auto split: option.splits)
    show ?thesis
    proof (cases r)
      case (Inl e)
      with r step Act i keep_panic show ?thesis by auto
    next
      case (Inr x)
      obtain ts d' where "x = (ts, d')" by (cases x)
      with act_pollers [OF inv, of ord "s_threads s ! i" ts d'] r Inr step Act i keep [of i ts]
      show ?thesis by auto
    qed
  next
    case (Take i)
    with step pos keep [of i] show ?thesis by (auto split: if_splits list.splits)
  next
    case (Exit i)
    with step pos keep [of i] show ?thesis by (auto split: if_splits)
  next
    case (Process i rounds start now dlq)
    with step pos keep [of i] keep_panic [of i] show ?thesis
      by (auto simp: run_step_def split: if_splits thread.splits option.splits verdict.splits)
  next
    case (Fire j)
    with step show ?thesis by (auto simp: Let_def case_prod_beta th split: if_splits)
  qed (use step th in auto)
qed

subsection \<open>Stretches of the other goroutines\<close>

text \<open>The poll loop's goroutine is at position \<open>t\<close> of a reachable state.\<close>

definition loop_at :: "thread \<Rightarrow> sys \<Rightarrow> bool" where
  "loop_at t s \<longleftrightarrow> sy.reach s \<and> poller t \<and> (\<exists>rest. s_threads s = t # rest)"

text \<open>What the other goroutines cannot change.\<close>

definition polls_same :: "sys \<Rightarrow> sys \<Rightarrow> bool" where
  "polls_same s s' \<longleftrightarrow> s_sent s' = s_sent s \<and> s_accepted s' = s_accepted s \<and> flags (s_disp s') = flags (s_disp s)"

lemma sys_step_reach: "sy.reach s \<Longrightarrow> sys_step l s = Some t \<Longrightarrow> sy.reach t"
  by (erule sy.reach_step) (auto simp: sys_next_def)

lemma goroutines_reach: "sy.reach s \<Longrightarrow> sy.reach (goroutines ls s) \<and> later s (goroutines ls s)"
proof (induction ls arbitrary: s)
  case (Cons l ls)
  show ?case
  proof (cases "foreign l \<and> sys_step l s \<noteq> None")
    case True
    then obtain t where t: "sys_step l s = Some t" "foreign l" by blast
    with Cons.IH [OF sys_step_reach [OF Cons.prems t(1)]] step_later [OF t(1)] show ?thesis
      by (auto intro: later_trans)
  next
    case False
    then have "goroutines (l # ls) s = goroutines ls s" by auto
    with Cons show ?thesis by simp
  qed
qed (simp add: later_refl)

lemma goroutines_at:
  "loop_at t s \<Longrightarrow> loop_at t (goroutines ls s) \<and> polls_same s (goroutines ls s)"
proof (induction ls arbitrary: s)
  case (Cons l ls)
  show ?case
  proof (cases "foreign l \<and> sys_step l s \<noteq> None")
    case True
    then obtain s' where s': "sys_step l s = Some s'" "foreign l" by blast
    from Cons.prems obtain rest where a: "sy.reach s" "poller t" "s_threads s = t # rest"
      by (auto simp: loop_at_def)
    from reach_sim [OF a(1)] have "sys_inv s" by blast
    from foreign_step [OF this s' a(3,2)] sys_step_reach [OF a(1) s'(1)] a(2)
    have "loop_at t s' \<and> polls_same s s'" by (auto simp: loop_at_def polls_same_def)
    with Cons.IH [of s'] s' show ?thesis by (auto simp: polls_same_def)
  next
    case False
    then have "goroutines (l # ls) s = goroutines ls s" by auto
    with Cons show ?thesis by simp
  qed
qed (simp add: polls_same_def)

lemma overtaken_goroutines: "\<exists>ls. cw_sys (overtaken w) = goroutines ls (cw_sys w)"
proof (cases "cw_sched w")
  case Nil
  then have "cw_sys (overtaken w) = goroutines [] (cw_sys w)" by (simp add: overtaken_def)
  then show ?thesis by blast
qed (auto simp: overtaken_def)

lemma overtaken_at:
  "loop_at t (cw_sys w) \<Longrightarrow> loop_at t (cw_sys (overtaken w)) \<and> polls_same (cw_sys w) (cw_sys (overtaken w))"
  using overtaken_goroutines [of w] goroutines_at by metis

lemma overtaken_later:
  "sy.reach (cw_sys w) \<Longrightarrow> sy.reach (cw_sys (overtaken w)) \<and> later (cw_sys w) (cw_sys (overtaken w))"
  using overtaken_goroutines [of w] goroutines_reach by metis

lemma poll_thread_at: "loop_at t (cw_sys w) \<Longrightarrow> poll_thread w = t"
  by (auto simp: loop_at_def poll_thread_def)

subsection \<open>Steps of the poll loop's own goroutine\<close>

text \<open>How many steps \<open>Send\<close> still has to go.\<close>

fun rank :: "thread \<Rightarrow> nat" where
  "rank (T_Try p k) = 6"
| "rank (T_Check b k) = 5"
| "rank (T_Track b k) = 4"
| "rank (T_SendCh b k) = 3"
| "rank (T_Undo b k) = 2"
| "rank (T_PutBack b k) = 1"
| "rank _ = 0"

lemma poller_next:
  assumes "thread_step ord t d = Some (Inr (ts, d'))" and "poller t"
  shows "\<exists>t'. ts = [t'] \<and> poller t' \<and> rank t' < rank t \<and> t' \<noteq> P_Closed"
  using assms
  by (cases t rule: poller.cases) (auto simp: go_bind_Inr_iff split: option.splits if_splits)

lemma loop_at_open:
  assumes "loop_at t s" and "t \<noteq> P_Closed"
  shows "\<not> d_batchChClosed (s_disp s) \<and> \<not> d_closed (s_disp s)"
proof -
  from assms obtain rest where s: "poller t" "s_threads s = t # rest" and p: "poll_inv s"
    using reach_sim by (auto simp: loop_at_def)
  have "pollers xs > 0" if "P_Closed \<in> set xs" for xs
    using that by (force simp: pollers_def filter_empty_conv)
  then show ?thesis using p s assms(2) by (fastforce simp: poll_inv_def)
qed

lemma loop_at_live: "loop_at t s \<Longrightarrow> t \<noteq> P_Closed \<Longrightarrow> s_crash s = None"
  using loop_at_open [of t s] reach_crash(2) [of s] by (simp add: loop_at_def)

lemma own_step_ok:
  "sys_step l (cw_sys w) = Some t \<Longrightarrow> s_panics t = s_panics (cw_sys w) \<Longrightarrow> own_step l w = Inr (w\<lparr>cw_sys := t\<rparr>)"
  by (cases "s_crash (cw_sys w)") (simp_all add: own_step_def crashed_stuck)

lemma own_act:
  assumes at: "loop_at t s" and t: "0 < rank t"
  shows "\<exists>s' t'. sys_step (Act 0 []) s = Some s' \<and> s_panics s' = s_panics s \<and> loop_at t' s'
    \<and> rank t' < rank t \<and> t' \<noteq> P_Closed \<and> polls_same s s'"
proof -
  from at obtain rest where s: "sy.reach s" "poller t" "s_threads s = [] @ t # rest" by (auto simp: loop_at_def)
  have inv: "sys_inv s" and tok: "token_inv (abs_of s)" using reach_sim reach_token_inv s(1) by blast+
  have op: "\<not> d_batchChClosed (s_disp s)" using loop_at_open [OF at] t by (cases t) auto
  obtain r where r: "thread_step [] t (s_disp s) = Some r" using s(2) t by (cases t rule: poller.cases) auto
  obtain ts d' where x: "r = Inr (ts, d')"
  proof (cases r)
    case (Inl e)
    with act_panic [OF inv tok s(3), of "[]" e] r have "e = SendOnClosedChannel" by simp
    then have "\<exists>b k. t = T_SendCh b k \<and> d_batchChClosed (s_disp s)"
      using r Inl regions_no_panic [OF inv] s(2)
      by (cases t rule: poller.cases) (auto simp: go_bind_Inl_iff chan_send_def track_def complete_def
          put_back_def BatchDispatched_def BatchComplete_def Let_def split: option.splits if_splits)
    with op show thesis by blast
  qed auto
  from poller_next [OF r [unfolded x] s(2)] obtain t' where t': "ts = [t']" "poller t'" "rank t' < rank t"
    "t' \<noteq> P_Closed" by blast
  let ?s = "(note_rejected t (replace_thread 0 ts s))\<lparr>s_disp := d'\<rparr>"
  have "t \<noteq> P_Closed" using t by (cases t) auto
  then have step: "sys_step (Act 0 []) s = Some ?s" using r x s(3) loop_at_live [OF at] by simp
  have "loop_at t' ?s"
    using sys_step_reach [OF s(1) step] t'(1,2) s(3) by (auto simp: loop_at_def replace_thread_def)
  moreover have "polls_same s ?s"
    using act_pollers [OF inv r [unfolded x]] by (simp add: polls_same_def)
  ultimately show ?thesis using step t'(3,4) by auto
qed

lemma finish_send_ok:
  assumes "loop_at t (cw_sys w)" and "0 < rank t" and "rank t \<le> n"
  shows "\<exists>err w'. finish_send n w = Inr (err, w') \<and> loop_at P_Idle (cw_sys w')
    \<and> polls_same (cw_sys w) (cw_sys w')"
  using assms
proof (induction n arbitrary: t w)
  case (Suc n)
  let ?v = "overtaken w"
  from overtaken_at [OF Suc.prems(1)] have v: "loop_at t (cw_sys ?v)" "polls_same (cw_sys w) (cw_sys ?v)" by auto
  from own_act [OF v(1) Suc.prems(2)] obtain s' t' where s': "sys_step (Act 0 []) (cw_sys ?v) = Some s'"
    "s_panics s' = s_panics (cw_sys ?v)" "loop_at t' s'" "rank t' < rank t" "t' \<noteq> P_Closed"
    "polls_same (cw_sys ?v) s'" by blast
  let ?u = "?v\<lparr>cw_sys := s'\<rparr>"
  have own: "own_step (Act 0 []) ?v = Inr ?u" by (rule own_step_ok [OF s'(1,2)])
  have u: "poll_thread ?u = t'" using poll_thread_at [of t' ?u] s'(3) by simp
  show ?case
  proof (cases "t' = P_Idle")
    case True
    with overtaken_at [of P_Idle ?u] s'(3,6) v(2) own u show ?thesis
      by (auto simp: polls_same_def Let_def)
  next
    case False
    then have "0 < rank t'" using s'(3,5) by (cases t' rule: poller.cases) (auto simp: loop_at_def)
    with Suc.IH [of t' ?u] s'(3,4,6) Suc.prems(3) v(2) own u False show ?thesis
      by (auto simp: polls_same_def Let_def)
  qed
qed simp

lemma own_call:
  assumes at: "loop_at P_Idle s"
  shows "\<exists>ts d'. call_step c (s_disp s) = Inr (ts, d')
    \<and> sys_step (Call 0 c) s = Some ((note_sent c ts (replace_thread 0 ts s))\<lparr>s_disp := d'\<rparr>)"
proof -
  from at obtain rest where s: "sy.reach s" "s_threads s = [] @ P_Idle # rest" by (auto simp: loop_at_def)
  then have "sys_inv s" "poll_inv s" using reach_sim by blast+
  from call_no_panic [OF this s(2), of c] obtain ts d' where "call_step c (s_disp s) = Inr (ts, d')"
    by (cases "call_step c (s_disp s)") auto
  with s(2) loop_at_live [OF at] show ?thesis by simp
qed

lemma note_sent_threads: "s_sent (note_sent c ts (s\<lparr>s_threads := us\<rparr>)) = s_sent (note_sent c ts s)"
  by (cases c) (simp_all cong: if_cong)

lemma own_call_at:
  assumes at: "loop_at P_Idle (cw_sys w)" and ts: "\<And>ts d'. call_step c (s_disp (cw_sys w)) = Inr (ts, d') \<Longrightarrow> ts = [t]"
    and "poller t"
  obtains x where "own_step (Call 0 c) w = Inr x" and "loop_at t (cw_sys x)"
    and "s_sent (cw_sys x) = s_sent (note_sent c [t] (cw_sys w))"
proof -
  from own_call [OF at, of c] ts obtain d' where
    d': "sys_step (Call 0 c) (cw_sys w) = Some ((note_sent c [t] (replace_thread 0 [t] (cw_sys w)))\<lparr>s_disp := d'\<rparr>)"
    by blast
  from at have "sy.reach (cw_sys w)" by (simp add: loop_at_def)
  from sys_step_reach [OF this d'] at assms(3) own_step_ok [OF d'] show thesis
    by (intro that [of "w\<lparr>cw_sys := (note_sent c [t] (replace_thread 0 [t] (cw_sys w)))\<lparr>s_disp := d'\<rparr>\<rparr>"])
      (auto simp: loop_at_def replace_thread_def note_sent_threads)
qed

subsection \<open>The goroutines behind the interface of the poll loop\<close>

definition conc_open :: "cworld \<Rightarrow> bool" where
  "conc_open w \<longleftrightarrow> loop_at P_Idle (cw_sys w)"

definition sent_of :: "int32 \<Rightarrow> cworld \<Rightarrow> message list" where
  "sent_of p w = s_sent (cw_sys w) p"

lemma conc_ops_simps [simp]:
  "do_Send (conc_ops ord late) = conc_Send" "do_Assigned (conc_ops ord late) ps = conc_call (CAssign ps)"
  "do_Revoked (conc_ops ord late) ps = conc_call_total (CRevoke ps)"
  "do_Close (conc_ops ord late) = conc_Close ord late"
  "do_Committable (conc_ops ord late) w = Committable (d_coordinator (s_disp (cw_sys w)))"
  "do_Reset (conc_ops ord late) p = conc_call_total (CReset p)"
  "do_Crash (conc_ops ord late) = conc_Crash"
  by (simp_all add: conc_ops_def)

lemma overtaken_open:
  "conc_open w \<Longrightarrow> conc_open (overtaken w) \<and> sent_of p (overtaken w) = sent_of p w"
  using overtaken_at [of P_Idle w] by (simp add: conc_open_def sent_of_def polls_same_def)

lemma others_open: "conc_open w \<Longrightarrow> conc_open (others ls w)"
  using goroutines_at [of P_Idle "cw_sys w" ls] by (simp add: conc_open_def others_def)

lemma conc_Send_ok:
  assumes "conc_open w"
  shows "\<exists>err w'. conc_Send p xs w = Inr (err, w') \<and> conc_open w'
    \<and> (\<forall>q. sent_of q w' = (if q = p then sent_of p w @ xs else sent_of q w))"
proof -
  let ?v = "overtaken w" and ?t = "T_Try p C_Poll"
  from overtaken_open [OF assms] have v: "conc_open ?v" "\<And>q. sent_of q ?v = sent_of q w" by auto
  have op: "\<not> d_closed (s_disp (cw_sys ?v))" using loop_at_open v(1) by (auto simp: conc_open_def)
  obtain x where x: "own_step (Call 0 (CSend p xs)) ?v = Inr x" "loop_at ?t (cw_sys x)"
    "s_sent (cw_sys x) = s_sent (note_sent (CSend p xs) [?t] (cw_sys ?v))"
  proof (rule own_call_at [OF v(1) [unfolded conc_open_def]])
    show "ts = [?t]" if "call_step (CSend p xs) (s_disp (cw_sys ?v)) = Inr (ts, d')" for ts d'
      using that op by (auto simp: go_bind_Inr_iff send_region_def split: if_splits option.splits)
  qed auto
  then have sent: "sent_of q x = (if q = p then sent_of p w @ xs else sent_of q w)" for q
    using v(2) by (simp add: sent_of_def)
  from finish_send_ok [OF x(2), of 6] obtain err w' where "finish_send 6 x = Inr (err, w')"
    "loop_at P_Idle (cw_sys w')" "polls_same (cw_sys x) (cw_sys w')" by auto
  with x poll_thread_at [OF x(2)] sent show ?thesis
    by (simp add: conc_Send_def conc_open_def polls_same_def sent_of_def)
qed

lemma conc_call_ok:
  assumes "conc_open w" and "(\<exists>ps. c = CAssign ps) \<or> (\<exists>ps. c = CRevoke ps) \<or> (\<exists>p. c = CReset p)"
  shows "\<exists>w'. conc_call c w = Inr w' \<and> conc_call_total c w = w' \<and> conc_open w'
    \<and> (\<forall>q. (\<forall>ps. c = CRevoke ps \<longrightarrow> q \<notin> p_Partition ` set ps) \<longrightarrow> sent_of q w' = sent_of q w)"
proof -
  let ?v = "overtaken w"
  from overtaken_open [OF assms(1)] have v: "conc_open ?v" "\<And>q. sent_of q ?v = sent_of q w" by auto
  obtain x where x: "own_step (Call 0 c) ?v = Inr x" "loop_at P_Idle (cw_sys x)"
    "s_sent (cw_sys x) = s_sent (note_sent c [P_Idle] (cw_sys ?v))"
  proof (rule own_call_at [OF v(1) [unfolded conc_open_def]])
    show "ts = [P_Idle]" if "call_step c (s_disp (cw_sys ?v)) = Inr (ts, d')" for ts d'
      using that assms(2) by (auto simp: go_bind_Inr_iff)
  qed auto
  have call: "conc_call c w = Inr (overtaken x)" using x(1) by (simp add: conc_call_def)
  have "sent_of q x = sent_of q w" if "\<forall>ps. c = CRevoke ps \<longrightarrow> q \<notin> p_Partition ` set ps" for q
    using v(2) [of q] assms(2) that x(3) by (auto simp: sent_of_def)
  with overtaken_open [of x] x(2) show ?thesis
    unfolding conc_call_total_def call by (auto simp: conc_open_def)
qed

lemma conc_Close_ok:
  assumes "conc_open w"
    and "conc_Close ord late w = Inl e"
  shows "e = OtherGoroutine SendOnClosedChannel"
proof -
  have "loop_at P_Idle (cw_sys (overtaken w))"
    using overtaken_open [OF assms(1)] by (simp add: conc_open_def)
  from own_call_at [OF this, of "CClose ord" P_Closed] obtain x where
    x: "own_step (Call 0 (CClose ord)) (overtaken w) = Inr x" "loop_at P_Closed (cw_sys x)"
    by (auto simp: go_bind_Inr_iff)
  then have "sy.reach (cw_sys (overtaken x))" using overtaken_later by (simp add: loop_at_def)
  with x(1) assms(2) reach_crash(1) show ?thesis
    by (auto simp: conc_Close_def conc_call_def split: option.splits)
qed

interpretation cp: dispatch_port "conc_ops ord late" conc_open sent_of "\<lambda>e. e = OtherGoroutine SendOnClosedChannel"
  for ord late
proof
  fix w p ps xs e
  assume w: "conc_open w"
  show "\<exists>err w'. do_Send (conc_ops ord late) p xs w = Inr (err, w') \<and> conc_open w'
      \<and> sent_of p w' = sent_of p w @ xs \<and> (\<forall>q. q \<noteq> p \<longrightarrow> sent_of q w' = sent_of q w)"
    using conc_Send_ok [OF w, of p xs] by auto
  show "\<exists>w'. do_Assigned (conc_ops ord late) ps w = Inr w' \<and> conc_open w' \<and> (\<forall>p. sent_of p w' = sent_of p w)"
    using conc_call_ok [OF w, of "CAssign ps"] by auto
  show "conc_open (do_Revoked (conc_ops ord late) ps w)
      \<and> (\<forall>q. q \<notin> p_Partition ` set ps \<longrightarrow> sent_of q (do_Revoked (conc_ops ord late) ps w) = sent_of q w)"
    using conc_call_ok [OF w, of "CRevoke ps"] by auto
  show "conc_open (do_Reset (conc_ops ord late) p w) \<and> (\<forall>q. sent_of q (do_Reset (conc_ops ord late) p w) = sent_of q w)"
    using conc_call_ok [OF w, of "CReset p"] by auto
  show "e = OtherGoroutine SendOnClosedChannel" if "do_Close (conc_ops ord late) w = Inl e"
    using conc_Close_ok [OF w] that by simp
qed

subsection \<open>What commits rest on\<close>

text \<open>Every accepted message is one of its partition.\<close>

definition conc_wf :: "cworld \<Rightarrow> bool" where
  "conc_wf w \<longleftrightarrow> sy.reach (cw_sys w) \<and> (\<forall>p. \<forall>x\<in>set (s_accepted (cw_sys w) p). m_Partition x = p)"

text \<open>
  Each offset is one more than the offset of the last message of some settled initial part,
  unless a batch of its partition met a full channel.
\<close>

definition settled_offsets :: "(int32, int64) fmap \<Rightarrow> cworld \<Rightarrow> bool" where
  "settled_offsets offs w \<longleftrightarrow>
     (\<forall>p off. fmlookup offs p = Some off \<longrightarrow> p \<notin> s_rejected (cw_sys w) \<longrightarrow>
        (\<exists>dn rest. s_done (cw_sys w) p = dn @ rest \<and> dn \<noteq> [] \<and> off = m_Offset (last dn) + 1))"

lemma settled_later:
  assumes "settled_offsets offs w" and "later (cw_sys w) (cw_sys w')"
  shows "settled_offsets offs w'"
  unfolding settled_offsets_def
proof (intro allI impI)
  fix p off
  assume o: "fmlookup offs p = Some off" and "p \<notin> s_rejected (cw_sys w')"
  then have "p \<notin> s_rejected (cw_sys w)" using assms(2) by (auto simp: later_def)
  with assms(1) o obtain dn rest where "s_done (cw_sys w) p = dn @ rest" "dn \<noteq> []" "off = m_Offset (last dn) + 1"
    unfolding settled_offsets_def by blast
  moreover from assms(2) obtain ys where "s_done (cw_sys w') p = s_done (cw_sys w) p @ ys"
    unfolding later_def by blast
  ultimately have "s_done (cw_sys w') p = dn @ (rest @ ys)" "dn \<noteq> []" "off = m_Offset (last dn) + 1" by auto
  then show "\<exists>dn rest. s_done (cw_sys w') p = dn @ rest \<and> dn \<noteq> [] \<and> off = m_Offset (last dn) + 1"
    by blast
qed

text \<open>Changes of the world that commits survive.\<close>

abbreviation conc_grows :: "cworld \<Rightarrow> cworld \<Rightarrow> bool" where
  "conc_grows \<equiv> grows conc_wf settled_offsets"

lemma conc_growsI:
  "conc_wf w \<Longrightarrow> sy.reach (cw_sys w') \<Longrightarrow> later (cw_sys w) (cw_sys w')
    \<Longrightarrow> (\<And>p. set (s_accepted (cw_sys w') p) \<subseteq> set (s_accepted (cw_sys w) p) \<union> {x. m_Partition x = p})
    \<Longrightarrow> conc_grows w w'"
  unfolding grows_def by (auto simp: conc_wf_def intro: settled_later)

lemma step_accepted: "sys_step l s = Some s' \<Longrightarrow> (\<And>i c. l \<noteq> Call i c) \<Longrightarrow> s_accepted s' = s_accepted s"
  by (cases l)
    (auto simp: run_step_def Let_def case_prod_beta
      split: if_splits option.splits sum.splits prod.splits list.splits thread.splits verdict.splits)

lemma goroutines_accepted: "s_accepted (goroutines ls s) = s_accepted s"
proof (induction ls arbitrary: s)
  case (Cons l ls)
  have "s_accepted t = s_accepted s" if "sys_step l s = Some t" "foreign l" for t
    using that step_accepted [OF that(1)] by (cases l) auto
  with Cons.IH show ?case by (auto split: option.split)
qed simp

lemma overtaken_grows: "conc_wf w \<Longrightarrow> conc_grows w (overtaken w)"
proof -
  assume "conc_wf w"
  moreover from this have "sy.reach (cw_sys w)" by (simp add: conc_wf_def)
  moreover obtain ls where "cw_sys (overtaken w) = goroutines ls (cw_sys w)"
    using overtaken_goroutines by blast
  ultimately show ?thesis using goroutines_reach [of "cw_sys w" ls]
    by (intro conc_growsI) (auto simp: goroutines_accepted)
qed

lemma others_grows: "conc_wf w \<Longrightarrow> conc_grows w (others ls w)"
  using goroutines_reach [of "cw_sys w" ls] by (intro conc_growsI) (auto simp: conc_wf_def others_def goroutines_accepted)

lemma own_step_grows:
  assumes "conc_wf w" and step: "own_step l w = Inr w'"
    and "\<And>i p xs x. l = Call i (CSend p xs) \<Longrightarrow> x \<in> set xs \<Longrightarrow> m_Partition x = p"
  shows "conc_grows w w'"
proof (cases "sys_step l (cw_sys w)")
  case None
  with step assms(1) show ?thesis by (auto simp: own_step_def grows_refl split: option.splits)
next
  case (Some t)
  with step have w': "cw_sys w' = t" by (auto simp: own_step_def split: option.splits if_splits)
  have "set (s_accepted t p) \<subseteq> set (s_accepted (cw_sys w) p) \<union> {x. m_Partition x = p}" for p
  proof (cases "\<exists>i q xs. l = Call i (CSend q xs)")
    case True
    then obtain i q xs where l: "l = Call i (CSend q xs)" by blast
    with Some assms(3) [OF l] show ?thesis by (auto split: if_splits sum.splits)
  next
    case False
    then have "s_accepted t = s_accepted (cw_sys w)"
    proof (cases l)
      case (Call i c)
      with Some False show ?thesis by (cases c) (auto split: if_splits sum.splits)
    qed (use step_accepted [OF Some] in auto)
    then show ?thesis by simp
  qed
  then show ?thesis
    using assms(1) sys_step_reach [OF _ Some] step_later [OF Some] w'
    by (intro conc_growsI) (auto simp: conc_wf_def)
qed

lemma growsD: "conc_grows w w' \<Longrightarrow> conc_wf w'"
  by (simp add: grows_def)

lemma finish_send_grows: "conc_wf w \<Longrightarrow> finish_send n w = Inr (err, w') \<Longrightarrow> conc_grows w w'"
proof (induction n arbitrary: w)
  case (Suc n)
  note g = overtaken_grows [OF Suc.prems(1)]
  from Suc.prems(2) obtain u where u: "own_step (Act 0 []) (overtaken w) = Inr u"
    "w' = overtaken u \<or> finish_send n u = Inr (err, w')"
    by (auto simp: Let_def go_bind_Inr_iff split: if_splits)
  from grows_trans [OF g own_step_grows [OF growsD [OF g] u(1)]] have gu: "conc_grows w u" by simp
  with u(2) Suc.IH [OF growsD [OF gu]] overtaken_grows [OF growsD [OF gu]] show ?case
    by (auto intro: grows_trans)
qed (simp add: grows_refl)

lemma conc_Send_grows:
  assumes "conc_wf w" and "\<forall>x\<in>set xs. m_Partition x = p" and "conc_Send p xs w = Inr (err, w')"
  shows "conc_grows w w'"
proof -
  note g = overtaken_grows [OF assms(1)]
  from assms(3) obtain u where u: "own_step (Call 0 (CSend p xs)) (overtaken w) = Inr u"
    "w' = u \<or> finish_send 6 u = Inr (err, w')"
    by (auto simp: conc_Send_def go_bind_Inr_iff split: if_splits)
  from grows_trans [OF g own_step_grows [OF growsD [OF g] u(1)]] assms(2) have gu: "conc_grows w u" by auto
  with u(2) finish_send_grows [OF growsD [OF gu]] show ?thesis by (auto intro: grows_trans)
qed

lemma conc_call_grows:
  assumes "conc_wf w" and "conc_call c w = Inr w'" and "\<And>p xs. c \<noteq> CSend p xs"
  shows "conc_grows w w'"
proof -
  note g = overtaken_grows [OF assms(1)]
  from assms(2) obtain u where u: "own_step (Call 0 c) (overtaken w) = Inr u" "w' = overtaken u"
    by (cases "own_step (Call 0 c) (overtaken w)") (auto simp: conc_call_def)
  from grows_trans [OF g own_step_grows [OF growsD [OF g] u(1)]] assms(3) have gu: "conc_grows w u" by auto
  with u(2) overtaken_grows [OF growsD [OF gu]] show ?thesis by (auto intro: grows_trans)
qed

lemma conc_call_total_grows:
  "conc_wf w \<Longrightarrow> (\<And>p xs. c \<noteq> CSend p xs) \<Longrightarrow> conc_grows w (conc_call_total c w)"
  using conc_call_grows [of w c] by (auto simp: conc_call_total_def grows_refl split: sum.split)

interpretation cs: commit_port "conc_ops ord late" conc_wf settled_offsets
  for ord late
proof
  fix w w' p ps xs err offs P
  show "settled_offsets (fmfilter P offs) w" if "settled_offsets offs w"
    using that by (auto simp: settled_offsets_def split: if_splits)
  assume w: "conc_wf w"
  show "settled_offsets (do_Committable (conc_ops ord late) w) w"
    using w reach_settled [of "cw_sys w"] by (auto simp: settled_offsets_def conc_wf_def)
  show "conc_grows w w'" if "\<forall>x\<in>set xs. m_Partition x = p" "do_Send (conc_ops ord late) p xs w = Inr (err, w')"
    using conc_Send_grows [OF w that(1)] that(2) by simp
  show "conc_grows w w'" if "do_Assigned (conc_ops ord late) ps w = Inr w'"
    using conc_call_grows [OF w] that by simp
  show "conc_grows w (do_Revoked (conc_ops ord late) ps w)" "conc_grows w (do_Reset (conc_ops ord late) p w)"
    using conc_call_total_grows [OF w] by simp_all
  show "conc_grows w w'" if "do_Close (conc_ops ord late) w = Inr (err, w')"
    using conc_call_grows [OF w, of "CClose ord"] that
    by (auto simp: conc_Close_def go_bind_Inr_iff split: option.splits)
qed

subsection \<open>Runs\<close>

text \<open>The dispatcher as \<open>Start\<close> leaves it, with a schedule for the calls to come.\<close>

definition launch :: "label list list \<Rightarrow> dispatcher \<Rightarrow> cworld" where
  "launch sched d = \<lparr>cw_sys = sys_of d, cw_sched = sched\<rparr>"

definition conc_start :: "config \<Rightarrow> label list list \<Rightarrow> cworld option" where
  "conc_start dcfg sched =
     (case NewUnorderedDispatcher dcfg (Some ()) (Some NewCoordinator) (Some NewDispatcherMetrics) of
        Inr (Inr d) \<Rightarrow> Some (launch sched d)
      | _ \<Rightarrow> None)"

text \<open>
  The loop is at \<open>pl\<close> after some events of a run over a freshly started dispatcher, or it has
  returned there.
\<close>

definition conc_run ::
  "config \<Rightarrow> label list list \<Rightarrow> pl_config \<Rightarrow> int32 list \<Rightarrow> bool \<Rightarrow> (event \<times> answers \<times> label list) list
    \<Rightarrow> cworld pollloop \<Rightarrow> bool"
where
  "conc_run dcfg sched cfg ord late evs pl \<longleftrightarrow> 0 < dc_BatchSize dcfg \<and> 0 \<le> dc_MaxRetries dcfg \<and>
     (\<exists>w pl0. conc_start dcfg sched = Some w
        \<and> NewPollLoop cfg (Some ()) (Some w) (Some ()) (Some new_health) (Some NewPollLoopMetrics) = Inr pl0
        \<and> (run_events (conc_ops ord late) (conc_events evs) (started pl0) = Inr pl
           \<or> (\<exists>err. pl_Run (conc_ops ord late) (conc_events evs) pl0 = Some (Inr (err, pl)))))"

lemma conc_start_ok:
  assumes "conc_start dcfg sched = Some w" and "0 < dc_BatchSize dcfg" and "0 \<le> dc_MaxRetries dcfg"
  shows "conc_wf w" and "conc_open w"
proof -
  from assms(1) obtain s where s: "sys_start dcfg = Some s" "cw_sys w = s"
    by (auto simp: conc_start_def sys_start_def launch_def split: sum.splits)
  with assms(2,3) have "sys_init s" unfolding sys_init_def by blast
  then have r: "sy.reach s" by (rule sy.reach_init)
  have "s_accepted s = (\<lambda>_. [])" "\<exists>rest. s_threads s = P_Idle # rest"
    using s(1) by (auto simp: sys_start_def sys_of_def split: sum.splits)
  with r s(2) show "conc_wf w" "conc_open w" by (auto simp: conc_wf_def conc_open_def loop_at_def)
qed

lemma conc_events_grow: "(ev, ans, f) \<in> set (conc_events evs) \<Longrightarrow> conc_wf w \<Longrightarrow> conc_grows w (f w)"
  by (auto simp: conc_events_def others_grows)

lemma NewPollLoop_fresh:
  "NewPollLoop cfg k (Some w) c h m = Inr pl \<Longrightarrow> pl_world pl = w \<and> commits pl = [] \<and> pl_cfg pl = cfg"
  by (auto simp: NewPollLoop_def commits_def split: if_splits option.splits)

lemma conc_run_backed:
  assumes "conc_run dcfg sched cfg ord late evs pl"
  shows "commits_backed conc_wf settled_offsets pl"
proof -
  from assms obtain w pl0 where w: "conc_start dcfg sched = Some w" "0 < dc_BatchSize dcfg" "0 \<le> dc_MaxRetries dcfg"
    and pl0: "NewPollLoop cfg (Some ()) (Some w) (Some ()) (Some new_health) (Some NewPollLoopMetrics) = Inr pl0"
    and run: "run_events (conc_ops ord late) (conc_events evs) (started pl0) = Inr pl
       \<or> (\<exists>err. pl_Run (conc_ops ord late) (conc_events evs) pl0 = Some (Inr (err, pl)))"
    unfolding conc_run_def by blast
  have "commits_backed conc_wf settled_offsets pl0"
    using NewPollLoop_fresh [OF pl0] conc_start_ok(1) [OF w] by (simp add: commits_backed_def)
  moreover from this have "commits_backed conc_wf settled_offsets (started pl0)" by (simp add: frame_simps)
  ultimately show ?thesis
    using run cs.backed_run_events [of "conc_events evs" "started pl0" ord late pl] conc_events_grow
      cs.backed_Run [of "conc_events evs" pl0 ord late _ pl] by blast
qed

lemma conc_runI:
  "conc_start dcfg sched = Some w
    \<Longrightarrow> NewPollLoop cfg (Some ()) (Some w) (Some ()) (Some new_health) (Some NewPollLoopMetrics) = Inr pl0
    \<Longrightarrow> run_events (conc_ops ord late) (conc_events evs) (started pl0) = Inr pl
    \<Longrightarrow> 0 < dc_BatchSize dcfg \<Longrightarrow> 0 \<le> dc_MaxRetries dcfg \<Longrightarrow> conc_run dcfg sched cfg ord late evs pl"
  unfolding conc_run_def by blast

text \<open>What a commit covers.\<close>

lemma commit_settled:
  assumes "conc_run dcfg sched cfg ord late evs pl" and "KCommit offs \<in> set (pl_calls pl)"
    and "fmlookup offs p = Some off" and "p \<notin> s_rejected (cw_sys (pl_world pl))"
  shows "(\<exists>dn more rest. dn \<noteq> [] \<and> off = m_Offset (last dn) + 1
        \<and> s_done (cw_sys (pl_world pl)) p = dn @ more \<and> s_sent (cw_sys (pl_world pl)) p = dn @ more @ rest)
    \<and> (increasing (s_sent (cw_sys (pl_world pl)) p) \<longrightarrow>
        (\<forall>x\<in>set (s_sent (cw_sys (pl_world pl)) p).
           sint (m_Offset x) < sint off \<longrightarrow> x \<in> set (s_done (cw_sys (pl_world pl)) p)))"
proof -
  let ?s = "cw_sys (pl_world pl)"
  from conc_run_backed [OF assms(1)] have wf: "conc_wf (pl_world pl)"
    and all: "\<And>offs. offs \<in> set (commits pl) \<Longrightarrow> settled_offsets offs (pl_world pl)"
    by (simp_all add: commits_backed_def)
  have "offs \<in> set (commits pl)" using assms(2) by (force simp: commits_def)
  from all [OF this] assms(3,4) obtain dn more where dn: "s_done ?s p = dn @ more" "dn \<noteq> []"
    "off = m_Offset (last dn) + 1" unfolding settled_offsets_def by blast
  from wf have "sy.reach ?s" by (simp add: conc_wf_def)
  from reach_settled [OF this assms(4)] obtain rest where rest: "s_sent ?s p = s_done ?s p @ rest" by blast
  then have sent: "s_sent ?s p = dn @ more @ rest" using dn(1) by simp
  with dn have "\<exists>dn more rest. dn \<noteq> [] \<and> off = m_Offset (last dn) + 1
      \<and> s_done ?s p = dn @ more \<and> s_sent ?s p = dn @ more @ rest" by blast
  with settled_below [OF sent _ dn(2,3)] dn(1) show ?thesis by auto
qed

subsection \<open>Properties\<close>

text \<open>
  C1: at least once, end to end. Take any run of the poll loop over a freshly started
  dispatcher, with any answers of Kafka, any rebalances, any interleaving with the workers and
  the linger timers, stopped after any event or after \<open>Run\<close> has returned. Take an offset of a
  commit that Kafka was sent (by a tick, at a revocation or at shutdown), for a partition none
  of whose batches met a full channel. It is one more than the offset of a settled message, and
  every message that was handed over to the dispatcher for the partition up to that one, and not
  discarded from the buffer by a revocation, is settled: the settled messages are an initial
  part, in order, of those handed over, also when Kafka delivers some of them again after a
  rebalance. If the offsets handed over increase, every one of them below the committed offset
  is settled. Messages that the loop polls and never hands over, in degraded mode or for a
  paused partition, are not covered: a later commit passes over them.
\<close>

theorem committed_offsets_settled:
  assumes "conc_run dcfg sched cfg ord late evs pl" and "KCommit offs \<in> set (pl_calls pl)"
    and "fmlookup offs p = Some off" and "p \<notin> s_rejected (cw_sys (pl_world pl))"
  shows "(\<exists>dn more rest. dn \<noteq> [] \<and> off = m_Offset (last dn) + 1
        \<and> s_done (cw_sys (pl_world pl)) p = dn @ more \<and> s_sent (cw_sys (pl_world pl)) p = dn @ more @ rest)
    \<and> (increasing (s_sent (cw_sys (pl_world pl)) p) \<longrightarrow>
        (\<forall>x\<in>set (s_sent (cw_sys (pl_world pl)) p).
           sint (m_Offset x) < sint off \<longrightarrow> x \<in> set (s_done (cw_sys (pl_world pl)) p)))"
  by (rule commit_settled [OF assms])

text \<open>Two messages are polled and sent as one batch; a worker settles it before the commit tick.\<close>

definition demo_events :: "(event \<times> answers \<times> label list) list" where
  "demo_events = [(PollTick [] [0], sample_answers\<lparr>an_poll := Inr [demo_msg 7, demo_msg 8]\<rparr>, []),
     (CommitTick, sample_answers, [Take 1, Process 1 [round_ok] 0 1 None, Act 1 []])]"

definition demo_loop :: "cworld pollloop" where
  "demo_loop = projr (NewPollLoop DefaultPollLoopConfig (Some ())
     (Some (the (conc_start demo_cfg [[], [Fire 0]]))) (Some ()) (Some new_health) (Some NewPollLoopMetrics))"

lemma demo_start:
  "conc_start demo_cfg [[], [Fire 0]] = Some (the (conc_start demo_cfg [[], [Fire 0]]))"
  "NewPollLoop DefaultPollLoopConfig (Some ()) (Some (the (conc_start demo_cfg [[], [Fire 0]]))) (Some ())
     (Some new_health) (Some NewPollLoopMetrics) = Inr demo_loop"
  by (simp_all add: conc_start_def demo_cfg_def DefaultDispatcherConfig_def
      NewUnorderedDispatcher_def NewPollLoop_def demo_loop_def)

definition observed :: "cworld pollloop \<Rightarrow> int64 option list \<times> bool \<times> message list \<times> thread list" where
  "observed pl = (map (\<lambda>offs. fmlookup offs 0) (commits pl), 0 \<in> s_rejected (cw_sys (pl_world pl)),
     s_sent (cw_sys (pl_world pl)) 0, s_threads (cw_sys (pl_world pl)))"

lemma demo_run:
  "\<exists>pl. conc_run demo_cfg [[], [Fire 0]] DefaultPollLoopConfig [] False (take n demo_events) pl
     \<and> run_events (conc_ops [] False) (conc_events (take n demo_events)) (started demo_loop) = Inr pl
     \<and> observed pl = obs"
  if "map_sum id observed (run_events (conc_ops [] False) (conc_events (take n demo_events)) (started demo_loop))
    = Inr obs"
  using that conc_runI [OF demo_start, of "[]" False "take n demo_events" _] cfg_ok(1,2)
  by (cases "run_events (conc_ops [] False) (conc_events (take n demo_events)) (started demo_loop)") auto

lemma demo_commits:
  "\<exists>pl offs. conc_run demo_cfg [[], [Fire 0]] DefaultPollLoopConfig [] False demo_events pl
     \<and> KCommit offs \<in> set (pl_calls pl) \<and> fmlookup offs 0 = Some 9 \<and> 0 \<notin> s_rejected (cw_sys (pl_world pl))
     \<and> s_sent (cw_sys (pl_world pl)) 0 = [demo_msg 7, demo_msg 8]"
proof -
  have "map_sum id observed (run_events (conc_ops [] False) (conc_events (take 2 demo_events)) (started demo_loop))
    = Inr ([Some 9], False, [demo_msg 7, demo_msg 8], [P_Idle, W_Done (batch_of 0 [demo_msg 7, demo_msg 8])])"
    by code_simp
  from demo_run [OF this] obtain pl where pl: "conc_run demo_cfg [[], [Fire 0]] DefaultPollLoopConfig [] False demo_events pl"
    and o: "map (\<lambda>offs. fmlookup offs 0) (commits pl) = [Some 9]" "0 \<notin> s_rejected (cw_sys (pl_world pl))"
      "s_sent (cw_sys (pl_world pl)) 0 = [demo_msg 7, demo_msg 8]"
    by (auto simp: observed_def demo_events_def)
  then obtain offs where offs: "offs \<in> set (commits pl)" "fmlookup offs 0 = Some 9" by auto
  then have "KCommit offs \<in> set (pl_calls pl)" by (auto simp: commits_def split: kafka_call.splits)
  with pl offs(2) o(2,3) show ?thesis by blast
qed

theorem committed_offsets_settled_witness:
  "\<exists>pl offs. conc_run demo_cfg [[], [Fire 0]] DefaultPollLoopConfig [] False demo_events pl
     \<and> KCommit offs \<in> set (pl_calls pl) \<and> fmlookup offs 0 = Some 9
     \<and> (\<forall>x\<in>set [demo_msg 7, demo_msg 8]. x \<in> set (s_done (cw_sys (pl_world pl)) 0))"
proof -
  obtain pl offs where run: "conc_run demo_cfg [[], [Fire 0]] DefaultPollLoopConfig [] False demo_events pl"
    and k: "KCommit offs \<in> set (pl_calls pl)" "fmlookup offs 0 = Some 9"
    and s: "0 \<notin> s_rejected (cw_sys (pl_world pl))" "s_sent (cw_sys (pl_world pl)) 0 = [demo_msg 7, demo_msg 8]"
    using demo_commits by blast
  have "increasing [demo_msg 7, demo_msg 8]" by (simp add: increasing_def demo_msg_def)
  with committed_offsets_settled [OF run k s(1)] s(2)
  have "\<forall>x\<in>set [demo_msg 7, demo_msg 8]. sint (m_Offset x) < sint (9 :: int64)
      \<longrightarrow> x \<in> set (s_done (cw_sys (pl_world pl)) 0)" by simp
  moreover have "\<forall>x\<in>set [demo_msg 7, demo_msg 8]. sint (m_Offset x) < sint (9 :: int64)"
    by (simp add: demo_msg_def)
  ultimately show ?thesis using run k by blast
qed

text \<open>The batch a worker is processing comes from the poll loop.\<close>

lemma working_batch:
  assumes "conc_run dcfg sched cfg ord late evs pl" and "W_Run b \<in> set (s_threads (cw_sys (pl_world pl)))"
  shows "b_messages b \<noteq> [] \<and> b_maxOffset b = m_Offset (last (b_messages b))
    \<and> (\<forall>x\<in>set (b_messages b). m_Partition x = b_partition b
          \<and> x \<in> set (s_accepted (cw_sys (pl_world pl)) (b_partition b)))"
proof -
  let ?s = "cw_sys (pl_world pl)"
  from conc_run_backed [OF assms(1)] have wf: "conc_wf (pl_world pl)" by (simp add: commits_backed_def)
  then have "origin_inv (abs_of ?s)" using reach_origin by (simp add: conc_wf_def)
  moreover obtain pre post where "s_threads ?s = pre @ W_Run b # post" using split_list [OF assms(2)] by blast
  then have "(Tracked, b) \<in># a_tok (abs_of ?s)" by (simp add: abs_of_def)
  ultimately have "set (b_messages b) \<subseteq> set (a_accepted (abs_of ?s) (b_partition b)) \<and> b_messages b \<noteq> []
      \<and> b_maxOffset b = m_Offset (last (b_messages b))" by (rule origin_invD)
  moreover have "a_accepted (abs_of ?s) = s_accepted ?s" by (simp add: abs_of_def)
  ultimately show ?thesis using wf by (auto simp: conc_wf_def)
qed

text \<open>A worker has taken the batch and is processing it.\<close>

definition working_events :: "(event \<times> answers \<times> label list) list" where
  "working_events = take 1 demo_events @ [(CircuitChanged HalfOpen, sample_answers, [Take 1])]"

lemma demo_working:
  "\<exists>pl. conc_run demo_cfg [[], [Fire 0]] DefaultPollLoopConfig [] False working_events pl
     \<and> W_Run (batch_of 0 [demo_msg 7, demo_msg 8]) \<in> set (s_threads (cw_sys (pl_world pl)))"
proof -
  let ?evs = "working_events"
  have "map_sum id observed (run_events (conc_ops [] False) (conc_events ?evs) (started demo_loop))
    = Inr ([], False, [demo_msg 7, demo_msg 8], [P_Idle, W_Run (batch_of 0 [demo_msg 7, demo_msg 8])])"
    by code_simp
  then obtain pl where r: "run_events (conc_ops [] False) (conc_events ?evs) (started demo_loop) = Inr pl"
    and o: "observed pl = ([], False, [demo_msg 7, demo_msg 8], [P_Idle, W_Run (batch_of 0 [demo_msg 7, demo_msg 8])])"
    by (cases "run_events (conc_ops [] False) (conc_events ?evs) (started demo_loop)") simp_all
  from conc_runI [OF demo_start r cfg_ok(1,2)] o show ?thesis by (auto simp: observed_def)
qed

text \<open>
  C7: what the processor is given. In every such run, the batch a worker is processing is not
  empty, all its messages are of the batch's partition and were handed over by the poll loop
  for it, and the offset the batch is tracked under is that of its last message.
\<close>

theorem processor_gets_one_partition:
  assumes "conc_run dcfg sched cfg ord late evs pl" and "W_Run b \<in> set (s_threads (cw_sys (pl_world pl)))"
  shows "b_messages b \<noteq> [] \<and> b_maxOffset b = m_Offset (last (b_messages b))
    \<and> (\<forall>x\<in>set (b_messages b). m_Partition x = b_partition b
          \<and> x \<in> set (s_accepted (cw_sys (pl_world pl)) (b_partition b)))"
  by (rule working_batch [OF assms])

theorem processor_gets_one_partition_witness:
  "\<exists>pl b. conc_run demo_cfg [[], [Fire 0]] DefaultPollLoopConfig [] False working_events pl
     \<and> W_Run b \<in> set (s_threads (cw_sys (pl_world pl))) \<and> b_messages b = [demo_msg 7, demo_msg 8]
     \<and> (\<forall>x\<in>set (b_messages b). m_Partition x = b_partition b)"
proof -
  let ?b = "batch_of 0 [demo_msg 7, demo_msg 8]"
  obtain pl where run: "conc_run demo_cfg [[], [Fire 0]] DefaultPollLoopConfig [] False working_events pl"
    and b: "W_Run ?b \<in> set (s_threads (cw_sys (pl_world pl)))" using demo_working by blast
  have "b_messages ?b = [demo_msg 7, demo_msg 8]" by (simp add: batch_of_def)
  with processor_gets_one_partition [OF run b] run b show ?thesis by blast
qed

text \<open>
  \<open>Run\<close> ends exactly when its context ends, whatever Kafka answers, whatever rebalances happen
  and however the workers and timers interleave with the calls of the loop. Until then no
  panic has ended the process: a panic of the processor is recovered by its worker. Once the
  context has ended, the one thing that can keep \<open>Run\<close> from returning is the race of \<open>Close\<close>
  with a timer.
\<close>

lemma conc_Run_total:
  assumes "conc_start dcfg sched = Some w" and "0 < dc_BatchSize dcfg" and "0 \<le> dc_MaxRetries dcfg"
    and "NewPollLoop cfg (Some ()) (Some w) (Some ()) (Some h) (Some m) = Inr pl"
    and "0 < pc_PollInterval cfg" and "0 < pc_CommitInterval cfg"
    and "\<forall>(ev, ans, ls)\<in>set evs. event_ok ev"
  shows "(pl_Run (conc_ops ord late) (conc_events evs) pl \<noteq> None \<longleftrightarrow> CtxDone \<in> fst ` set evs)
    \<and> (\<forall>e. pl_Run (conc_ops ord late) (conc_events evs) pl = Some (Inl e) \<longrightarrow> e = OtherGoroutine SendOnClosedChannel)
    \<and> (CtxDone \<notin> fst ` set evs \<longrightarrow> (\<exists>pl'. run_events (conc_ops ord late) (conc_events evs) (started pl) = Inr pl'
          \<and> s_crash (cw_sys (pl_world pl')) = None))"
proof -
  have pl: "pl_world pl = w" "pl_cfg pl = cfg" using NewPollLoop_fresh [OF assms(4)] by auto
  have w: "conc_open (pl_world (started pl))"
    using conc_start_ok(2) [OF assms(1-3)] pl by (simp add: started_def)
  have "(CtxDone \<in> fst ` set (conc_events evs)
        \<longleftrightarrow> run_loop (conc_ops ord late) (conc_events evs) (started pl) \<noteq> None)
    \<and> (\<forall>e. run_loop (conc_ops ord late) (conc_events evs) (started pl) = Some (Inl e)
          \<longrightarrow> e = OtherGoroutine SendOnClosedChannel)"
    by (rule cp.run_loop_total [OF w]) (use assms(7) others_open in \<open>auto simp: conc_events_def\<close>)
  moreover have evs: "fst ` set (conc_events evs) = fst ` set evs" by (force simp: conc_events_def)
  moreover have "\<exists>pl'. run_events (conc_ops ord late) (conc_events evs) (started pl) = Inr pl'
      \<and> s_crash (cw_sys (pl_world pl')) = None" if "CtxDone \<notin> fst ` set evs"
  proof -
    have "\<exists>pl'. run_events (conc_ops ord late) (conc_events evs) (started pl) = Inr pl' \<and> conc_open (pl_world pl')"
      by (rule run_events_keep [OF cp.event_inv w])
        (use assms(7) others_open in \<open>auto simp: conc_events_def\<close>)
    then show ?thesis using loop_at_live by (auto simp: conc_open_def)
  qed
  ultimately show ?thesis
    using assms(5,6) pl by (auto simp: pl_Run_def NewTicker_def map_sum_Inl_iff)
qed

lemma late_crash: "conc_wf w \<Longrightarrow> conc_Crash w = Some e \<Longrightarrow> e = SendOnClosedChannel"
  using overtaken_later [of w] reach_crash(1) by (auto simp: conc_wf_def conc_Crash_def)

end
