(* ===== verification/Go_Strings.thy ===== *)
theory Go_Strings
  imports Consumer_Prelude
begin

text \<open>
  The parts of Go's \<open>strconv\<close>, \<open>strings\<close> and \<open>fmt\<close> that the program uses: decimal numbers
  (\<open>FormatInt\<close>, \<open>Atoi\<close>), \<open>TrimSpace\<close>, quoting with \<open>%q\<close>, and the conversion of strings to bytes.

  A string is its list of bytes. \<open>TrimSpace\<close> removes Unicode white space: \<open>white\<close> lists the
  UTF-8 encodings of the characters that \<open>unicode.IsSpace\<close> accepts. \<open>Quote\<close> escapes quotes,
  backslashes and ASCII control characters; bytes beyond ASCII are copied, as Go does with the
  bytes of printable characters.
\<close>

subsection \<open>Decimal numbers\<close>

abbreviation digit :: "nat \<Rightarrow> char" where
  "digit d \<equiv> char_of (48 + d)"

fun nat_digits :: "nat \<Rightarrow> string" where
  "nat_digits n = (if n < 10 then [digit n] else nat_digits (n div 10) @ [digit (n mod 10)])"

declare nat_digits.simps [simp del]

definition FormatInt :: "int \<Rightarrow> string" where
  "FormatInt i = (if i < 0 then CHR ''-'' # nat_digits (nat (- i)) else nat_digits (nat i))"

definition is_digit :: "char \<Rightarrow> bool" where
  "is_digit c \<longleftrightarrow> 48 \<le> (of_char c :: nat) \<and> (of_char c :: nat) \<le> 57"

definition digits_value :: "string \<Rightarrow> int" where
  "digits_value s = foldl (\<lambda>n c. 10 * n + (int (of_char c) - 48)) 0 s"

text \<open>
  \<open>strconv.Atoi\<close>: an optional sign and at least one digit; the value must fit a 64-bit
  \<open>int\<close>. \<open>None\<close> is an error.
\<close>

definition Atoi :: "string \<Rightarrow> int option" where
  "Atoi s =
     (let (neg, ds) = (case s of
            [] \<Rightarrow> (False, [])
          | c # cs \<Rightarrow> if c = CHR ''-'' then (True, cs) else if c = CHR ''+'' then (False, cs) else (False, s));
          v = (if neg then - digits_value ds else digits_value ds)
      in if ds = [] \<or> \<not> list_all is_digit ds \<or> v < - (2 ^ 63) \<or> v > 2 ^ 63 - 1 then None else Some v)"

subsection \<open>White space and quoting\<close>

definition white :: "string list" where
  "white =
     [[CHR 0x09], [CHR 0x0A], [CHR 0x0B], [CHR 0x0C], [CHR 0x0D], [CHR 0x20],
      [CHR 0xC2, CHR 0x85], [CHR 0xC2, CHR 0xA0], [CHR 0xE1, CHR 0x9A, CHR 0x80],
      [CHR 0xE2, CHR 0x80, CHR 0x80], [CHR 0xE2, CHR 0x80, CHR 0x81],
      [CHR 0xE2, CHR 0x80, CHR 0x82], [CHR 0xE2, CHR 0x80, CHR 0x83],
      [CHR 0xE2, CHR 0x80, CHR 0x84], [CHR 0xE2, CHR 0x80, CHR 0x85],
      [CHR 0xE2, CHR 0x80, CHR 0x86], [CHR 0xE2, CHR 0x80, CHR 0x87],
      [CHR 0xE2, CHR 0x80, CHR 0x88], [CHR 0xE2, CHR 0x80, CHR 0x89],
      [CHR 0xE2, CHR 0x80, CHR 0x8A], [CHR 0xE2, CHR 0x80, CHR 0xA8],
      [CHR 0xE2, CHR 0x80, CHR 0xA9], [CHR 0xE2, CHR 0x80, CHR 0xAF],
      [CHR 0xE2, CHR 0x81, CHR 0x9F], [CHR 0xE3, CHR 0x80, CHR 0x80]]"

definition prefix_of :: "string \<Rightarrow> string \<Rightarrow> bool" where
  "prefix_of p s \<longleftrightarrow> take (length p) s = p"

text \<open>The length of the white-space character a string starts with, 0 if there is none.\<close>

definition space_len :: "string list \<Rightarrow> string \<Rightarrow> nat" where
  "space_len ws s = (case find (\<lambda>w. prefix_of w s) ws of None \<Rightarrow> 0 | Some w \<Rightarrow> length w)"

function trim_left :: "string list \<Rightarrow> string \<Rightarrow> string" where
  "trim_left ws s = (if space_len ws s = 0 \<or> s = [] then s else trim_left ws (drop (space_len ws s) s))"
  by auto
termination
  by (relation "measure (\<lambda>(ws, s). length s)") auto

declare trim_left.simps [simp del]

definition TrimSpace :: "string \<Rightarrow> string" where
  "TrimSpace s = rev (trim_left (map rev white) (rev (trim_left white s)))"

definition hex_digit :: "nat \<Rightarrow> char" where
  "hex_digit d = (if d < 10 then char_of (48 + d) else char_of (87 + d))"

definition escape :: "char \<Rightarrow> string" where
  "escape c =
     (let n = (of_char c :: nat)
      in if n = 34 \<or> n = 92 then [CHR 0x5C, c]
         else if n = 7 then [CHR 0x5C, CHR ''a''] else if n = 8 then [CHR 0x5C, CHR ''b'']
         else if n = 9 then [CHR 0x5C, CHR ''t''] else if n = 10 then [CHR 0x5C, CHR ''n'']
         else if n = 11 then [CHR 0x5C, CHR ''v''] else if n = 12 then [CHR 0x5C, CHR ''f'']
         else if n = 13 then [CHR 0x5C, CHR ''r'']
         else if n < 32 \<or> n = 127 then [CHR 0x5C, CHR ''x'', hex_digit (n div 16), hex_digit (n mod 16)]
         else [c])"

definition Quote :: "string \<Rightarrow> string" where
  "Quote s = CHR 0x22 # concat (map escape s) @ [CHR 0x22]"

subsection \<open>Bytes\<close>

definition bytes_of :: "string \<Rightarrow> bytes" where
  "bytes_of s = map (\<lambda>c. of_nat (of_char c)) s"

definition string_of :: "bytes \<Rightarrow> string" where
  "string_of b = map (\<lambda>w. char_of (unat w)) b"

lemma string_of_bytes_of [simp]: "string_of (bytes_of s) = s"
proof -
  have "unat (of_nat (of_char c) :: 8 word) = of_char c" for c
    using nat_of_char_less_256 [of c] by (simp add: unat_of_nat)
  then show ?thesis by (simp add: string_of_def bytes_of_def comp_def)
qed

subsection \<open>Round trips\<close>

lemma of_char_digit: "d < 10 \<Longrightarrow> (of_char (digit d) :: nat) = 48 + d"
  by (simp add: of_char_of)

lemma is_digit_digit [simp]: "d < 10 \<Longrightarrow> is_digit (digit d)"
  by (simp add: is_digit_def of_char_digit)

lemma nat_digits_all: "list_all is_digit (nat_digits n) \<and> nat_digits n \<noteq> []"
  by (induction n rule: nat_digits.induct) (subst (1 2) nat_digits.simps, auto)

lemma digits_value_snoc: "digits_value (s @ [c]) = 10 * digits_value s + (int (of_char c) - 48)"
  by (simp add: digits_value_def)

lemma digits_value_nat_digits [simp]: "digits_value (nat_digits n) = int n"
proof (induction n rule: nat_digits.induct)
  case (1 n)
  show ?case
  proof (cases "n < 10")
    case True
    then show ?thesis by (subst nat_digits.simps) (simp add: digits_value_def of_char_digit)
  next
    case False
    with 1 have "digits_value (nat_digits n) = 10 * int (n div 10) + int (n mod 10)"
      by (subst nat_digits.simps) (simp add: digits_value_snoc of_char_digit)
    also have "\<dots> = int n" by presburger
    finally show ?thesis .
  qed
qed

lemma digit_not_sign: "is_digit c \<Longrightarrow> c \<noteq> CHR ''-'' \<and> c \<noteq> CHR ''+''"
  by (auto simp: is_digit_def)

lemma Atoi_FormatInt:
  assumes "- (2 ^ 63) \<le> i" and "i < 2 ^ 63"
  shows "Atoi (FormatInt i) = Some i"
proof (cases "i < 0")
  case True
  with assms show ?thesis
    using nat_digits_all [of "nat (- i)"] by (simp add: Atoi_def FormatInt_def)
next
  case False
  obtain c cs where c: "nat_digits (nat i) = c # cs" "is_digit c"
    using nat_digits_all [of "nat i"] by (cases "nat_digits (nat i)") auto
  then have "Atoi (FormatInt i) = (if \<not> list_all is_digit (c # cs) \<or> digits_value (c # cs) < - (2 ^ 63)
      \<or> digits_value (c # cs) > 2 ^ 63 - 1 then None else Some (digits_value (c # cs)))"
    using False digit_not_sign [OF c(2)] by (simp add: Atoi_def FormatInt_def Let_def)
  also have "\<dots> = Some i"
    unfolding c(1) [symmetric] using False assms nat_digits_all [of "nat i"] by simp
  finally show ?thesis .
qed

subsection \<open>Codecs\<close>

text \<open>A printer and a parser that reads back what was printed, for the values that can be printed.\<close>

locale text_codec =
  fixes valid :: "'a \<Rightarrow> bool"
    and encode :: "'a \<Rightarrow> 'b"
    and decode :: "'b \<Rightarrow> 'a option"
  assumes decode_encode: "valid x \<Longrightarrow> decode (encode x) = Some x"
begin

lemma encode_inj: "inj_on encode {x. valid x}"
  by (rule inj_onI) (metis decode_encode mem_Collect_eq option.inject)

end

text \<open>A codec behind a codec, and the codecs of the program: decimal integers, bytes, both.\<close>

locale codec_pair = inner: text_codec valid encode decode + outer: text_codec "\<lambda>_. True" wrap unwrap
  for valid :: "'a \<Rightarrow> bool" and encode :: "'a \<Rightarrow> 'b" and decode :: "'b \<Rightarrow> 'a option"
    and wrap :: "'b \<Rightarrow> 'c" and unwrap :: "'c \<Rightarrow> 'b option"
begin

lemma both: "valid x \<Longrightarrow> Option.bind (unwrap (wrap (encode x))) decode = Some x"
  by (simp add: inner.decode_encode outer.decode_encode)

end

definition int64_range :: "int \<Rightarrow> bool" where
  "int64_range i \<longleftrightarrow> - (2 ^ 63) \<le> i \<and> i < 2 ^ 63"

interpretation decimal: text_codec int64_range FormatInt Atoi
  by unfold_locales (simp add: int64_range_def Atoi_FormatInt)

interpretation utf8: text_codec "\<lambda>_. True" bytes_of "\<lambda>b. Some (string_of b)"
  by unfold_locales simp

interpretation decimal_bytes: codec_pair int64_range FormatInt Atoi bytes_of "\<lambda>b. Some (string_of b)"
  by unfold_locales

end
