(* ===== verification/Consumer_Config.thy ===== *)
theory Consumer_Config
  imports Dispatcher_Config Go_Strings
begin

text \<open>
  The public configuration of \<^verbatim>\<open>consumer/\<close>: security settings (\<^verbatim>\<open>security.go\<close>), the consumer's
  \<open>Config\<close> with its validation (\<^verbatim>\<open>config.go\<close>), the dispatch mode (\<^verbatim>\<open>dispatch_mode.go\<close>) and
  the start-up check of the Kubernetes grace period (\<^verbatim>\<open>k8s.go\<close>).

  Pointers to sub-structures are options. The environment is a function from variable names
  to values; the warnings a check logs are its result. Durations are 64-bit: sums and products
  wrap around. The failure threshold is a rational: a \<open>float64\<close> that is not a number, which the
  comparisons of \<open>Validate\<close> let pass, is not modelled.
\<close>

subsection \<open>Security\<close>

abbreviation ProtocolPlaintext :: string where "ProtocolPlaintext \<equiv> ''plaintext''"
abbreviation ProtocolSSL :: string where "ProtocolSSL \<equiv> ''ssl''"
abbreviation ProtocolSASLPlaintext :: string where "ProtocolSASLPlaintext \<equiv> ''sasl_plaintext''"
abbreviation ProtocolSASLSSL :: string where "ProtocolSASLSSL \<equiv> ''sasl_ssl''"

abbreviation SASLPlain :: string where "SASLPlain \<equiv> ''PLAIN''"
abbreviation SASLSCRAMSHA256 :: string where "SASLSCRAMSHA256 \<equiv> ''SCRAM-SHA-256''"
abbreviation SASLSCRAMSHA512 :: string where "SASLSCRAMSHA512 \<equiv> ''SCRAM-SHA-512''"
abbreviation SASLOAuthBearer :: string where "SASLOAuthBearer \<equiv> ''OAUTHBEARER''"

record TLSConfig =
  tls_CAFile :: string
  tls_CertFile :: string
  tls_KeyFile :: string
  tls_InsecureSkipVerify :: bool

record SASLConfig =
  sasl_Mechanism :: string
  sasl_Username :: string
  sasl_Password :: string
  sasl_OAuthBearerConfig :: string

record SecurityConfig =
  sec_Protocol :: string
  sec_TLS :: "TLSConfig option"
  sec_SASL :: "SASLConfig option"

definition validateTLS :: "SecurityConfig \<Rightarrow> go_error option" where
  "validateTLS s =
     (case sec_TLS s of
        None \<Rightarrow> Some (ErrorString ''TLS configuration must be provided'')
      | Some t \<Rightarrow>
          if tls_CAFile t = '''' \<and> \<not> tls_InsecureSkipVerify t
          then Some (ErrorString ''either CAFile or InsecureSkipVerify must be set'')
          else if (tls_CertFile t = '''') \<noteq> (tls_KeyFile t = '''')
          then Some (ErrorString ''CertFile and KeyFile must both be set for mutual TLS'')
          else None)"

definition validateSASL :: "SecurityConfig \<Rightarrow> go_error option" where
  "validateSASL s =
     (case sec_SASL s of
        None \<Rightarrow> Some (ErrorString ''SASL configuration must be provided'')
      | Some a \<Rightarrow>
          let mech = sasl_Mechanism a
          in if mech \<in> {SASLPlain, SASLSCRAMSHA256, SASLSCRAMSHA512}
             then if sasl_Username a = ''''
                  then Some (ErrorString (''SASL '' @ mech @ '' requires username''))
                  else if sasl_Password a = ''''
                  then Some (ErrorString (''SASL '' @ mech @ '' requires password''))
                  else None
             else if mech = SASLOAuthBearer then None
             else Some (ErrorString (''unknown SASL mechanism '' @ Quote mech)))"

definition Security_Validate :: "SecurityConfig \<Rightarrow> go_error option" where
  "Security_Validate s =
     (let p = sec_Protocol s;
          need_tls = map_option (Wrapped (''security: protocol '' @ Quote p @ '' requires TLS: ''));
          need_sasl = map_option (Wrapped (''security: protocol '' @ Quote p @ '' requires SASL: ''))
      in if p = ProtocolPlaintext \<or> p = '''' then None
         else if p = ProtocolSSL then need_tls (validateTLS s)
         else if p = ProtocolSASLPlaintext then need_sasl (validateSASL s)
         else if p = ProtocolSASLSSL
         then (case need_tls (validateTLS s) of Some err \<Rightarrow> Some err | None \<Rightarrow> need_sasl (validateSASL s))
         else Some (ErrorString (''security: unknown protocol '' @ Quote p)))"

subsection \<open>Dispatch mode\<close>

type_synonym DispatchMode = int

definition Unordered :: DispatchMode where "Unordered = 0"
definition PartitionOrdered :: DispatchMode where "PartitionOrdered = 1"
definition KeyOrdered :: DispatchMode where "KeyOrdered = 2"

definition DispatchMode_String :: "DispatchMode \<Rightarrow> string" where
  "DispatchMode_String m =
     (if m = Unordered then ''unordered'' else if m = PartitionOrdered then ''partition-ordered''
      else if m = KeyOrdered then ''key-ordered'' else ''unknown'')"

subsection \<open>Configuration\<close>

record Config =
  cf_Brokers :: "string list"
  cf_Topics :: "string list"
  cf_GroupID :: string
  cf_DispatchMode :: DispatchMode
  cf_WorkerCount :: int
  cf_ChannelCap :: int
  cf_BatchSize :: int
  cf_LingerTime :: duration
  cf_MaxRetries :: int
  cf_PollInterval :: duration
  cf_CommitInterval :: duration
  cf_CommitFailureThreshold :: int
  cf_ShutdownTimeout :: duration
  cf_PreStopDelay :: duration
  cf_CBMinRequests :: int
  cf_CBFailureThreshold :: rat
  cf_CBOpenTimeout :: duration
  cf_CBMaxRequests :: int
  cf_CBInterval :: duration
  cf_DLQTopic :: string
  cf_LagReportInterval :: duration
  cf_HealthAddr :: string
  cf_Security :: SecurityConfig

definition DefaultConfig :: Config where
  "DefaultConfig =
     \<lparr>cf_Brokers = [], cf_Topics = [], cf_GroupID = '''', cf_DispatchMode = Unordered,
      cf_WorkerCount = 4, cf_ChannelCap = 100, cf_BatchSize = 50, cf_LingerTime = 100 * Millisecond,
      cf_MaxRetries = 3, cf_PollInterval = 100 * Millisecond, cf_CommitInterval = 5 * Second,
      cf_CommitFailureThreshold = 3, cf_ShutdownTimeout = 25 * Second, cf_PreStopDelay = 0,
      cf_CBMinRequests = 3, cf_CBFailureThreshold = 6 / 10, cf_CBOpenTimeout = 30 * Second,
      cf_CBMaxRequests = 1, cf_CBInterval = 60 * Second, cf_DLQTopic = '''',
      cf_LagReportInterval = 10 * Second, cf_HealthAddr = '':8080'',
      cf_Security = \<lparr>sec_Protocol = '''', sec_TLS = None, sec_SASL = None\<rparr>\<rparr>"

definition Validate :: "Config \<Rightarrow> go_error option" where
  "Validate c =
     (if length (cf_Brokers c) = 0 then Some (ErrorString ''config: at least one broker address is required'')
      else if length (cf_Topics c) = 0 then Some (ErrorString ''config: at least one topic is required'')
      else if cf_GroupID c = '''' then Some (ErrorString ''config: group ID is required'')
      else if cf_WorkerCount c \<le> 0 then Some (ErrorString ''config: worker count must be positive'')
      else if cf_ChannelCap c \<le> 0 then Some (ErrorString ''config: channel capacity must be positive'')
      else if cf_BatchSize c \<le> 0 then Some (ErrorString ''config: batch size must be positive'')
      else if cf_LingerTime c \<le> 0 then Some (ErrorString ''config: linger time must be positive'')
      else if cf_MaxRetries c < 0 then Some (ErrorString ''config: max retries must be non-negative'')
      else if cf_PollInterval c \<le> 0 then Some (ErrorString ''config: poll interval must be positive'')
      else if cf_CommitInterval c \<le> 0 then Some (ErrorString ''config: commit interval must be positive'')
      else if cf_CommitFailureThreshold c \<le> 0
      then Some (ErrorString ''config: commit failure threshold must be positive'')
      else if cf_ShutdownTimeout c \<le> 0 then Some (ErrorString ''config: shutdown timeout must be positive'')
      else if cf_PreStopDelay c < 0 then Some (ErrorString ''config: pre-stop delay must not be negative'')
      else if cf_CBFailureThreshold c \<le> 0 \<or> cf_CBFailureThreshold c > 1
      then Some (ErrorString ''config: circuit breaker failure threshold must be between 0 and 1 (exclusive/inclusive)'')
      else if cf_CBOpenTimeout c \<le> 0
      then Some (ErrorString ''config: circuit breaker open timeout must be positive'')
      else if cf_CBMinRequests c \<le> 0
      then Some (ErrorString ''config: circuit breaker min requests must be positive'')
      else if cf_CBMaxRequests c \<le> 0
      then Some (ErrorString ''config: circuit breaker max requests must be positive'')
      else if cf_CBInterval c \<le> 0 then Some (ErrorString ''config: circuit breaker interval must be positive'')
      else if cf_LagReportInterval c \<le> 0 then Some (ErrorString ''config: lag report interval must be positive'')
      else Security_Validate (cf_Security c))"

subsection \<open>The Kubernetes grace period\<close>

abbreviation kubernetesServiceHostEnv :: string where
  "kubernetesServiceHostEnv \<equiv> ''KUBERNETES_SERVICE_HOST''"

abbreviation kubernetesGracePeriodEnv :: string where
  "kubernetesGracePeriodEnv \<equiv> ''TERMINATION_GRACE_PERIOD_SECONDS''"

definition gracePeriodSafetyBuffer :: duration where
  "gracePeriodSafetyBuffer = 10 * Second"

text \<open>
  The warnings with the numbers they carry: the malformed value; the recommended seconds; the
  configured seconds, the minimum and the shortfall.
\<close>

datatype grace_warning =
    NotAPositiveInteger string
  | SetGracePeriod int duration duration
  | GracePeriodTooSmall int int int duration duration

text \<open>\<open>int(d.Seconds())\<close>: a \<open>float64\<close> sum of seconds and fraction, truncated.\<close>

definition whole_seconds :: "(rat \<Rightarrow> rat) \<Rightarrow> duration \<Rightarrow> int" where
  "whole_seconds fl d =
     (let x = (if d < 0 then - d else d);
          f = fl (of_int (x div Second) + fl (of_int (x mod Second) / of_int Second))
      in if d < 0 then - \<lfloor>f\<rfloor> else \<lfloor>f\<rfloor>)"

definition readGracePeriodEnv :: "(string \<Rightarrow> string option) \<Rightarrow> grace_warning list \<times> duration option" where
  "readGracePeriodEnv env =
     (case env kubernetesGracePeriodEnv of
        None \<Rightarrow> ([], None)
      | Some raw \<Rightarrow>
          (case Atoi (TrimSpace raw) of
             None \<Rightarrow> ([NotAPositiveInteger raw], None)
           | Some secs \<Rightarrow>
               if secs \<le> 0 then ([NotAPositiveInteger raw], None)
               else ([], Some (wrap64 (secs * Second)))))"

definition grace_minimum :: "Config \<Rightarrow> duration" where
  "grace_minimum cfg =
     wrap64 (wrap64 (cf_ShutdownTimeout cfg + cf_PreStopDelay cfg) + gracePeriodSafetyBuffer)"

definition warnKubernetesGracePeriod ::
  "(rat \<Rightarrow> rat) \<Rightarrow> (string \<Rightarrow> string option) \<Rightarrow> Config \<Rightarrow> grace_warning list"
where
  "warnKubernetesGracePeriod fl env cfg =
     (if (case env kubernetesServiceHostEnv of None \<Rightarrow> '''' | Some v \<Rightarrow> v) = '''' then []
      else
        let minimum = grace_minimum cfg;
            envPresent = env kubernetesGracePeriodEnv \<noteq> None;
            (warnings, configured) = readGracePeriodEnv env
        in case configured of
             None \<Rightarrow>
               warnings @ (if \<not> envPresent
                           then [SetGracePeriod (whole_seconds fl minimum)
                                   (cf_ShutdownTimeout cfg) (cf_PreStopDelay cfg)]
                           else [])
           | Some d \<Rightarrow>
               if d < minimum
               then warnings @ [GracePeriodTooSmall (whole_seconds fl d) (whole_seconds fl minimum)
                      (whole_seconds fl (wrap64 (minimum - d))) (cf_ShutdownTimeout cfg) (cf_PreStopDelay cfg)]
               else warnings)"

subsection \<open>What validation accepts\<close>

definition tls_complete :: "TLSConfig \<Rightarrow> bool" where
  "tls_complete t \<longleftrightarrow> (tls_CAFile t \<noteq> '''' \<or> tls_InsecureSkipVerify t)
     \<and> (tls_CertFile t \<noteq> '''' \<longleftrightarrow> tls_KeyFile t \<noteq> '''')"

definition sasl_complete :: "SASLConfig \<Rightarrow> bool" where
  "sasl_complete a \<longleftrightarrow> sasl_Mechanism a = SASLOAuthBearer
     \<or> sasl_Mechanism a \<in> {SASLPlain, SASLSCRAMSHA256, SASLSCRAMSHA512}
        \<and> sasl_Username a \<noteq> '''' \<and> sasl_Password a \<noteq> ''''"

definition encrypts :: "string \<Rightarrow> bool" where
  "encrypts p \<longleftrightarrow> p \<in> {ProtocolSSL, ProtocolSASLSSL}"

definition authenticates :: "string \<Rightarrow> bool" where
  "authenticates p \<longleftrightarrow> p \<in> {ProtocolSASLPlaintext, ProtocolSASLSSL}"

lemma validateTLS_None: "validateTLS s = None \<longleftrightarrow> (\<exists>t. sec_TLS s = Some t \<and> tls_complete t)"
  by (auto simp: validateTLS_def tls_complete_def split: option.split if_splits)

lemma validateSASL_None: "validateSASL s = None \<longleftrightarrow> (\<exists>a. sec_SASL s = Some a \<and> sasl_complete a)"
  by (auto simp: validateSASL_def sasl_complete_def Let_def split: option.split if_splits)

lemma Security_Validate_None:
  "Security_Validate s = None \<longleftrightarrow>
     sec_Protocol s \<in> {'''', ProtocolPlaintext, ProtocolSSL, ProtocolSASLPlaintext, ProtocolSASLSSL}
     \<and> (encrypts (sec_Protocol s) \<longrightarrow> validateTLS s = None)
     \<and> (authenticates (sec_Protocol s) \<longrightarrow> validateSASL s = None)"
  by (auto simp: Security_Validate_def Let_def encrypts_def authenticates_def split: option.split)

lemma Validate_None:
  "Validate c = None \<Longrightarrow> cf_Brokers c \<noteq> [] \<and> cf_Topics c \<noteq> [] \<and> cf_GroupID c \<noteq> ''''
     \<and> 0 < cf_WorkerCount c \<and> 0 < cf_ChannelCap c \<and> 0 < cf_BatchSize c \<and> 0 < cf_LingerTime c
     \<and> 0 \<le> cf_MaxRetries c \<and> 0 < cf_PollInterval c \<and> 0 < cf_CommitInterval c
     \<and> 0 < cf_CommitFailureThreshold c \<and> 0 < cf_ShutdownTimeout c \<and> 0 \<le> cf_PreStopDelay c
     \<and> 0 < cf_CBFailureThreshold c \<and> cf_CBFailureThreshold c \<le> 1 \<and> 0 < cf_CBOpenTimeout c
     \<and> 0 < cf_CBMinRequests c \<and> 0 < cf_CBMaxRequests c \<and> 0 < cf_CBInterval c
     \<and> 0 < cf_LagReportInterval c \<and> Security_Validate (cf_Security c) = None"
  by (simp add: Validate_def split: if_splits)

subsection \<open>The grace period without overflow\<close>

lemma grace_minimum_exact:
  assumes "0 \<le> cf_ShutdownTimeout cfg" and "0 \<le> cf_PreStopDelay cfg"
    and "cf_ShutdownTimeout cfg + cf_PreStopDelay cfg + gracePeriodSafetyBuffer < 2 ^ 63"
  shows "grace_minimum cfg = cf_ShutdownTimeout cfg + cf_PreStopDelay cfg + gracePeriodSafetyBuffer"
proof -
  have "wrap64 (cf_ShutdownTimeout cfg + cf_PreStopDelay cfg) = cf_ShutdownTimeout cfg + cf_PreStopDelay cfg"
    using assms by (intro wrap64_id) (simp_all add: gracePeriodSafetyBuffer_def)
  then show ?thesis
    using assms by (simp add: grace_minimum_def wrap64_id gracePeriodSafetyBuffer_def)
qed

lemma warn_in_kubernetes:
  assumes "env kubernetesServiceHostEnv = Some host" and "host \<noteq> ''''"
    and "env kubernetesGracePeriodEnv = Some raw" and "Atoi (TrimSpace raw) = Some secs" and "0 < secs"
  shows "warnKubernetesGracePeriod fl env cfg =
    (let d = wrap64 (secs * Second)
     in if d < grace_minimum cfg
        then [GracePeriodTooSmall (whole_seconds fl d) (whole_seconds fl (grace_minimum cfg))
               (whole_seconds fl (wrap64 (grace_minimum cfg - d))) (cf_ShutdownTimeout cfg) (cf_PreStopDelay cfg)]
        else [])"
  using assms by (simp add: warnKubernetesGracePeriod_def readGracePeriodEnv_def Let_def)

subsection \<open>Properties\<close>

text \<open>
  C37: validation accepts exactly the complete security settings: a known protocol (or none),
  TLS settings with a way to verify the broker and a certificate only together with its key
  when the protocol encrypts, SASL settings with a known mechanism and its credentials when it
  authenticates. A protocol that does neither ignores the other settings.
\<close>

theorem security_accepted_iff:
  "Security_Validate s = None \<longleftrightarrow>
     sec_Protocol s \<in> {'''', ProtocolPlaintext, ProtocolSSL, ProtocolSASLPlaintext, ProtocolSASLSSL}
     \<and> (if encrypts (sec_Protocol s) then \<exists>t. sec_TLS s = Some t \<and> tls_complete t else True)
     \<and> (if authenticates (sec_Protocol s) then \<exists>a. sec_SASL s = Some a \<and> sasl_complete a else True)"
  by (auto simp: Security_Validate_None validateTLS_None validateSASL_None)

text \<open>
  C38: the grace-period check compares what it says. In Kubernetes, with the variable set to the
  decimal number \<open>secs\<close> (white space around it is ignored) and no overflow, it is silent exactly
  when \<open>secs\<close> seconds cover \<open>ShutdownTimeout + PreStopDelay + 10s\<close>; outside Kubernetes it is
  always silent; with the variable unset it warns.
\<close>

theorem grace_period_check:
  assumes "env kubernetesServiceHostEnv = Some host" and "host \<noteq> ''''"
    and "0 \<le> cf_ShutdownTimeout cfg" and "0 \<le> cf_PreStopDelay cfg"
    and "cf_ShutdownTimeout cfg + cf_PreStopDelay cfg + gracePeriodSafetyBuffer < 2 ^ 63"
    and "0 < secs" and "secs * Second < 2 ^ 63" and "TrimSpace raw = FormatInt secs"
  shows "(warnKubernetesGracePeriod fl (env(kubernetesGracePeriodEnv \<mapsto> raw)) cfg = []
      \<longleftrightarrow> cf_ShutdownTimeout cfg + cf_PreStopDelay cfg + gracePeriodSafetyBuffer \<le> secs * Second)
    \<and> warnKubernetesGracePeriod fl (env(kubernetesServiceHostEnv := None)) cfg = []
    \<and> warnKubernetesGracePeriod fl (env(kubernetesGracePeriodEnv := None)) cfg \<noteq> []"
proof -
  let ?env = "env(kubernetesGracePeriodEnv \<mapsto> raw)"
  have "Atoi (TrimSpace raw) = Some secs"
    unfolding assms(8) using assms(6,7) by (intro Atoi_FormatInt) simp_all
  then have w: "warnKubernetesGracePeriod fl ?env cfg = [] \<longleftrightarrow> grace_minimum cfg \<le> wrap64 (secs * Second)"
    using warn_in_kubernetes [of ?env host raw secs fl cfg] assms(1,2,6) by (auto simp: Let_def)
  moreover have "wrap64 (secs * Second) = secs * Second"
    using assms(6,7) by (intro wrap64_id) simp_all
  ultimately show ?thesis
    using assms(1,2) grace_minimum_exact [OF assms(3-5)]
    by (simp add: warnKubernetesGracePeriod_def readGracePeriodEnv_def)
qed

theorem grace_period_check_witness:
  "warnKubernetesGracePeriod (\<lambda>x. x) [''KUBERNETES_SERVICE_HOST'' \<mapsto> ''10.0.0.1'',
      ''TERMINATION_GRACE_PERIOD_SECONDS'' \<mapsto> '' 35 ''] DefaultConfig = []"
proof -
  have "TrimSpace '' 35 '' = FormatInt 35" by code_simp
  from grace_period_check [of "[''KUBERNETES_SERVICE_HOST'' \<mapsto> ''10.0.0.1'']" "''10.0.0.1''"
      DefaultConfig 35 "'' 35 ''" "\<lambda>x. x", OF _ _ _ _ _ _ _ this]
  show ?thesis by (simp add: DefaultConfig_def gracePeriodSafetyBuffer_def)
qed

text \<open>
  Two limits of the check. The recommended number of seconds is truncated: with a shutdown
  timeout of 25.5 s the warning recommends 35, and following the advice gives the next
  warning, with a shortfall of zero seconds. And the product wraps around: a grace period of
  9223372037 seconds is reported as too small. (\<open>fl\<close> is exact on the numbers that occur.)
\<close>

theorem grace_period_limits:
  assumes "fl (1 / 2) = 1 / 2" and "fl (71 / 2) = 71 / 2" and "fl 0 = 0" and "fl 35 = 35"
  defines "cfg \<equiv> DefaultConfig\<lparr>cf_ShutdownTimeout := 25500 * Millisecond\<rparr>"
    and "pod \<equiv> [kubernetesServiceHostEnv \<mapsto> ''10.0.0.1'']"
  shows "warnKubernetesGracePeriod fl pod cfg = [SetGracePeriod 35 (cf_ShutdownTimeout cfg) 0]
    \<and> warnKubernetesGracePeriod fl (pod(kubernetesGracePeriodEnv \<mapsto> ''35'')) cfg
        = [GracePeriodTooSmall 35 35 0 (cf_ShutdownTimeout cfg) 0]
    \<and> warnKubernetesGracePeriod fl (pod(kubernetesGracePeriodEnv \<mapsto> ''9223372037'')) cfg \<noteq> []"
proof -
  have a: "Atoi (TrimSpace ''35'') = Some 35" "Atoi (TrimSpace ''9223372037'') = Some 9223372037"
    by code_simp+
  have m: "grace_minimum cfg = 35500000000"
    by (simp add: cfg_def DefaultConfig_def grace_minimum_exact gracePeriodSafetyBuffer_def)
  have sec: "whole_seconds fl 35500000000 = 35" "whole_seconds fl 35000000000 = 35"
    "whole_seconds fl 500000000 = 0"
    by (simp_all add: whole_seconds_def Let_def assms(1-4) floor_eq_iff)
  have w: "wrap64 35000000000 = 35000000000" "wrap64 500000000 = 500000000"
    "wrap64 9223372037000000000 < 0"
    by code_simp+
  show ?thesis
    using a m sec w
    by (simp add: warnKubernetesGracePeriod_def readGracePeriodEnv_def pod_def Let_def cfg_def DefaultConfig_def)
qed

theorem grace_period_limits_witness:
  "warnKubernetesGracePeriod (\<lambda>x. x) [''KUBERNETES_SERVICE_HOST'' \<mapsto> ''10.0.0.1'']
     (DefaultConfig\<lparr>cf_ShutdownTimeout := 25500000000\<rparr>) = [SetGracePeriod 35 25500000000 0]"
  using grace_period_limits [of "\<lambda>x. x"] by simp

end
