(* ===== verification/Kafka_Config.thy ===== *)
theory Kafka_Config
  imports Consumer_Config
begin

text \<open>
  The configuration of the Kafka client, \<^verbatim>\<open>internal/kafka/config.go\<close>: the adapter's settings
  and their translation to librdkafka properties.

  The client library's \<open>ConfigMap\<close> is a finite map from property names to values. Its method
  \<open>SetKey\<close> is not part of the repository: it is the argument \<open>setKey\<close>. What the code relies on,
  that it sets the key and reports no error, is the hypothesis \<open>sets_key\<close>.
\<close>

subsection \<open>Settings\<close>

record KTLSConfig =
  kt_CAFile :: string
  kt_CertFile :: string
  kt_KeyFile :: string
  kt_InsecureSkipVerify :: bool

record KSASLConfig =
  ks_Mechanism :: string
  ks_Username :: string
  ks_Password :: string
  ks_OAuthBearerConfig :: string

record KSecurityConfig =
  k_Protocol :: string
  k_TLS :: "KTLSConfig option"
  k_SASL :: "KSASLConfig option"

record AdapterConfig =
  ac_Brokers :: "string list"
  ac_GroupID :: string
  ac_Topics :: "string list"
  ac_Security :: KSecurityConfig
  ac_LagReportInterval :: duration

datatype ConfigValue = CvString string | CvBool bool | CvInt int

type_synonym ConfigMap = "(string, ConfigValue) fmap"
type_synonym set_key = "string \<Rightarrow> ConfigValue \<Rightarrow> ConfigMap \<Rightarrow> go_error + ConfigMap"

text \<open>
  Data of the client library: a message with the topic, partition and offset it belongs to.
  The topic is a pointer. \<open>PartitionAny\<close> lets the library choose.
\<close>

record TopicPartition =
  tp_Topic :: "string option"
  tp_Partition :: int32
  tp_Offset :: int64

record kafka_message =
  km_TopicPartition :: TopicPartition
  km_Key :: "bytes option"
  km_Value :: "bytes option"
  km_Timestamp :: int
  km_Headers :: "header list"

abbreviation PartitionAny :: int32 where "PartitionAny \<equiv> - 1"

subsection \<open>Translation\<close>

text \<open>A step that may return an error, and a setting that is made only when it is present.\<close>

definition err_bind :: "go_error + 'a \<Rightarrow> ('a \<Rightarrow> go_error + 'b) \<Rightarrow> go_error + 'b" where
  "err_bind x f = (case x of Inl e \<Rightarrow> Inl e | Inr a \<Rightarrow> f a)"

definition set_if :: "set_key \<Rightarrow> bool \<Rightarrow> string \<Rightarrow> ConfigValue \<Rightarrow> ConfigMap \<Rightarrow> go_error + ConfigMap" where
  "set_if setKey present key v m =
     (if present
      then (case setKey key v m of
              Inl err \<Rightarrow> Inl (Wrapped (''set '' @ key @ '': '') err)
            | Inr m' \<Rightarrow> Inr m')
      else Inr m)"

definition applySecurity :: "set_key \<Rightarrow> KSecurityConfig \<Rightarrow> ConfigMap \<Rightarrow> go_error + ConfigMap" where
  "applySecurity setKey sec m =
     (let protocol = (if k_Protocol sec = '''' then ''plaintext'' else k_Protocol sec)
      in err_bind (set_if setKey True ''security.protocol'' (CvString protocol) m) (\<lambda>m1.
         err_bind
           (case k_TLS sec of
              None \<Rightarrow> Inr m1
            | Some t \<Rightarrow>
                err_bind (set_if setKey (kt_CAFile t \<noteq> '''') ''ssl.ca.location'' (CvString (kt_CAFile t)) m1) (\<lambda>m2.
                err_bind (set_if setKey (kt_CertFile t \<noteq> '''') ''ssl.certificate.location''
                            (CvString (kt_CertFile t)) m2) (\<lambda>m3.
                err_bind (set_if setKey (kt_KeyFile t \<noteq> '''') ''ssl.key.location'' (CvString (kt_KeyFile t)) m3)
                (set_if setKey (kt_InsecureSkipVerify t) ''enable.ssl.certificate.verification'' (CvBool False)))))
           (\<lambda>m5.
              case k_SASL sec of
                None \<Rightarrow> Inr m5
              | Some a \<Rightarrow>
                  err_bind (set_if setKey True ''sasl.mechanism'' (CvString (ks_Mechanism a)) m5) (\<lambda>m6.
                  err_bind (set_if setKey (ks_Username a \<noteq> '''') ''sasl.username'' (CvString (ks_Username a)) m6) (\<lambda>m7.
                  err_bind (set_if setKey (ks_Password a \<noteq> '''') ''sasl.password'' (CvString (ks_Password a)) m7)
                  (set_if setKey (ks_OAuthBearerConfig a \<noteq> '''') ''sasl.oauthbearer.config''
                     (CvString (ks_OAuthBearerConfig a))))))))"

definition consumer_properties :: "AdapterConfig \<Rightarrow> ConfigMap" where
  "consumer_properties cfg =
     fmap_of_list
       [(''bootstrap.servers'', CvString (Join (ac_Brokers cfg) '','')),
        (''group.id'', CvString (ac_GroupID cfg)),
        (''enable.auto.commit'', CvBool False),
        (''partition.assignment.strategy'', CvString ''cooperative-sticky''),
        (''auto.offset.reset'', CvString ''earliest''),
        (''go.application.rebalance.enable'', CvBool True),
        (''statistics.interval.ms'', CvInt (Milliseconds (ac_LagReportInterval cfg)))]"

definition BuildConsumerConfig :: "set_key \<Rightarrow> AdapterConfig \<Rightarrow> go_error + ConfigMap" where
  "BuildConsumerConfig setKey cfg =
     (case applySecurity setKey (ac_Security cfg) (consumer_properties cfg) of
        Inl err \<Rightarrow> Inl (Wrapped ''kafka config: '' err)
      | Inr m \<Rightarrow> Inr m)"

subsection \<open>What the client is given\<close>

definition sets_key :: "set_key \<Rightarrow> bool" where
  "sets_key setKey \<longleftrightarrow> (\<forall>k v m. setKey k v m = Inr (fmupd k v m))"

lemma err_bind_simps [simp]: "err_bind (Inl e) f = Inl e" "err_bind (Inr a) f = f a"
  by (simp_all add: err_bind_def)

lemma set_if_eq: "sets_key setKey \<Longrightarrow> set_if setKey b k v m = Inr (if b then fmupd k v m else m)"
  by (simp add: set_if_def sets_key_def)

text \<open>The security property of a key, if the settings have one.\<close>

definition present :: "string \<Rightarrow> ConfigValue option" where
  "present s = (if s = '''' then None else Some (CvString s))"

definition security_property :: "KSecurityConfig \<Rightarrow> string \<Rightarrow> ConfigValue option" where
  "security_property sec k =
     (if k = ''security.protocol''
      then Some (CvString (if k_Protocol sec = '''' then ''plaintext'' else k_Protocol sec))
      else if k = ''ssl.ca.location'' then Option.bind (k_TLS sec) (\<lambda>t. present (kt_CAFile t))
      else if k = ''ssl.certificate.location'' then Option.bind (k_TLS sec) (\<lambda>t. present (kt_CertFile t))
      else if k = ''ssl.key.location'' then Option.bind (k_TLS sec) (\<lambda>t. present (kt_KeyFile t))
      else if k = ''enable.ssl.certificate.verification''
      then Option.bind (k_TLS sec) (\<lambda>t. if kt_InsecureSkipVerify t then Some (CvBool False) else None)
      else if k = ''sasl.mechanism'' then map_option (\<lambda>a. CvString (ks_Mechanism a)) (k_SASL sec)
      else if k = ''sasl.username'' then Option.bind (k_SASL sec) (\<lambda>a. present (ks_Username a))
      else if k = ''sasl.password'' then Option.bind (k_SASL sec) (\<lambda>a. present (ks_Password a))
      else if k = ''sasl.oauthbearer.config''
      then Option.bind (k_SASL sec) (\<lambda>a. present (ks_OAuthBearerConfig a))
      else None)"

definition put :: "string \<Rightarrow> ConfigValue option \<Rightarrow> ConfigMap \<Rightarrow> ConfigMap" where
  "put k v m = (case v of None \<Rightarrow> m | Some x \<Rightarrow> fmupd k x m)"

lemma put_lookup [simp]:
  "fmlookup (put k v m) q = (if q = k \<and> v \<noteq> None then v else fmlookup m q)"
  by (simp add: put_def split: option.split)

lemma set_if_put: "sets_key setKey \<Longrightarrow> set_if setKey b k v m = Inr (put k (if b then Some v else None) m)"
  by (simp add: set_if_eq put_def)

lemma present_if: "(if s \<noteq> '''' then Some (CvString s) else None) = present s"
  by (simp add: present_def)

lemma put_None [simp]: "put k None m = m"
  by (simp add: put_def)

definition security_keys :: "string list" where
  "security_keys = [''security.protocol'', ''ssl.ca.location'', ''ssl.certificate.location'',
     ''ssl.key.location'', ''enable.ssl.certificate.verification'', ''sasl.mechanism'',
     ''sasl.username'', ''sasl.password'', ''sasl.oauthbearer.config'']"

lemma applySecurity_fold:
  assumes "sets_key setKey"
  shows "applySecurity setKey sec m = Inr (fold (\<lambda>k. put k (security_property sec k)) security_keys m)"
  by (cases "k_TLS sec"; cases "k_SASL sec")
    (simp_all add: applySecurity_def Let_def set_if_put [OF assms] security_keys_def security_property_def
       present_if)

lemma fold_put_lookup:
  "fmlookup (fold (\<lambda>k. put k (f k)) ks m) q = (if q \<in> set ks \<and> f q \<noteq> None then f q else fmlookup m q)"
  by (induction ks arbitrary: m) auto

lemma applySecurity_lookup:
  assumes "sets_key setKey"
  shows "\<exists>m'. applySecurity setKey sec m = Inr m' \<and> (\<forall>k. fmlookup m' k =
    (case security_property sec k of Some v \<Rightarrow> Some v | None \<Rightarrow> fmlookup m k))"
proof -
  have "security_property sec k = None" if "k \<notin> set security_keys" for k
    using that by (simp add: security_property_def security_keys_def)
  then show ?thesis
    unfolding applySecurity_fold [OF assms] by (auto simp: fold_put_lookup split: option.split)
qed

definition base_keys :: "string list" where
  "base_keys = [''bootstrap.servers'', ''group.id'', ''enable.auto.commit'', ''auto.offset.reset'',
     ''partition.assignment.strategy'', ''go.application.rebalance.enable'', ''statistics.interval.ms'']"

lemma consumer_properties_lookup:
  "fmlookup (consumer_properties cfg) ''bootstrap.servers'' = Some (CvString (Join (ac_Brokers cfg) '',''))"
  "fmlookup (consumer_properties cfg) ''group.id'' = Some (CvString (ac_GroupID cfg))"
  "fmlookup (consumer_properties cfg) ''enable.auto.commit'' = Some (CvBool False)"
  "fmlookup (consumer_properties cfg) ''auto.offset.reset'' = Some (CvString ''earliest'')"
  "fmlookup (consumer_properties cfg) ''partition.assignment.strategy'' = Some (CvString ''cooperative-sticky'')"
  "fmlookup (consumer_properties cfg) ''go.application.rebalance.enable'' = Some (CvBool True)"
  "fmlookup (consumer_properties cfg) ''statistics.interval.ms''
     = Some (CvInt (Milliseconds (ac_LagReportInterval cfg)))"
  by (simp_all add: consumer_properties_def fmlookup_of_list)

lemma consumer_properties_only: "k \<notin> set base_keys \<Longrightarrow> fmlookup (consumer_properties cfg) k = None"
  by (auto simp: consumer_properties_def base_keys_def fmlookup_of_list)

lemma security_property_base: "k \<in> set base_keys \<Longrightarrow> security_property sec k = None"
proof -
  assume "k \<in> set base_keys"
  then have "k \<notin> set security_keys" by (auto simp: base_keys_def security_keys_def)
  then show ?thesis by (simp add: security_property_def security_keys_def)
qed

lemma BuildConsumerConfig_lookup:
  assumes "sets_key setKey"
  shows "\<exists>m. BuildConsumerConfig setKey cfg = Inr m
    \<and> (\<forall>k \<in> set base_keys. fmlookup m k = fmlookup (consumer_properties cfg) k)
    \<and> (\<forall>k. k \<notin> set base_keys \<longrightarrow> fmlookup m k = security_property (ac_Security cfg) k)"
proof -
  obtain m where m: "applySecurity setKey (ac_Security cfg) (consumer_properties cfg) = Inr m"
    "\<And>k. fmlookup m k = (case security_property (ac_Security cfg) k of
       Some v \<Rightarrow> Some v | None \<Rightarrow> fmlookup (consumer_properties cfg) k)"
    using applySecurity_lookup [OF assms] by blast
  then show ?thesis
    by (intro exI [where x = m])
      (simp add: BuildConsumerConfig_def m(1) m(2) security_property_base consumer_properties_only
        split: option.split)
qed

subsection \<open>Properties\<close>

text \<open>
  What the Kafka client is configured with. Automatic commits are off, so an offset is
  committed only by the poll loop; a group without offsets starts at the earliest; rebalances
  are incremental and given to the application; every security property is set exactly when
  the settings have it, and nothing else is. The statistics interval is the report interval
  in whole milliseconds: below one millisecond it is zero, which turns the statistics off.
\<close>

theorem consumer_properties_set:
  assumes "sets_key setKey"
  shows "\<exists>m. BuildConsumerConfig setKey cfg = Inr m
    \<and> fmlookup m ''bootstrap.servers'' = Some (CvString (Join (ac_Brokers cfg) '',''))
    \<and> fmlookup m ''group.id'' = Some (CvString (ac_GroupID cfg))
    \<and> fmlookup m ''enable.auto.commit'' = Some (CvBool False)
    \<and> fmlookup m ''auto.offset.reset'' = Some (CvString ''earliest'')
    \<and> fmlookup m ''partition.assignment.strategy'' = Some (CvString ''cooperative-sticky'')
    \<and> fmlookup m ''go.application.rebalance.enable'' = Some (CvBool True)
    \<and> fmlookup m ''statistics.interval.ms'' = Some (CvInt (Milliseconds (ac_LagReportInterval cfg)))
    \<and> (0 \<le> ac_LagReportInterval cfg \<and> ac_LagReportInterval cfg < Millisecond
        \<longrightarrow> fmlookup m ''statistics.interval.ms'' = Some (CvInt 0))
    \<and> (\<forall>k. k \<notin> set base_keys \<longrightarrow> fmlookup m k = security_property (ac_Security cfg) k)"
proof -
  obtain m where m: "BuildConsumerConfig setKey cfg = Inr m"
    "\<And>k. k \<in> set base_keys \<Longrightarrow> fmlookup m k = fmlookup (consumer_properties cfg) k"
    "\<And>k. k \<notin> set base_keys \<Longrightarrow> fmlookup m k = security_property (ac_Security cfg) k"
    using BuildConsumerConfig_lookup [OF assms, of cfg] by blast
  have b: "''bootstrap.servers'' \<in> set base_keys" "''group.id'' \<in> set base_keys"
    "''enable.auto.commit'' \<in> set base_keys" "''auto.offset.reset'' \<in> set base_keys"
    "''partition.assignment.strategy'' \<in> set base_keys"
    "''go.application.rebalance.enable'' \<in> set base_keys" "''statistics.interval.ms'' \<in> set base_keys"
    by (simp_all add: base_keys_def)
  have "0 \<le> d \<and> d < Millisecond \<longrightarrow> Milliseconds d = 0" for d by (simp add: Milliseconds_def)
  then show ?thesis
    by (intro exI [where x = m] conjI allI impI)
      (simp_all only: m(1) m(3) m(2) [OF b(1)] m(2) [OF b(2)] m(2) [OF b(3)] m(2) [OF b(4)] m(2) [OF b(5)]
         m(2) [OF b(6)] m(2) [OF b(7)] consumer_properties_lookup not_False_eq_True)
qed

theorem consumer_properties_set_witness:
  "\<exists>m. BuildConsumerConfig (\<lambda>k v m. Inr (fmupd k v m))
      \<lparr>ac_Brokers = [''a:9092'', ''b:9092''], ac_GroupID = ''g'', ac_Topics = [''t''],
       ac_Security = \<lparr>k_Protocol = ''ssl'', k_TLS = None, k_SASL = None\<rparr>, ac_LagReportInterval = 500000\<rparr> = Inr m
    \<and> fmlookup m ''bootstrap.servers'' = Some (CvString ''a:9092,b:9092'')
    \<and> fmlookup m ''security.protocol'' = Some (CvString ''ssl'')
    \<and> fmlookup m ''statistics.interval.ms'' = Some (CvInt 0)"
proof -
  let ?cfg = "\<lparr>ac_Brokers = [''a:9092'', ''b:9092''], ac_GroupID = ''g'', ac_Topics = [''t''],
       ac_Security = \<lparr>k_Protocol = ''ssl'', k_TLS = None, k_SASL = None\<rparr>, ac_LagReportInterval = 500000\<rparr>"
  have "sets_key (\<lambda>k v m. Inr (fmupd k v m))" by (simp add: sets_key_def)
  from consumer_properties_set [OF this, of ?cfg] obtain m where
    m: "BuildConsumerConfig (\<lambda>k v m. Inr (fmupd k v m)) ?cfg = Inr m"
      "fmlookup m ''bootstrap.servers'' = Some (CvString (Join (ac_Brokers ?cfg) '',''))"
      "fmlookup m ''statistics.interval.ms'' = Some (CvInt (Milliseconds (ac_LagReportInterval ?cfg)))"
      "\<forall>k. k \<notin> set base_keys \<longrightarrow> fmlookup m k = security_property (ac_Security ?cfg) k"
    by (elim exE conjE)
  have "''security.protocol'' \<notin> set base_keys" by (simp add: base_keys_def)
  with m show ?thesis
    by (intro exI [where x = m]) (simp add: security_property_def Milliseconds_def)
qed

end
