(* ===== verification/Lag_Metrics.thy ===== *)
theory Lag_Metrics
  imports Dispatcher_Config
begin

text \<open>
  The consumer-lag gauge, \<^verbatim>\<open>internal/metrics/lag.go\<close>. The JSON decoder is the argument
  \<open>unmarshal\<close> (\<open>None\<close>: the text does not parse); the orders in which Go visits the topics and a
  topic's partitions are arguments; the conversion to \<open>float64\<close> rounds with \<open>fl\<close>.
\<close>

record rdkafkaPartition =
  rp_ConsumerLag :: int64

record rdkafkaTopic =
  rt_Partitions :: "(string, rdkafkaPartition) fmap"

record rdkafkaStats =
  rs_Topics :: "(string, rdkafkaTopic) fmap"

text \<open>The gauge by its labels group, topic and partition; \<open>None\<close>: no such series yet.\<close>

type_synonym lag_gauge = "string \<times> string \<times> string \<Rightarrow> rat option"

definition NewLagMetrics :: lag_gauge where
  "NewLagMetrics = (\<lambda>_. None)"

definition lag_partition ::
  "(rat \<Rightarrow> rat) \<Rightarrow> string \<Rightarrow> string \<Rightarrow> rdkafkaTopic \<Rightarrow> string \<Rightarrow> lag_gauge \<Rightarrow> lag_gauge"
where
  "lag_partition fl groupID topic t partID lag =
     (case fmlookup (rt_Partitions t) partID of
        None \<Rightarrow> lag
      | Some p \<Rightarrow>
          if sint (rp_ConsumerLag p) < 0 then lag
          else lag((groupID, topic, partID) := Some (fl (of_int (sint (rp_ConsumerLag p))))))"

definition lag_topic ::
  "(rat \<Rightarrow> rat) \<Rightarrow> string \<Rightarrow> rdkafkaStats \<Rightarrow> (string \<Rightarrow> string list) \<Rightarrow> string \<Rightarrow> lag_gauge \<Rightarrow> lag_gauge"
where
  "lag_topic fl groupID s parts topic lag =
     (case fmlookup (rs_Topics s) topic of
        None \<Rightarrow> lag
      | Some t \<Rightarrow> fold (lag_partition fl groupID topic t) (parts topic) lag)"

definition Update ::
  "(rat \<Rightarrow> rat) \<Rightarrow> (string \<Rightarrow> rdkafkaStats option) \<Rightarrow> string list \<Rightarrow> (string \<Rightarrow> string list)
    \<Rightarrow> string \<Rightarrow> string \<Rightarrow> lag_gauge \<Rightarrow> lag_gauge"
where
  "Update fl unmarshal topics parts groupID statsJSON lag =
     (case unmarshal statsJSON of
        None \<Rightarrow> lag
      | Some s \<Rightarrow> fold (lag_topic fl groupID s parts) topics lag)"

subsection \<open>What an update leaves\<close>

text \<open>The known lag of a partition in the statistics.\<close>

definition reported_lag :: "rdkafkaStats \<Rightarrow> string \<Rightarrow> string \<Rightarrow> int option" where
  "reported_lag s topic partID =
     Option.bind (fmlookup (rs_Topics s) topic) (\<lambda>t.
       Option.bind (fmlookup (rt_Partitions t) partID) (\<lambda>p.
         if sint (rp_ConsumerLag p) < 0 then None else Some (sint (rp_ConsumerLag p))))"

lemma lag_partitions:
  "fold (lag_partition fl g topic t) ps lag (g', topic', partID) =
     (if g' = g \<and> topic' = topic \<and> partID \<in> set ps
      then (case fmlookup (rt_Partitions t) partID of
              Some p \<Rightarrow> if sint (rp_ConsumerLag p) < 0 then lag (g', topic', partID)
                       else Some (fl (of_int (sint (rp_ConsumerLag p))))
            | None \<Rightarrow> lag (g', topic', partID))
      else lag (g', topic', partID))"
  by (induction ps arbitrary: lag) (auto simp: lag_partition_def split: option.split)

lemma lag_topics:
  assumes "\<And>topic t. fmlookup (rs_Topics s) topic = Some t \<Longrightarrow> enumerates (parts topic) (rt_Partitions t)"
  shows "fold (lag_topic fl g s parts) topics lag (g', topic, partID) =
     (if g' = g \<and> topic \<in> set topics
      then (case reported_lag s topic partID of
              Some n \<Rightarrow> Some (fl (of_int n)) | None \<Rightarrow> lag (g', topic, partID))
      else lag (g', topic, partID))"
proof (induction topics arbitrary: lag)
  case (Cons x xs)
  have in_parts: "partID \<in> set (parts topic) \<longleftrightarrow> fmlookup (rt_Partitions t) partID \<noteq> None"
    if "fmlookup (rs_Topics s) topic = Some t" for t
    using enumerates_set [OF assms [OF that]] .
  have "lag_topic fl g s parts x lag (g', topic, partID) =
     (if g' = g \<and> topic = x
      then (case reported_lag s topic partID of
              Some n \<Rightarrow> Some (fl (of_int n)) | None \<Rightarrow> lag (g', topic, partID))
      else lag (g', topic, partID))"
    using in_parts by (auto simp: lag_topic_def lag_partitions reported_lag_def split: option.split)
  then show ?case using Cons.IH [of "lag_topic fl g s parts x lag"] by (auto split: option.split)
qed simp

text \<open>
  An update sets the gauge of exactly the partitions whose lag is known, in whatever order the
  maps are visited, and leaves every other series as it was: a partition whose lag is not
  known, or that is not in the statistics any more, keeps its last value.
\<close>

lemma lag_update:
  assumes "unmarshal js = Some s" and "enumerates topics (rs_Topics s)"
    and "\<And>topic t. fmlookup (rs_Topics s) topic = Some t \<Longrightarrow> enumerates (parts topic) (rt_Partitions t)"
  shows "Update fl unmarshal topics parts g js lag (g', topic, partID) =
    (case reported_lag s topic partID of
       Some n \<Rightarrow> if g' = g then Some (fl (of_int n)) else lag (g', topic, partID)
     | None \<Rightarrow> lag (g', topic, partID))"
proof -
  have "topic \<notin> set topics \<Longrightarrow> reported_lag s topic partID = None"
    using enumerates_set [OF assms(2), of topic] by (simp add: reported_lag_def)
  then show ?thesis
    using assms(1) lag_topics [of s parts, OF assms(3), of fl g topics lag g' topic partID]
    by (auto simp: Update_def split: option.split)
qed

end
