(* ===== verification/Kafka_Adapter.thy ===== *)
theory Kafka_Adapter
  imports Kafka_Config Lag_Metrics Poll_Loop
begin

text \<open>
  The Kafka adapter, \<^verbatim>\<open>internal/kafka/adapter.go\<close>: it implements the client interface of the
  poll loop on top of the confluent-kafka-go consumer.

  That consumer is not part of the repository. What its methods return is the record \<open>client\<close>;
  what its successive \<open>Poll\<close> calls return is a list of optional events (\<open>None\<close> is a nil event),
  each with the time at which it is handled; the requests the adapter makes of it are results.
  \<open>update\<close> is the update of the lag gauge by a statistics event.
\<close>

subsection \<open>Events and answers of the client library\<close>

datatype kafka_event =
    EvMessage kafka_message
  | EvError string go_error
  | EvStats string
  | EvOther

datatype rebalance_event =
    AssignedPartitions "TopicPartition list"
  | RevokedPartitions "TopicPartition list"
  | OtherRebalance

record client =
  cl_Assignment :: "go_error + TopicPartition list"
  cl_CommitOffsets :: "TopicPartition list \<Rightarrow> go_error option"
  cl_Pause :: "TopicPartition list \<Rightarrow> go_error option"
  cl_Resume :: "TopicPartition list \<Rightarrow> go_error option"
  cl_Close :: "go_error option"
  cl_IncrementalAssign :: "TopicPartition list \<Rightarrow> go_error option"
  cl_IncrementalUnassign :: "TopicPartition list \<Rightarrow> go_error option"

record Adapter =
  ad_topics :: "string list"
  ad_groupID :: string
  ad_lagMetrics :: "lag_gauge option"

subsection \<open>Construction\<close>

text \<open>
  \<open>newConsumer\<close> and \<open>subscribe\<close> are the results of the library's calls; the boolean says whether
  a consumer that was created has been closed again.
\<close>

definition NewAdapter ::
  "set_key \<Rightarrow> (ConfigMap \<Rightarrow> go_error option) \<Rightarrow> (string list \<Rightarrow> go_error option)
    \<Rightarrow> AdapterConfig \<Rightarrow> 'h option \<Rightarrow> lag_gauge option \<Rightarrow> bool \<times> (go_error + Adapter)"
where
  "NewAdapter setKey newConsumer subscribe cfg handler lag =
     (if handler = None
      then (False, Inl (ErrorString ''kafka adapter: rebalance handler must not be nil''))
      else case BuildConsumerConfig setKey cfg of
             Inl err \<Rightarrow> (False, Inl (Wrapped ''kafka adapter: '' err))
           | Inr configMap \<Rightarrow>
               (case newConsumer configMap of
                  Some err \<Rightarrow> (False, Inl (Wrapped ''kafka adapter: create consumer: '' err))
                | None \<Rightarrow>
                    (case subscribe (ac_Topics cfg) of
                       Some err \<Rightarrow> (True, Inl (Wrapped ''kafka adapter: subscribe: '' err))
                     | None \<Rightarrow> (False, Inr \<lparr>ad_topics = ac_Topics cfg, ad_groupID = ac_GroupID cfg,
                                  ad_lagMetrics = lag\<rparr>))))"

subsection \<open>Polling\<close>

definition mapMessage :: "int \<Rightarrow> kafka_message \<Rightarrow> message" where
  "mapMessage now km =
     \<lparr>m_Topic = (case tp_Topic (km_TopicPartition km) of None \<Rightarrow> '''' | Some t \<Rightarrow> t),
      m_Partition = tp_Partition (km_TopicPartition km), m_Offset = tp_Offset (km_TopicPartition km),
      m_Key = km_Key km, m_Value = km_Value km, m_Timestamp = km_Timestamp km,
      m_Headers = map (\<lambda>h. \<lparr>h_Key = h_Key h, h_Value = h_Value h\<rparr>) (km_Headers km), m_PolledAt = now\<rparr>"

definition handleEvent ::
  "(string \<Rightarrow> string \<Rightarrow> lag_gauge \<Rightarrow> lag_gauge) \<Rightarrow> int \<Rightarrow> kafka_event \<Rightarrow> message list \<Rightarrow> Adapter
    \<Rightarrow> go_error option \<times> message list \<times> Adapter"
where
  "handleEvent update now ev msgs a =
     (case ev of
        EvMessage km \<Rightarrow> (None, msgs @ [mapMessage now km], a)
      | EvError code err \<Rightarrow> (Some (Wrapped (''kafka error (code='' @ code @ ''): '') err), msgs, a)
      | EvStats js \<Rightarrow>
          (None, msgs, a\<lparr>ad_lagMetrics := map_option (update (ad_groupID a) js) (ad_lagMetrics a)\<rparr>)
      | EvOther \<Rightarrow> (None, msgs, a))"

text \<open>The drain loop. \<open>None\<close>: the events are used up and the loop still polls.\<close>

fun drain_events ::
  "(string \<Rightarrow> string \<Rightarrow> lag_gauge \<Rightarrow> lag_gauge) \<Rightarrow> (int \<times> kafka_event option) list \<Rightarrow> message list
    \<Rightarrow> Adapter \<Rightarrow> ((go_error + message list) \<times> Adapter) option"
where
  "drain_events update [] msgs a = None"
| "drain_events update ((now, None) # evs) msgs a = Some (Inr msgs, a)"
| "drain_events update ((now, Some ev) # evs) msgs a =
     (case handleEvent update now ev msgs a of
        (Some err, msgs', a') \<Rightarrow> if length msgs' > 0 then Some (Inr msgs', a') else Some (Inl err, a')
      | (None, msgs', a') \<Rightarrow> drain_events update evs msgs' a')"

definition Adapter_Poll ::
  "(string \<Rightarrow> string \<Rightarrow> lag_gauge \<Rightarrow> lag_gauge) \<Rightarrow> (int \<times> kafka_event option) list \<Rightarrow> Adapter
    \<Rightarrow> ((go_error + message list) \<times> Adapter) option"
where
  "Adapter_Poll update evs a =
     (case evs of
        [] \<Rightarrow> None
      | (now, None) # _ \<Rightarrow> Some (Inr [], a)
      | (now, Some ev) # rest \<Rightarrow>
          (case handleEvent update now ev [] a of
             (Some err, _, a') \<Rightarrow> Some (Inl err, a')
           | (None, msgs, a') \<Rightarrow> drain_events update rest msgs a'))"

subsection \<open>Topics of partitions\<close>

text \<open>
  The poll loop and the dispatcher know partitions by number. The topic is that of the first
  assigned partition with the number, else the first subscribed topic.
\<close>

definition topicForPartition :: "client \<Rightarrow> Adapter \<Rightarrow> int32 \<Rightarrow> panic + string" where
  "topicForPartition c a p =
     (let assigned = (case cl_Assignment c of Inl _ \<Rightarrow> [] | Inr tps \<Rightarrow> tps)
      in case find (\<lambda>tp. tp_Partition tp = p \<and> tp_Topic tp \<noteq> None) assigned of
           Some tp \<Rightarrow> Inr (the (tp_Topic tp))
         | None \<Rightarrow> (case ad_topics a of [] \<Rightarrow> Inl IndexOutOfRange | t # _ \<Rightarrow> Inr t))"

fun partitionsToTopicPartitions :: "client \<Rightarrow> Adapter \<Rightarrow> int32 list \<Rightarrow> panic + TopicPartition list" where
  "partitionsToTopicPartitions c a [] = Inr []"
| "partitionsToTopicPartitions c a (p # ps) =
     go_bind (topicForPartition c a p) (\<lambda>topic.
       go_bind (partitionsToTopicPartitions c a ps) (\<lambda>tps.
         Inr (\<lparr>tp_Topic = Some topic, tp_Partition = p, tp_Offset = 0\<rparr> # tps)))"

text \<open>The offsets as the client gets them, in the order \<open>ord\<close> in which the map is visited.\<close>

fun commit_partitions ::
  "client \<Rightarrow> Adapter \<Rightarrow> (int32, int64) fmap \<Rightarrow> int32 list \<Rightarrow> panic + TopicPartition list"
where
  "commit_partitions c a offsets [] = Inr []"
| "commit_partitions c a offsets (p # ps) =
     (case fmlookup offsets p of
        None \<Rightarrow> commit_partitions c a offsets ps
      | Some off \<Rightarrow>
          go_bind (topicForPartition c a p) (\<lambda>topic.
            go_bind (commit_partitions c a offsets ps) (\<lambda>tps.
              Inr (\<lparr>tp_Topic = Some topic, tp_Partition = p, tp_Offset = off\<rparr> # tps))))"

subsection \<open>The interface of the poll loop\<close>

definition Adapter_CommitOffsets ::
  "client \<Rightarrow> int32 list \<Rightarrow> (int32, int64) fmap \<Rightarrow> Adapter \<Rightarrow> panic + (TopicPartition list \<times> go_error option)"
where
  "Adapter_CommitOffsets c ord offsets a =
     go_bind (commit_partitions c a offsets ord) (\<lambda>tps.
       Inr (tps, map_option (Wrapped ''commit offsets: '') (cl_CommitOffsets c tps)))"

definition Adapter_Pause ::
  "client \<Rightarrow> int32 list \<Rightarrow> Adapter \<Rightarrow> panic + (TopicPartition list \<times> go_error option)"
where
  "Adapter_Pause c ps a =
     go_bind (partitionsToTopicPartitions c a ps) (\<lambda>tps.
       Inr (tps, map_option (Wrapped ''pause partitions: '') (cl_Pause c tps)))"

definition Adapter_Resume ::
  "client \<Rightarrow> int32 list \<Rightarrow> Adapter \<Rightarrow> panic + (TopicPartition list \<times> go_error option)"
where
  "Adapter_Resume c ps a =
     go_bind (partitionsToTopicPartitions c a ps) (\<lambda>tps.
       Inr (tps, map_option (Wrapped ''resume partitions: '') (cl_Resume c tps)))"

definition mapTopicPartitions :: "TopicPartition list \<Rightarrow> partition list" where
  "mapTopicPartitions tps =
     map (\<lambda>tp. \<lparr>p_Topic = (case tp_Topic tp of None \<Rightarrow> '''' | Some t \<Rightarrow> t), p_Partition = tp_Partition tp\<rparr>) tps"

definition Adapter_Assignment :: "client \<Rightarrow> go_error + partition list" where
  "Adapter_Assignment c =
     (case cl_Assignment c of
        Inl err \<Rightarrow> Inl (Wrapped ''get assignment: '' err)
      | Inr tps \<Rightarrow> Inr (mapTopicPartitions tps))"

definition Adapter_Close :: "client \<Rightarrow> go_error option" where
  "Adapter_Close c = map_option (Wrapped ''close consumer: '') (cl_Close c)"

text \<open>
  The rebalance callback: the call it makes of the rebalance handler, then the incremental
  (un)assignment, whose error it returns.
\<close>

definition rebalanceCb :: "client \<Rightarrow> rebalance_event \<Rightarrow> rebalance option \<times> go_error option" where
  "rebalanceCb c ev =
     (case ev of
        AssignedPartitions tps \<Rightarrow> (Some (Assigned (mapTopicPartitions tps)), cl_IncrementalAssign c tps)
      | RevokedPartitions tps \<Rightarrow> (Some (Revoked (mapTopicPartitions tps)), cl_IncrementalUnassign c tps)
      | OtherRebalance \<Rightarrow> (None, None))"

subsection \<open>What a poll returns\<close>

definition is_error :: "kafka_event \<Rightarrow> bool" where
  "is_error ev = (case ev of EvError _ _ \<Rightarrow> True | _ \<Rightarrow> False)"

text \<open>Events that do not end a poll, and the messages among them.\<close>

definition goes_on :: "int \<times> kafka_event option \<Rightarrow> bool" where
  "goes_on e = (case snd e of None \<Rightarrow> False | Some ev \<Rightarrow> \<not> is_error ev)"

definition event_messages :: "(int \<times> kafka_event option) list \<Rightarrow> message list" where
  "event_messages evs =
     concat (map (\<lambda>(now, ev). case ev of Some (EvMessage km) \<Rightarrow> [mapMessage now km] | _ \<Rightarrow> []) evs)"

text \<open>What a poll that has collected \<open>ms\<close> returns at the event that ends it.\<close>

definition poll_result :: "kafka_event option \<Rightarrow> message list \<Rightarrow> go_error + message list" where
  "poll_result stop ms =
     (case stop of
        Some (EvError code err) \<Rightarrow>
          if ms = [] then Inl (Wrapped (''kafka error (code='' @ code @ ''): '') err) else Inr ms
      | _ \<Rightarrow> Inr ms)"

lemma handleEvent_good:
  "\<not> is_error ev \<Longrightarrow> \<exists>a'. handleEvent update now ev msgs a = (None, msgs @ event_messages [(now, Some ev)], a')"
  by (cases ev) (simp_all add: handleEvent_def is_error_def event_messages_def)

lemma event_messages_Cons: "event_messages (e # evs) = event_messages [e] @ event_messages evs"
  by (simp add: event_messages_def)

lemma drain_events_result:
  assumes "list_all goes_on g" and "\<not> goes_on (t, stop)"
  shows "\<exists>a'. drain_events update (g @ (t, stop) # rest) msgs a
    = Some (poll_result stop (msgs @ event_messages g), a')"
  using assms(1)
proof (induction g arbitrary: msgs a)
  case Nil
  show ?case
    using assms(2)
    by (cases stop) (auto simp: goes_on_def is_error_def handleEvent_def poll_result_def event_messages_def
        split: kafka_event.splits)
next
  case (Cons e g)
  then obtain now ev where e: "e = (now, Some ev)" "\<not> is_error ev"
    by (cases e) (auto simp: goes_on_def split: option.splits)
  with handleEvent_good [OF e(2), of update now msgs a] obtain b where
    "handleEvent update now ev msgs a = (None, msgs @ event_messages [e], b)" by auto
  with Cons.IH [of "msgs @ event_messages [e]" b] Cons.prems e(1) show ?case
    by (simp add: event_messages_Cons [of "(now, Some ev)" g])
qed

text \<open>The first, blocking poll is handled as the others are.\<close>

lemma Adapter_Poll_drain: "Adapter_Poll update evs a = drain_events update evs [] a"
  by (auto simp: Adapter_Poll_def handleEvent_def split: list.split option.split kafka_event.split)

subsection \<open>Which topic a partition number stands for\<close>

lemma topic_first:
  assumes "cl_Assignment c = Inr (pre @ tp # post)" and "tp_Partition tp = p" and "tp_Topic tp = Some t"
    and "\<forall>x \<in> set pre. tp_Partition x \<noteq> p \<or> tp_Topic x = None"
  shows "topicForPartition c a p = Inr t"
proof -
  have "find (\<lambda>tp. tp_Partition tp = p \<and> tp_Topic tp \<noteq> None) (pre @ tp # post) = Some tp"
    using assms(2-4) by (induction pre) auto
  with assms(1,3) show ?thesis by (simp add: topicForPartition_def)
qed

lemma topic_no_panic: "ad_topics a \<noteq> [] \<Longrightarrow> \<exists>t. topicForPartition c a p = Inr t"
  by (auto simp: topicForPartition_def Let_def split: option.split list.split)

definition topic_of :: "client \<Rightarrow> Adapter \<Rightarrow> int32 \<Rightarrow> string" where
  "topic_of c a p = (case topicForPartition c a p of Inl _ \<Rightarrow> [] | Inr t \<Rightarrow> t)"

lemma topicForPartition_Inr: "ad_topics a \<noteq> [] \<Longrightarrow> topicForPartition c a p = Inr (topic_of c a p)"
  using topic_no_panic [of a c p] by (auto simp: topic_of_def)

lemma commit_partitions_eq:
  assumes "ad_topics a \<noteq> []" and "set ord \<subseteq> {p. fmlookup offsets p \<noteq> None}"
  shows "commit_partitions c a offsets ord =
    Inr (map (\<lambda>p. \<lparr>tp_Topic = Some (topic_of c a p), tp_Partition = p,
                   tp_Offset = the (fmlookup offsets p)\<rparr>) ord)"
  using assms(2) by (induction ord) (auto simp: topicForPartition_Inr [OF assms(1)])

lemma partitionsToTopicPartitions_eq:
  "ad_topics a \<noteq> [] \<Longrightarrow> partitionsToTopicPartitions c a ps =
     Inr (map (\<lambda>p. \<lparr>tp_Topic = Some (topic_of c a p), tp_Partition = p, tp_Offset = 0\<rparr>) ps)"
  by (induction ps) (simp_all add: topicForPartition_Inr)

subsection \<open>Properties\<close>

text \<open>
  C25: a poll returns every message it took from the client, in order. It collects messages
  until the first nil event or error; it returns that error only if it has no message yet,
  and otherwise the messages with no error at all: the error is dropped, and the poll loop
  never sees it.
\<close>

theorem adapter_poll_collects:
  assumes "list_all goes_on g" and "\<not> goes_on (t, stop)"
  shows "\<exists>a'. Adapter_Poll update (g @ (t, stop) # rest) a = Some (poll_result stop (event_messages g), a')"
  using drain_events_result [OF assms, of update rest "[]" a] by (simp add: Adapter_Poll_drain)

theorem adapter_poll_collects_witness:
  "\<exists>a'. Adapter_Poll (\<lambda>_ _ g. g)
      [(5, Some (EvMessage \<lparr>km_TopicPartition = \<lparr>tp_Topic = Some ''t'', tp_Partition = 1, tp_Offset = 9\<rparr>,
          km_Key = None, km_Value = None, km_Timestamp = 3, km_Headers = []\<rparr>)),
       (6, Some (EvError ''_TRANSPORT'' (ErrorString ''broker down'')))]
      \<lparr>ad_topics = [''t''], ad_groupID = ''g'', ad_lagMetrics = None\<rparr>
    = Some (Inr [\<lparr>m_Topic = ''t'', m_Partition = 1, m_Offset = 9, m_Key = None, m_Value = None,
              m_Timestamp = 3, m_Headers = [], m_PolledAt = 5\<rparr>], a')"
  using adapter_poll_collects [of "[(5, Some (EvMessage \<lparr>km_TopicPartition = \<lparr>tp_Topic = Some ''t'',
        tp_Partition = 1, tp_Offset = 9\<rparr>, km_Key = None, km_Value = None, km_Timestamp = 3, km_Headers = []\<rparr>))]"
      6 "Some (EvError ''_TRANSPORT'' (ErrorString ''broker down''))" "\<lambda>_ _ g. g" "[]"
      "\<lparr>ad_topics = [''t''], ad_groupID = ''g'', ad_lagMetrics = None\<rparr>"]
  by (simp add: goes_on_def is_error_def event_messages_def poll_result_def mapMessage_def)

text \<open>
  C26: where a commit goes. Every offset of the map is sent, unchanged, for its partition number
  and the topic of the first assigned partition with that number. If no two assigned
  partitions share a number this is the partition the offset belongs to; if partition \<open>p\<close> of
  two topics is assigned, the offset of either is committed for the first topic, and nothing
  for the second.
\<close>

theorem commit_goes_to_first_topic:
  assumes "ad_topics a \<noteq> []" and "enumerates ord offsets"
    and "cl_Assignment c = Inr (pre @ \<lparr>tp_Topic = Some t, tp_Partition = p, tp_Offset = o1\<rparr> # post)"
    and "p \<notin> tp_Partition ` set pre" and "fmlookup offsets p = Some off"
  shows "\<exists>tps. Adapter_CommitOffsets c ord offsets a
      = Inr (tps, map_option (Wrapped ''commit offsets: '') (cl_CommitOffsets c tps))
    \<and> map tp_Partition tps = ord
    \<and> (\<forall>tp \<in> set tps. fmlookup offsets (tp_Partition tp) = Some (tp_Offset tp))
    \<and> filter (\<lambda>tp. tp_Partition tp = p) tps = [\<lparr>tp_Topic = Some t, tp_Partition = p, tp_Offset = off\<rparr>]"
proof -
  let ?tp = "\<lambda>p. \<lparr>tp_Topic = Some (topic_of c a p), tp_Partition = p, tp_Offset = the (fmlookup offsets p)\<rparr>"
  have sub: "set ord \<subseteq> {p. fmlookup offsets p \<noteq> None}" using enumerates_set [OF assms(2)] by auto
  have "topicForPartition c a p = Inr t"
    by (rule topic_first [OF assms(3)]) (use assms(4) in auto)
  then have t: "topic_of c a p = t" by (simp add: topic_of_def)
  have "p \<in> set ord" using enumerates_set [OF assms(2), of p] assms(5) by simp
  then have "filter (\<lambda>q. q = p) ord = [p]"
    using enumerates_distinct [OF assms(2)]
    by (induction ord) (auto simp: filter_empty_conv)
  then have f: "filter (\<lambda>tp. tp_Partition tp = p) (map ?tp ord)
      = [\<lparr>tp_Topic = Some t, tp_Partition = p, tp_Offset = off\<rparr>]"
    by (simp add: filter_map comp_def t assms(5))
  have m: "map tp_Partition (map ?tp ord) = ord" by (induction ord) auto
  show ?thesis
    using sub f m
    by (intro exI [where x = "map ?tp ord"])
      (auto simp: Adapter_CommitOffsets_def commit_partitions_eq [OF assms(1) sub])
qed

theorem commit_goes_to_first_topic_witness:
  "let c = \<lparr>cl_Assignment = Inr [\<lparr>tp_Topic = Some ''orders'', tp_Partition = 0, tp_Offset = 0\<rparr>,
                \<lparr>tp_Topic = Some ''refunds'', tp_Partition = 0, tp_Offset = 0\<rparr>],
             cl_CommitOffsets = (\<lambda>_. None), cl_Pause = (\<lambda>_. None), cl_Resume = (\<lambda>_. None),
             cl_Close = None, cl_IncrementalAssign = (\<lambda>_. None), cl_IncrementalUnassign = (\<lambda>_. None)\<rparr>
   in \<exists>tps. Adapter_CommitOffsets c [0] (fmupd 0 42 fmempty)
           \<lparr>ad_topics = [''orders'', ''refunds''], ad_groupID = ''g'', ad_lagMetrics = None\<rparr> = Inr (tps, None)
        \<and> filter (\<lambda>tp. tp_Partition tp = 0) tps = [\<lparr>tp_Topic = Some ''orders'', tp_Partition = 0, tp_Offset = 42\<rparr>]"
proof -
  let ?c = "\<lparr>cl_Assignment = Inr [\<lparr>tp_Topic = Some ''orders'', tp_Partition = 0, tp_Offset = 0\<rparr>,
                \<lparr>tp_Topic = Some ''refunds'', tp_Partition = 0, tp_Offset = 0\<rparr>],
             cl_CommitOffsets = (\<lambda>_. None), cl_Pause = (\<lambda>_. None), cl_Resume = (\<lambda>_. None),
             cl_Close = None, cl_IncrementalAssign = (\<lambda>_. None), cl_IncrementalUnassign = (\<lambda>_. None)\<rparr>"
  from commit_goes_to_first_topic [of "\<lparr>ad_topics = [''orders'', ''refunds''], ad_groupID = ''g'',
      ad_lagMetrics = None\<rparr>" "[0]" "fmupd 0 42 fmempty" ?c "[]" "''orders''" 0 0
      "[\<lparr>tp_Topic = Some ''refunds'', tp_Partition = 0, tp_Offset = 0\<rparr>]" 42]
  show ?thesis by (auto simp: enumerates_def)
qed

end
