(* ===== verification/Adapter_Loop.thy ===== *)
theory Adapter_Loop
  imports Concurrent_Loop Kafka_Adapter
begin

text \<open>
  The Kafka adapter under the poll loop. The adapter's \<open>Poll\<close> gives the loop its messages, its
  rebalance callback reaches the loop through the \<open>rebalanceForwarder\<close> of \<^verbatim>\<open>consumer/consumer.go\<close>, and
  its \<open>CommitOffsets\<close> sends the loop's commits to the client library. Here they are put
  together, with the loop over the interleaved goroutines of the dispatcher: which of the messages
  that the client delivers are handed over, and what has been settled when the client is asked
  to commit.
\<close>

subsection \<open>Rebalances\<close>

text \<open>The forwarder calls its target, which is set once the poll loop exists.\<close>

definition forward :: "(rebalance \<Rightarrow> 's \<Rightarrow> panic + 's) option \<Rightarrow> rebalance \<Rightarrow> 's \<Rightarrow> panic + 's" where
  "forward target r s = (case target of None \<Rightarrow> Inl NilDereference | Some handler \<Rightarrow> handler r s)"

text \<open>The poll loop as a rebalance handler.\<close>

definition pl_handler :: "'w disp_ops \<Rightarrow> answers \<Rightarrow> rebalance \<Rightarrow> 'w pollloop \<Rightarrow> panic + 'w pollloop" where
  "pl_handler ops ans r pl =
     (case r of
        Assigned ps \<Rightarrow> pl_OnPartitionsAssigned ops ps pl
      | Revoked ps \<Rightarrow> Inr (pl_OnPartitionsRevoked ops ans ps pl))"

text \<open>The callbacks of one \<open>Poll\<close>, with the errors they return to the client library.\<close>

fun rebalance_callbacks ::
  "client \<Rightarrow> (rebalance \<Rightarrow> 's \<Rightarrow> panic + 's) \<Rightarrow> rebalance_event list \<Rightarrow> 's \<Rightarrow> panic + (go_error option list \<times> 's)"
where
  "rebalance_callbacks c handler [] s = Inr ([], s)"
| "rebalance_callbacks c handler (ev # evs) s =
     (let (r, err) = rebalanceCb c ev
      in go_bind (case r of None \<Rightarrow> Inr s | Some x \<Rightarrow> handler x s) (\<lambda>s'.
           go_bind (rebalance_callbacks c handler evs s') (\<lambda>(errs, s''). Inr (err # errs, s''))))"

definition rebalances_from :: "client \<Rightarrow> rebalance_event list \<Rightarrow> rebalance list" where
  "rebalances_from c evs = List.map_filter (\<lambda>ev. fst (rebalanceCb c ev)) evs"

lemma rebalances_from_simps [simp]:
  "rebalances_from c [] = []"
  "rebalances_from c (ev # evs) = (case fst (rebalanceCb c ev) of None \<Rightarrow> [] | Some r \<Rightarrow> [r]) @ rebalances_from c evs"
  by (simp_all add: rebalances_from_def List.map_filter_simps split: option.split)

text \<open>Through the forwarder the loop gets exactly the rebalances of the client, in order.\<close>

lemma callbacks_reach_loop:
  "rebalance_callbacks c (forward (Some (pl_handler ops ans))) evs pl =
     go_bind (handle_rebalances ops ans (rebalances_from c evs) pl)
       (\<lambda>pl'. Inr (map (\<lambda>ev. snd (rebalanceCb c ev)) evs, pl'))"
proof (induction evs arbitrary: pl)
  case (Cons ev evs)
  obtain r err where cb: "rebalanceCb c ev = (r, err)" by fastforce
  show ?case
  proof (cases r)
    case None
    with Cons cb show ?thesis by (simp add: go_bind_def split: sum.split)
  next
    case (Some x)
    with Cons cb show ?thesis
      by (cases x) (simp_all add: forward_def pl_handler_def go_bind_def split: sum.split)
  qed
qed simp

subsection \<open>Topics\<close>

lemma enumerates_ex: "\<exists>ord. enumerates ord m"
proof -
  obtain xs where "set xs = fset (fmdom m)" "distinct xs" using finite_distinct_list [of "fset (fmdom m)"] by auto
  then have "enumerates xs m" by (simp add: enumerates_def fset_eq_iff fset_of_list_elem)
  then show ?thesis ..
qed

text \<open>The client reads one topic: what it has assigned is of this topic.\<close>

definition one_topic :: "string \<Rightarrow> client \<Rightarrow> Adapter \<Rightarrow> bool" where
  "one_topic t c a \<longleftrightarrow> ad_topics a = [t]
     \<and> (\<forall>tps. cl_Assignment c = Inr tps \<longrightarrow> (\<forall>tp\<in>set tps. tp_Topic tp = Some t))"

lemma one_topic_of:
  assumes "one_topic t c a"
  shows "topic_of c a p = t"
  using assms
  by (auto simp: one_topic_def topic_of_def topicForPartition_def Let_def find_Some_iff
      split: sum.splits option.splits)

lemma commit_request:
  assumes "one_topic t c a" and "enumerates ord offs"
  shows "Adapter_CommitOffsets c ord offs a =
    (let tps = map (\<lambda>p. \<lparr>tp_Topic = Some t, tp_Partition = p, tp_Offset = the (fmlookup offs p)\<rparr>) ord
     in Inr (tps, map_option (Wrapped ''commit offsets: '') (cl_CommitOffsets c tps)))"
proof -
  have "set ord \<subseteq> {p. fmlookup offs p \<noteq> None}" using enumerates_set [OF assms(2)] by auto
  moreover have "ad_topics a \<noteq> []" using assms(1) by (simp add: one_topic_def)
  ultimately show ?thesis
    by (simp add: Adapter_CommitOffsets_def commit_partitions_eq one_topic_of [OF assms(1)] Let_def)
qed

subsection \<open>Properties\<close>

text \<open>
  C14: which messages that Kafka delivers are handed over. The client's poll first makes the
  rebalance callbacks \<open>rbs\<close>, which reach the loop through the forwarder and lead it to \<open>pl1\<close>; then
  it gives events, of which \<open>g\<close> are the messages and notices before the first nil event or error.
  The adapter returns the messages of \<open>g\<close> (or the error, when there are none). If the loop was
  not in degraded mode when it polled, each partition that is not paused after the rebalances
  is handed its own messages, all of them, once, in the order of delivery and behind what it had
  been handed before, however workers and timers overtake the poll. A partition that is paused,
  and every partition of a loop in degraded mode, is handed nothing: these messages are dropped.
  The callbacks take back messages only of partitions that they revoke.
\<close>

theorem kafka_messages_handed_over:
  assumes "conc_open (pl_world pl)" and "list_all goes_on g" and "\<not> goes_on (t, stop)"
    and "enumerates ord (groupByPartition (event_messages g))"
  shows "\<exists>answer a' errs pl1 pl'. Adapter_Poll update (g @ (t, stop) # rest) a = Some (answer, a')
    \<and> rebalance_callbacks c (forward (Some (pl_handler (conc_ops visit late) (ans\<lparr>an_poll := answer\<rparr>)))) rbs
        (kcall (KPoll (Milliseconds (pc_PollInterval (pl_cfg pl)))) pl) = Inr (errs, pl1)
    \<and> poll (conc_ops visit late) (ans\<lparr>an_poll := answer\<rparr>) (rebalances_from c rbs) ord pl = Inr pl'
    \<and> conc_open (pl_world pl')
    \<and> (\<forall>p. p \<notin> revoked_in (rebalances_from c rbs)
          \<longrightarrow> s_sent (cw_sys (pl_world pl1)) p = s_sent (cw_sys (pl_world pl)) p)
    \<and> (\<forall>p. s_sent (cw_sys (pl_world pl')) p = s_sent (cw_sys (pl_world pl1)) p
          @ (if IsDegraded (pl_degraded pl) \<or> is_paused p pl1 then []
             else filter (\<lambda>x. m_Partition x = p) (event_messages g)))"
proof -
  obtain a' where a': "Adapter_Poll update (g @ (t, stop) # rest) a = Some (poll_result stop (event_messages g), a')"
    using drain_events_result [OF assms(2,3), of update rest "[]" a] by (auto simp: Adapter_Poll_drain)
  let ?answer = "poll_result stop (event_messages g)"
  let ?ans = "ans\<lparr>an_poll := ?answer\<rparr>"
  have answer: "?answer = Inr (event_messages g) \<or> event_messages g = [] \<and> (\<exists>e. ?answer = Inl e)"
    by (auto simp: poll_result_def split: option.split kafka_event.split)
  then have "enumerates ord (groupByPartition msgs)" if "an_poll ?ans = Inr msgs" for msgs
    using that assms(4) by auto
  from cp.poll_rebalanced [where ans = ?ans and rs = "rebalances_from c rbs" and orda = visit and late = late, OF assms(1) this]
  obtain pl1 pl' where
    r: "handle_rebalances (conc_ops visit late) ?ans (rebalances_from c rbs)
        (kcall (KPoll (Milliseconds (pc_PollInterval (pl_cfg pl)))) pl) = Inr pl1"
      "poll (conc_ops visit late) ?ans (rebalances_from c rbs) ord pl = Inr pl'" "conc_open (pl_world pl')"
      "\<forall>q. q \<notin> revoked_in (rebalances_from c rbs) \<longrightarrow> sent_of q (pl_world pl1) = sent_of q (pl_world pl)"
    and sent: "\<forall>p. sent_of p (pl_world pl') = sent_of p (pl_world pl1)
          @ (case ?answer of Inl _ \<Rightarrow> [] | Inr msgs \<Rightarrow> if IsDegraded (pl_degraded pl) \<or> is_paused p pl1 then []
               else filter (\<lambda>x. m_Partition x = p) msgs)" by auto
  moreover have "sent_of p (pl_world pl') = sent_of p (pl_world pl1)
      @ (if IsDegraded (pl_degraded pl) \<or> is_paused p pl1 then [] else filter (\<lambda>x. m_Partition x = p) (event_messages g))"
    for p using sent answer by auto
  ultimately show ?thesis
    using a' by (intro exI [of _ ?answer] exI [of _ a'] exI [of _ pl1] exI [of _ pl'] exI)
      (simp add: sent_of_def callbacks_reach_loop)
qed

definition demo_record :: kafka_message where
  "demo_record = \<lparr>km_TopicPartition = \<lparr>tp_Topic = Some ''orders'', tp_Partition = 0, tp_Offset = 7\<rparr>,
     km_Key = None, km_Value = Some [1], km_Timestamp = 3, km_Headers = []\<rparr>"

definition demo_adapter :: Adapter where
  "demo_adapter = \<lparr>ad_topics = [''orders''], ad_groupID = ''billing'', ad_lagMetrics = None\<rparr>"

definition demo_client :: client where
  "demo_client = \<lparr>cl_Assignment = Inr [\<lparr>tp_Topic = Some ''orders'', tp_Partition = 0, tp_Offset = 0\<rparr>],
     cl_CommitOffsets = (\<lambda>_. None), cl_Pause = (\<lambda>_. None), cl_Resume = (\<lambda>_. None), cl_Close = None,
     cl_IncrementalAssign = (\<lambda>_. None), cl_IncrementalUnassign = (\<lambda>_. None)\<rparr>"

lemma assigned_callback:
  "rebalance_callbacks c (forward (Some (pl_handler ops ans))) [AssignedPartitions tps] pl = Inr (errs, pl1)
    \<Longrightarrow> pl_pausedPartitions pl1 = pl_pausedPartitions pl"
  by (auto simp: forward_def pl_handler_def rebalanceCb_def pl_OnPartitionsAssigned_def go_bind_Inr_iff)

theorem kafka_messages_handed_over_witness:
  "\<exists>answer a' pl'. Adapter_Poll (\<lambda>_ _ g. g) [(5, Some (EvMessage demo_record)), (6, None)] demo_adapter = Some (answer, a')
     \<and> poll (conc_ops [] False) (sample_answers\<lparr>an_poll := answer\<rparr>)
         (rebalances_from demo_client [AssignedPartitions [km_TopicPartition demo_record]]) [0] (started demo_loop) = Inr pl'
     \<and> s_sent (cw_sys (pl_world pl')) 0 = [mapMessage 5 demo_record]"
proof -
  let ?w = "the (conc_start demo_cfg [[], [Fire 0]])" and ?rbs = "[AssignedPartitions [km_TopicPartition demo_record]]"
  have w: "pl_world (started demo_loop) = ?w" "pl_degraded (started demo_loop) = 0"
    "pl_pausedPartitions (started demo_loop) = fmempty"
    by (simp_all add: started_def demo_loop_def NewPollLoop_def)
  have op: "conc_open (pl_world (started demo_loop))"
    using conc_start_ok(2) [OF demo_start(1)] cfg_ok(1,2) w(1) by simp
  have g: "list_all goes_on [(5, Some (EvMessage demo_record))]" "\<not> goes_on (6, None)"
    by (simp_all add: goes_on_def is_error_def)
  have ev: "event_messages [(5, Some (EvMessage demo_record))] = [mapMessage 5 demo_record]"
    "m_Partition (mapMessage 5 demo_record) = 0" by (simp_all add: event_messages_def mapMessage_def demo_record_def)
  then have en: "enumerates [0] (groupByPartition (event_messages [(5, Some (EvMessage demo_record))]))"
    by (simp add: groupByPartition_def enumerates_def)
  have none: "s_sent (cw_sys ?w) 0 = []" "revoked_in (rebalances_from demo_client ?rbs) = {}"
    by (code_simp, simp add: rebalanceCb_def)
  from kafka_messages_handed_over [OF op g en, of "\<lambda>_ _ g. g" "[]" demo_adapter demo_client "[]" False sample_answers ?rbs]
  obtain answer a' errs pl1 pl' where
    "Adapter_Poll (\<lambda>_ _ g. g) [(5, Some (EvMessage demo_record)), (6, None)] demo_adapter = Some (answer, a')"
    "poll (conc_ops [] False) (sample_answers\<lparr>an_poll := answer\<rparr>) (rebalances_from demo_client ?rbs) [0]
        (started demo_loop) = Inr pl'"
    and cb: "rebalance_callbacks demo_client (forward (Some (pl_handler (conc_ops [] False) (sample_answers\<lparr>an_poll := answer\<rparr>))))
        ?rbs (kcall (KPoll (Milliseconds (pc_PollInterval (pl_cfg (started demo_loop))))) (started demo_loop)) = Inr (errs, pl1)"
    and sent: "\<forall>p. p \<notin> revoked_in (rebalances_from demo_client ?rbs)
          \<longrightarrow> s_sent (cw_sys (pl_world pl1)) p = s_sent (cw_sys (pl_world (started demo_loop))) p"
      "\<forall>p. s_sent (cw_sys (pl_world pl')) p = s_sent (cw_sys (pl_world pl1)) p
          @ (if IsDegraded (pl_degraded (started demo_loop)) \<or> is_paused p pl1 then []
             else filter (\<lambda>x. m_Partition x = p) (event_messages [(5, Some (EvMessage demo_record))]))" by auto
  moreover have "\<not> is_paused 0 pl1" using assigned_callback [OF cb] w(3) by (simp add: is_paused_def kcall_def)
  then have "s_sent (cw_sys (pl_world pl')) 0 = [mapMessage 5 demo_record]"
    using sent none w ev by (simp add: IsDegraded_def)
  ultimately show ?thesis by blast
qed

text \<open>
  C13: at least once, at the client library, for a consumer of one topic. In every run of the poll
  loop over the goroutines, a commit the loop makes reaches the client as one request with one
  entry per offset, for the topic that is read. Take an entry for a partition none of whose
  batches met a full channel: its offset is one more than that of a settled message, and all
  messages that the loop has handed over for the partition up to that one, and no revocation
  discarded, are settled, also when Kafka delivers messages again; if the offsets handed over
  increase, every one of them below the offset of the entry is settled. Messages that the loop
  drops, in degraded mode or for a paused partition, are not covered.
\<close>

theorem kafka_commits_settled:
  assumes "conc_run dcfg sched cfg visit late evs pl" and "KCommit offs \<in> set (pl_calls pl)"
    and "one_topic t c a" and "enumerates ord offs"
  shows "\<exists>tps err. Adapter_CommitOffsets c ord offs a = Inr (tps, err) \<and> map tp_Partition tps = ord
    \<and> (\<forall>tp\<in>set tps. tp_Topic tp = Some t \<and> fmlookup offs (tp_Partition tp) = Some (tp_Offset tp)
        \<and> (tp_Partition tp \<notin> s_rejected (cw_sys (pl_world pl)) \<longrightarrow>
            (\<exists>dn more rest. dn \<noteq> [] \<and> tp_Offset tp = m_Offset (last dn) + 1
               \<and> s_done (cw_sys (pl_world pl)) (tp_Partition tp) = dn @ more
               \<and> s_sent (cw_sys (pl_world pl)) (tp_Partition tp) = dn @ more @ rest)
            \<and> (increasing (s_sent (cw_sys (pl_world pl)) (tp_Partition tp)) \<longrightarrow>
                (\<forall>x\<in>set (s_sent (cw_sys (pl_world pl)) (tp_Partition tp)).
                   sint (m_Offset x) < sint (tp_Offset tp)
                   \<longrightarrow> x \<in> set (s_done (cw_sys (pl_world pl)) (tp_Partition tp))))))"
proof -
  let ?tp = "\<lambda>p. \<lparr>tp_Topic = Some t, tp_Partition = p, tp_Offset = the (fmlookup offs p)\<rparr>"
  have look: "fmlookup offs p = Some (the (fmlookup offs p))" if "p \<in> set ord" for p
    using enumerates_set [OF assms(4), of p] that by auto
  have "map tp_Partition (map ?tp ord) = ord" by (induction ord) auto
  with commit_settled [OF assms(1,2) look] look show ?thesis
    unfolding commit_request [OF assms(3,4)] Let_def
    by (intro exI [of _ "map ?tp ord"]) (simp add: ball_simps)
qed

theorem kafka_commits_settled_witness:
  "\<exists>pl offs ord tps err. conc_run demo_cfg [[], [Fire 0]] DefaultPollLoopConfig [] False demo_events pl
     \<and> KCommit offs \<in> set (pl_calls pl) \<and> Adapter_CommitOffsets demo_client ord offs demo_adapter = Inr (tps, err)
     \<and> \<lparr>tp_Topic = Some ''orders'', tp_Partition = 0, tp_Offset = 9\<rparr> \<in> set tps
     \<and> set [demo_msg 7, demo_msg 8] \<subseteq> set (s_done (cw_sys (pl_world pl)) 0)"
proof -
  obtain pl offs where run: "conc_run demo_cfg [[], [Fire 0]] DefaultPollLoopConfig [] False demo_events pl"
    and k: "KCommit offs \<in> set (pl_calls pl)" "fmlookup offs 0 = Some 9"
    and s: "0 \<notin> s_rejected (cw_sys (pl_world pl))" "s_sent (cw_sys (pl_world pl)) 0 = [demo_msg 7, demo_msg 8]"
    using demo_commits by blast
  obtain ord where ord: "enumerates ord offs" using enumerates_ex by blast
  have "one_topic ''orders'' demo_client demo_adapter"
    by (simp add: one_topic_def demo_client_def demo_adapter_def)
  from kafka_commits_settled [OF run k(1) this ord] obtain tps err where
    c: "Adapter_CommitOffsets demo_client ord offs demo_adapter = Inr (tps, err)" "map tp_Partition tps = ord"
    and tps: "\<forall>tp\<in>set tps. tp_Topic tp = Some ''orders'' \<and> fmlookup offs (tp_Partition tp) = Some (tp_Offset tp)
        \<and> (tp_Partition tp \<notin> s_rejected (cw_sys (pl_world pl))
            \<and> increasing (s_sent (cw_sys (pl_world pl)) (tp_Partition tp)) \<longrightarrow>
                (\<forall>x\<in>set (s_sent (cw_sys (pl_world pl)) (tp_Partition tp)).
                   sint (m_Offset x) < sint (tp_Offset tp)
                   \<longrightarrow> x \<in> set (s_done (cw_sys (pl_world pl)) (tp_Partition tp))))" by auto
  have "0 \<in> set ord" using enumerates_set [OF ord, of 0] k(2) by auto
  then obtain tp where tp: "tp \<in> set tps" "tp_Partition tp = 0" using c(2) by auto
  with tps k(2) have "tp = \<lparr>tp_Topic = Some ''orders'', tp_Partition = 0, tp_Offset = 9\<rparr>" by auto
  moreover have "increasing [demo_msg 7, demo_msg 8]" "\<forall>x\<in>set [demo_msg 7, demo_msg 8]. sint (m_Offset x) < sint (9 :: int64)"
    by (simp_all add: increasing_def demo_msg_def)
  ultimately have "set [demo_msg 7, demo_msg 8] \<subseteq> set (s_done (cw_sys (pl_world pl)) 0)"
    using tps tp(1) s by fastforce
  with run k c(1) tp(1) \<open>tp = _\<close> show ?thesis by blast
qed

end
