(* ===== verification/Probe_Server.thy ===== *)
theory Probe_Server
  imports Poll_Loop_Runs
begin

text \<open>
  The probe server, \<^verbatim>\<open>internal/server/server.go\<close>, over the poll loop. \<open>Degraded_Health\<close> has the two
  probe handlers and \<open>ListenAndServe\<close>; here is the routing of \<open>New\<close> and \<open>Shutdown\<close>, and what the
  probes answer while the loop runs and after it has returned.

  The server is a \<^verbatim>\<open>net/http\<close> server whose handler is a \<open>ServeMux\<close>. A pattern with a method and a
  path without wildcards matches requests for that path (already cleaned by the mux) with that
  method, and a pattern for \<open>GET\<close> also matches \<open>HEAD\<close>, whose answer has no body. A path without a
  pattern gets 404; a path that only other methods match gets 405. The metrics handler is
  library code: its answer is an argument.
\<close>

subsection \<open>Routing\<close>

record http_request =
  q_Method :: string
  q_Path :: string

type_synonym route = "string \<times> string \<times> http_response"

definition method_matches :: "string \<Rightarrow> string \<Rightarrow> bool" where
  "method_matches pattern m \<longleftrightarrow> m = pattern \<or> pattern = ''GET'' \<and> m = ''HEAD''"

definition ServeMux :: "route list \<Rightarrow> http_request \<Rightarrow> http_response" where
  "ServeMux routes req =
     (let found = filter (\<lambda>(m, path, _). path = q_Path req) routes
      in if found = [] then \<lparr>r_status = 404, r_body = ''404 page not found'' @ [CHR 0x0A]\<rparr>
         else case filter (\<lambda>(m, _, _). method_matches m (q_Method req)) found of
                [] \<Rightarrow> \<lparr>r_status = 405, r_body = ''Method Not Allowed'' @ [CHR 0x0A]\<rparr>
              | (_, _, answer) # _ \<Rightarrow> if q_Method req = ''HEAD'' then answer\<lparr>r_body := ''''\<rparr> else answer)"

record Server =
  sv_Addr :: string
  sv_Handler :: "http_request \<Rightarrow> http_response"
  sv_ReadHeaderTimeout :: duration

text \<open>The handlers read the health when a request arrives.\<close>

definition server_New :: "string \<Rightarrow> health \<Rightarrow> http_response \<Rightarrow> Server" where
  "server_New addr h metrics =
     \<lparr>sv_Addr = addr,
      sv_Handler = ServeMux [(''GET'', ''/healthz'', healthzHandler h), (''GET'', ''/readyz'', readyzHandler h),
        (''GET'', ''/metrics'', metrics)],
      sv_ReadHeaderTimeout = 5 * Second\<rparr>"

text \<open>What a client of the probe server of a loop sees.\<close>

definition probe :: "'w pollloop \<Rightarrow> http_response \<Rightarrow> string \<Rightarrow> string \<Rightarrow> http_response" where
  "probe pl metrics m path =
     sv_Handler (server_New '':8080'' (pl_health pl) metrics) \<lparr>q_Method = m, q_Path = path\<rparr>"

lemma probe_get:
  "probe pl metrics ''GET'' ''/healthz'' = healthzHandler (pl_health pl)"
  "probe pl metrics ''GET'' ''/readyz'' = readyzHandler (pl_health pl)"
  "probe pl metrics ''GET'' ''/metrics'' = metrics"
  by (simp_all add: probe_def server_New_def ServeMux_def method_matches_def)

lemma probe_status:
  "path \<notin> {''/healthz'', ''/readyz'', ''/metrics''} \<Longrightarrow> r_status (probe pl metrics m path) = 404"
  "path \<in> {''/healthz'', ''/readyz'', ''/metrics''} \<Longrightarrow> m \<notin> {''GET'', ''HEAD''}
    \<Longrightarrow> r_status (probe pl metrics m path) = 405"
  "r_status (probe pl metrics ''HEAD'' path) = r_status (probe pl metrics ''GET'' path)"
  by (auto simp: probe_def server_New_def ServeMux_def method_matches_def)

lemma handler_status:
  "r_status (healthzHandler h) = (if h_live h then 200 else 503)"
  "r_status (readyzHandler h) = (if h_ready h \<and> h_partitionsAssigned h then 200 else 503)"
  by (simp_all add: healthzHandler_def readyzHandler_def IsLive_def IsReady_def StatusOK_def
      StatusServiceUnavailable_def)

subsection \<open>The assignment flag in a run\<close>

text \<open>The flag and the count of assigned partitions, and that only rebalances change them.\<close>

definition assignment_of :: "'w pollloop \<Rightarrow> bool \<times> int" where
  "assignment_of pl = (h_partitionsAssigned (pl_health pl), pl_assignedCount pl)"

lemma assignment_frame [frame_simps]:
  "assignment_of (kcall c pl) = assignment_of pl" "assignment_of (pausePartition ans p pl) = assignment_of pl"
  "assignment_of (pauseAllPartitions ans pl) = assignment_of pl"
  "assignment_of (resumeAllPartitions ans pl) = assignment_of pl"
  "assignment_of (resumeAllPausedPartitions ans ord pl) = assignment_of pl"
  "assignment_of (poll_error pl) = assignment_of pl"
  "assignment_of (pl\<lparr>pl_world := w\<rparr>) = assignment_of pl" "assignment_of (pl\<lparr>pl_m := m\<rparr>) = assignment_of pl"
  "assignment_of (enterDegradedMode ans r pl) = assignment_of pl"
  "assignment_of (exitDegradedMode ans r pl) = assignment_of pl"
  "assignment_of (commitOffsets ops ans pl) = assignment_of pl"
  "assignment_of (onDispatcherReady ans ord pl) = assignment_of pl"
  "assignment_of (onCircuitStateChanged ans st pl) = assignment_of pl"
  by (simp_all add: assignment_of_def pollloop_defs poll_error_def SetReady_def
      split: sum.split option.split circuit_state.split)

lemma assignment_dispatch:
  "dispatch_groups ops ans g ps pl = Inr pl' \<Longrightarrow> assignment_of pl' = assignment_of pl"
proof (induction ps arbitrary: pl)
  case (Cons p ps)
  have "send_group ops ans p xs pl = Inr pl1 \<Longrightarrow> assignment_of pl1 = assignment_of pl" for xs pl1
    by (auto simp: send_group_def go_bind_Inr_iff frame_simps split: option.splits if_splits)
  with Cons show ?case
    unfolding dispatch_groups_Cons by (auto simp: go_bind_Inr_iff split: option.splits if_splits)
qed simp

text \<open>What the rebalances of a run make of the count.\<close>

fun assigned_after :: "rebalance list \<Rightarrow> int \<Rightarrow> int" where
  "assigned_after [] n = n"
| "assigned_after (Assigned ps # rs) n = assigned_after rs (n + int (length ps))"
| "assigned_after (Revoked ps # rs) n = assigned_after rs (max (n - int (length ps)) 0)"

lemma assigned_after_append: "assigned_after (rs @ rs') n = assigned_after rs' (assigned_after rs n)"
  by (induction rs n rule: assigned_after.induct) simp_all

definition count_ok :: "int \<Rightarrow> 'w pollloop \<Rightarrow> bool" where
  "count_ok n pl \<longleftrightarrow> assignment_of pl = (0 < n, n) \<and> 0 \<le> n"

lemma count_ok_cong: "assignment_of pl' = assignment_of pl \<Longrightarrow> count_ok n pl' = count_ok n pl"
  by (simp add: count_ok_def)

lemma count_rebalances:
  "handle_rebalances ops ans rs pl = Inr pl' \<Longrightarrow> Assigned [] \<notin> set rs \<Longrightarrow> count_ok n pl
    \<Longrightarrow> count_ok (assigned_after rs n) pl'"
proof (induction rs arbitrary: pl n)
  case (Cons r rs)
  show ?case
  proof (cases r)
    case (Assigned ps)
    then obtain pl1 where pl1: "pl_OnPartitionsAssigned ops ps pl = Inr pl1" "handle_rebalances ops ans rs pl1 = Inr pl'"
      using Cons.prems(1) by (auto simp: go_bind_Inr_iff)
    moreover have "count_ok (n + int (length ps)) pl1"
      using pl1(1) Cons.prems(2,3) Assigned
      by (auto simp: pl_OnPartitionsAssigned_def go_bind_Inr_iff count_ok_def assignment_of_def
          SetPartitionsAssigned_def neq_Nil_conv)
    ultimately show ?thesis using Cons.IH [of pl1] Cons.prems(2) Assigned by simp
  next
    case (Revoked ps)
    have "count_ok (max (n - int (length ps)) 0) (pl_OnPartitionsRevoked ops ans ps pl)"
      using Cons.prems(3)
      by (auto simp: revoked_eq Let_def count_ok_def assignment_of_def SetPartitionsAssigned_def max_def)
    with Cons.IH [of "pl_OnPartitionsRevoked ops ans ps pl"] Cons.prems(1,2) Revoked show ?thesis by simp
  qed
qed simp

fun rebalances_of :: "event \<Rightarrow> rebalance list" where
  "rebalances_of (PollTick rs ord) = rs"
| "rebalances_of _ = []"

lemma count_poll:
  assumes step: "poll ops ans rs ord pl = Inr pl'" and "Assigned [] \<notin> set rs" and "count_ok n pl"
  shows "count_ok (assigned_after rs n) pl'"
proof -
  from step obtain pl1 where r: "handle_rebalances ops ans rs
      (kcall (KPoll (Milliseconds (pc_PollInterval (pl_cfg pl)))) pl) = Inr pl1"
    by (auto simp: poll_def Let_def go_bind_Inr_iff split: if_splits)
  have c: "count_ok (assigned_after rs n) pl1"
    by (rule count_rebalances [OF r assms(2)]) (use assms(3) in \<open>simp add: count_ok_def frame_simps\<close>)
  have "assignment_of pl' = assignment_of pl1"
    using step r assignment_dispatch
    by (fastforce simp: poll_def Let_def frame_simps split: if_splits sum.splits)
  with c show ?thesis using count_ok_cong by blast
qed

lemma count_event:
  assumes "run_event ops ev ans pl = Inr pl'" and "Assigned [] \<notin> set (rebalances_of ev)" and "count_ok n pl"
  shows "count_ok (assigned_after (rebalances_of ev) n) pl'"
  using assms
  by (cases ev) (auto simp: run_event_def count_ok_def frame_simps dest: count_poll)

definition assigned_count :: "(event \<times> answers \<times> ('w \<Rightarrow> 'w)) list \<Rightarrow> int" where
  "assigned_count evs = assigned_after (concat (map (rebalances_of \<circ> fst) evs)) 0"

lemma count_run:
  "run_events ops evs pl = Inr pl' \<Longrightarrow> Assigned [] \<notin> set (concat (map (rebalances_of \<circ> fst) evs))
    \<Longrightarrow> count_ok n pl \<Longrightarrow> count_ok (assigned_after (concat (map (rebalances_of \<circ> fst) evs)) n) pl'"
proof (induction evs arbitrary: pl n)
  case (Cons e evs)
  obtain ev ans f where e: "e = (ev, ans, f)" by (cases e)
  from Cons.prems(1) obtain pl1 where r: "run_event ops ev ans (pl\<lparr>pl_world := f (pl_world pl)\<rparr>) = Inr pl1"
    "run_events ops evs pl1 = Inr pl'" by (auto simp: e go_bind_Inr_iff)
  have "count_ok (assigned_after (rebalances_of ev) n) pl1"
    by (rule count_event [OF r(1)]) (use Cons.prems(2,3) e in \<open>simp_all add: count_ok_def frame_simps\<close>)
  with Cons.IH [OF r(2)] Cons.prems(2) show ?case by (simp add: e assigned_after_append)
qed simp

subsection \<open>Properties\<close>

text \<open>
  C9: what the probes answer, over HTTP, while the poll loop runs. Starting from a new loop and
  after any events in which no assignment is empty: the liveness probe answers 200; the
  readiness probe answers 200 exactly when the breaker's last announcement is not open, fewer
  commits in a row have failed than the threshold allows, and at least one partition is
  assigned, counting every rebalance. \<open>HEAD\<close> answers like \<open>GET\<close>, other methods get 405 and other
  paths 404. After \<open>Run\<close> has returned both probes answer 503.
\<close>

theorem probes_follow_loop:
  assumes new: "NewPollLoop cfg k w c (Some new_health) (Some m) = Inr pl" "pm_DegradedMode m = 0"
      "0 < pc_CommitFailureThreshold cfg"
    and run: "run_events ops evs (started pl) = Inr pl'"
    and ne: "Assigned [] \<notin> set (concat (map (rebalances_of \<circ> fst) evs))"
  shows "r_status (probe pl' metrics ''GET'' ''/healthz'') = 200
    \<and> r_status (probe pl' metrics ''GET'' ''/readyz'') =
        (if \<not> circuit_open evs \<and> pl_commitFailures pl' < pc_CommitFailureThreshold (pl_cfg pl')
            \<and> 0 < assigned_count evs then 200 else 503)
    \<and> (\<forall>path. r_status (probe pl' metrics ''HEAD'' path) = r_status (probe pl' metrics ''GET'' path))
    \<and> (\<forall>path meth. r_status (probe pl' metrics meth path) =
          (if path \<notin> {''/healthz'', ''/readyz'', ''/metrics''} then 404
           else if meth \<notin> {''GET'', ''HEAD''} then 405 else r_status (probe pl' metrics ''GET'' path)))
    \<and> (\<forall>end err pl''. pl_Run ops (evs @ end) pl = Some (Inr (err, pl'')) \<longrightarrow>
          r_status (probe pl'' metrics ''GET'' ''/healthz'') = 503
          \<and> r_status (probe pl'' metrics ''GET'' ''/readyz'') = 503)"
proof -
  have inv: "ready_inv pl' \<and> causes_ok (circuit_open evs) pl'"
    using run_events_inv [OF run] NewPollLoop_started [OF new] by blast
  have "count_ok 0 (started pl)"
    using new(1) by (auto simp: NewPollLoop_def count_ok_def assignment_of_def started_def SetReady_def
        SetLive_def new_health_def split: if_splits option.splits)
  from count_run [OF run ne this] have c: "h_partitionsAssigned (pl_health pl') = (0 < assigned_count evs)"
    by (simp add: count_ok_def assignment_of_def assigned_count_def)
  have "h_live (pl_health pl')"
    "h_ready (pl_health pl') = (\<not> circuit_open evs \<and> pl_commitFailures pl' < pc_CommitFailureThreshold (pl_cfg pl'))"
    using inv mask_has(9) [of "pl_degraded pl'"] by (auto simp: ready_inv_def causes_ok_def)
  moreover have "\<not> h_live (pl_health pl'') \<and> \<not> h_ready (pl_health pl'')"
    if "pl_Run ops (evs @ end) pl = Some (Inr (err, pl''))" for "end" err pl''
    using pl_Run_shutdown [OF that] by blast
  ultimately show ?thesis
    using c by (auto simp: probe_status probe_get handler_status)
qed

theorem probes_follow_loop_witness:
  "\<exists>pl pl'. NewPollLoop DefaultPollLoopConfig (Some ()) (Some sample_disp) (Some ()) (Some new_health)
        (Some NewPollLoopMetrics) = Inr pl
     \<and> run_events sample_ops [(PollTick [Assigned [\<lparr>p_Topic = ''t'', p_Partition = 0\<rparr>]] [], sample_answers, id)]
         (started pl) = Inr pl'
     \<and> r_status (probe pl' \<lparr>r_status = 200, r_body = ''''\<rparr> ''GET'' ''/readyz'') = 200"
proof -
  let ?p = "\<lparr>p_Topic = ''t'', p_Partition = 0\<rparr>"
  let ?evs = "[(PollTick [Assigned [?p]] [], sample_answers, id :: dispatcher \<Rightarrow> dispatcher)]"
  obtain pl where pl: "NewPollLoop DefaultPollLoopConfig (Some ()) (Some sample_disp) (Some ())
      (Some new_health) (Some NewPollLoopMetrics) = Inr pl" by (simp add: NewPollLoop_def)
  have w: "open_disp (pl_world (started pl))" using pl sample_disp_open by (auto simp: NewPollLoop_def started_def)
  obtain pl' where pl': "run_events sample_ops ?evs (started pl) = Inr pl'"
    using up.event_inv [of "started pl" "PollTick [Assigned [?p]] []" "[]" WorkersDrained id sample_answers] w
    by (auto simp: event_ok_def)
  have "causes pl' = causes (started pl)"
    using pl' causes_poll by (fastforce simp: run_event_def go_bind_Inr_iff)
  then have "pl_commitFailures pl' = 0" "pl_cfg pl' = DefaultPollLoopConfig"
    using pl by (auto simp: causes_def NewPollLoop_def started_def)
  moreover have "circuit_open ?evs = False" "assigned_count ?evs = 1"
    by (simp_all add: circuit_open_def circuit_note_def assigned_count_def)
  moreover have "pm_DegradedMode NewPollLoopMetrics = 0" "0 < pc_CommitFailureThreshold DefaultPollLoopConfig"
    "Assigned [] \<notin> set (concat (map (rebalances_of \<circ> fst) ?evs))"
    by (simp_all add: NewPollLoopMetrics_def DefaultPollLoopConfig_def)
  moreover note probes_follow_loop [OF pl this(1,2) pl' this(3), of "\<lparr>r_status = 200, r_body = ''''\<rparr>",
      THEN conjunct2, THEN conjunct1]
  ultimately have "r_status (probe pl' \<lparr>r_status = 200, r_body = ''''\<rparr> ''GET'' ''/readyz'') = 200"
    by (simp only: DefaultPollLoopConfig_def) simp
  with pl pl' show ?thesis by blast
qed

end
