(* ===== verification/DLQ_Producer.thy ===== *)
theory DLQ_Producer
  imports Kafka_Config
begin

text \<open>
  The dead-letter producer, \<^verbatim>\<open>internal/kafka/dlq.go\<close>: its construction, the headers it adds, and
  \<open>Produce\<close>, which enqueues a batch and waits for the delivery reports.

  The Kafka producer is not part of the repository. What its constructor and its \<open>Produce\<close>
  return are arguments (\<open>newProducer\<close>, and \<open>enqueue\<close> for the message at an index); what the \<open>select\<close> of the waiting loop receives
  is a list of \<open>wait_event\<close>s. \<open>timestamp\<close> is the formatted time of the call.
\<close>

subsection \<open>Construction\<close>

record DLQProducerConfig =
  dl_Topic :: string
  dl_Brokers :: "string list"
  dl_Security :: KSecurityConfig

record DLQProducer =
  dp_topic :: string
  dp_config :: ConfigMap

definition NewDLQProducer ::
  "set_key \<Rightarrow> (ConfigMap \<Rightarrow> go_error option) \<Rightarrow> DLQProducerConfig \<Rightarrow> go_error + DLQProducer"
where
  "NewDLQProducer setKey newProducer cfg =
     (if dl_Topic cfg = '''' then Inl (ErrorString ''dlq: topic must not be empty'')
      else if length (dl_Brokers cfg) = 0 then Inl (ErrorString ''dlq: at least one broker is required'')
      else case applySecurity setKey (dl_Security cfg) (fmap_of_list
                  [(''bootstrap.servers'', CvString (Join (dl_Brokers cfg) '','')),
                   (''acks'', CvString ''all''), (''linger.ms'', CvInt 10)]) of
             Inl err \<Rightarrow> Inl (Wrapped ''dlq: '' err)
           | Inr configMap \<Rightarrow>
               (case newProducer configMap of
                  Some err \<Rightarrow> Inl (Wrapped ''dlq: create producer: '' err)
                | None \<Rightarrow> Inr \<lparr>dp_topic = dl_Topic cfg, dp_config = configMap\<rparr>))"

subsection \<open>Producing a batch\<close>

definition buildDLQHeaders :: "message \<Rightarrow> string \<Rightarrow> string \<Rightarrow> header list" where
  "buildDLQHeaders msg reason timestamp =
     [\<lparr>h_Key = ''dlq.source.topic'', h_Value = bytes_of (m_Topic msg)\<rparr>,
      \<lparr>h_Key = ''dlq.source.partition'', h_Value = bytes_of (FormatInt (sint (m_Partition msg)))\<rparr>,
      \<lparr>h_Key = ''dlq.source.offset'', h_Value = bytes_of (FormatInt (sint (m_Offset msg)))\<rparr>,
      \<lparr>h_Key = ''dlq.error.reason'', h_Value = bytes_of reason\<rparr>,
      \<lparr>h_Key = ''dlq.error.timestamp'', h_Value = bytes_of timestamp\<rparr>]"

definition dlq_message :: "string \<Rightarrow> string \<Rightarrow> string \<Rightarrow> message \<Rightarrow> kafka_message" where
  "dlq_message topic reason timestamp msg =
     \<lparr>km_TopicPartition = \<lparr>tp_Topic = Some topic, tp_Partition = PartitionAny, tp_Offset = 0\<rparr>,
      km_Key = m_Key msg, km_Value = m_Value msg, km_Timestamp = 0,
      km_Headers = buildDLQHeaders msg reason timestamp
                     @ map (\<lambda>h. \<lparr>h_Key = h_Key h, h_Value = h_Value h\<rparr>) (m_Headers msg)\<rparr>"

text \<open>The enqueue loop: the error that ends it, if any, and the messages that were enqueued.\<close>

fun enqueue_all ::
  "(nat \<Rightarrow> kafka_message \<Rightarrow> go_error option) \<Rightarrow> string \<Rightarrow> string \<Rightarrow> string \<Rightarrow> nat \<Rightarrow> message list
    \<Rightarrow> go_error option \<times> kafka_message list"
where
  "enqueue_all enqueue topic reason timestamp i [] = (None, [])"
| "enqueue_all enqueue topic reason timestamp i (msg # msgs) =
     (let kMsg = dlq_message topic reason timestamp msg
      in case enqueue i kMsg of
           Some err \<Rightarrow>
             (Some (Wrapped (''dlq: enqueue message (partition='' @ FormatInt (sint (m_Partition msg))
                @ '', offset='' @ FormatInt (sint (m_Offset msg)) @ ''): '') err), [])
         | None \<Rightarrow>
             let (err, sent) = enqueue_all enqueue topic reason timestamp (Suc i) msgs in (err, kMsg # sent))"

datatype wait_event = Canceled go_error | Report "go_error option"

text \<open>The waiting loop. \<open>None\<close>: the events are used up and it still waits.\<close>

fun await_reports :: "nat \<Rightarrow> go_error option \<Rightarrow> wait_event list \<Rightarrow> go_error option option" where
  "await_reports 0 firstErr evs = Some firstErr"
| "await_reports (Suc n) firstErr [] = None"
| "await_reports (Suc n) firstErr (Canceled err # evs) =
     Some (Some (Wrapped ''dlq: context canceled while waiting for delivery: '' err))"
| "await_reports (Suc n) firstErr (Report e # evs) =
     await_reports n
       (case e of
          Some err \<Rightarrow> if firstErr = None then Some (Wrapped ''dlq: delivery failed: '' err) else firstErr
        | None \<Rightarrow> firstErr) evs"

definition Produce ::
  "DLQProducer \<Rightarrow> (nat \<Rightarrow> kafka_message \<Rightarrow> go_error option) \<Rightarrow> wait_event list \<Rightarrow> string
    \<Rightarrow> message list \<Rightarrow> go_error \<Rightarrow> kafka_message list \<times> go_error option option"
where
  "Produce d enqueue evs timestamp msgs reason =
     (case enqueue_all enqueue (dp_topic d) (Error reason) timestamp 0 msgs of
        (Some err, sent) \<Rightarrow> (sent, Some (Some err))
      | (None, sent) \<Rightarrow> (sent, await_reports (length msgs) None evs))"

subsection \<open>Reading a dead letter\<close>

text \<open>What a consumer of the dead-letter topic reads: the first header with a key.\<close>

definition header_text :: "string \<Rightarrow> header list \<Rightarrow> string option" where
  "header_text k hs = map_option (\<lambda>h. string_of (h_Value h)) (find (\<lambda>h. h_Key h = k) hs)"

definition dlq_source :: "kafka_message \<Rightarrow> (string \<times> int32 \<times> int64) option" where
  "dlq_source km =
     (case (header_text ''dlq.source.topic'' (km_Headers km),
            Option.bind (header_text ''dlq.source.partition'' (km_Headers km)) Atoi,
            Option.bind (header_text ''dlq.source.offset'' (km_Headers km)) Atoi) of
        (Some topic, Some p, Some off) \<Rightarrow> Some (topic, word_of_int p, word_of_int off)
      | _ \<Rightarrow> None)"

lemma int64_range_sint [simp]: "int64_range (sint (p :: int32))" "int64_range (sint (off :: int64))"
  using sint_greater_eq [of p] sint_less [of p] sint_greater_eq [of off] sint_less [of off]
  by (simp_all add: int64_range_def)

lemma header_texts:
  "header_text ''dlq.source.topic'' (buildDLQHeaders msg reason ts @ hs) = Some (m_Topic msg)"
  "header_text ''dlq.source.partition'' (buildDLQHeaders msg reason ts @ hs)
     = Some (FormatInt (sint (m_Partition msg)))"
  "header_text ''dlq.source.offset'' (buildDLQHeaders msg reason ts @ hs)
     = Some (FormatInt (sint (m_Offset msg)))"
  "header_text ''dlq.error.reason'' (buildDLQHeaders msg reason ts @ hs) = Some reason"
  "header_text ''dlq.error.timestamp'' (buildDLQHeaders msg reason ts @ hs) = Some ts"
  by (simp_all add: header_text_def buildDLQHeaders_def)

subsection \<open>What was enqueued and what was delivered\<close>

text \<open>The enqueued messages are the first ones, up to one that the producer rejects.\<close>

lemma enqueue_all_outcome:
  assumes "enqueue_all enqueue topic reason ts i msgs = (err, sent)"
  shows "sent = take (length sent) (map (dlq_message topic reason ts) msgs)
    \<and> (\<forall>k < length sent. enqueue (i + k) (sent ! k) = None)
    \<and> (if err = None then length sent = length msgs
       else length sent < length msgs
         \<and> enqueue (i + length sent) (dlq_message topic reason ts (msgs ! length sent)) \<noteq> None)"
  using assms
proof (induction msgs arbitrary: i err sent)
  case (Cons x xs)
  let ?km = "dlq_message topic reason ts x"
  show ?case
  proof (cases "enqueue i ?km")
    case None
    obtain e s where r: "enqueue_all enqueue topic reason ts (Suc i) xs = (e, s)" by fastforce
    with Cons.prems None have [simp]: "err = e" "sent = ?km # s" by (simp_all add: Let_def)
    have "enqueue (i + k) (sent ! k) = None" if "k < length sent" for k
      using Cons.IH [OF r] that None by (cases k) auto
    then show ?thesis using Cons.IH [OF r] by auto
  next
    case (Some e)
    with Cons.prems show ?thesis by (auto simp: Let_def)
  qed
qed simp

lemma await_reports_error: "await_reports n (Some e) evs \<noteq> Some None"
  by (induction n "Some e" evs rule: await_reports.induct) (auto split: option.split)

lemma await_reports_ok:
  "await_reports n None evs = Some None \<longleftrightarrow> take n evs = replicate n (Report None)"
proof (induction n arbitrary: evs)
  case (Suc n)
  show ?case
  proof (cases evs)
    case (Cons e es)
    with Suc.IH [of es] await_reports_error show ?thesis by (cases e) (auto split: option.split)
  qed simp
qed simp

subsection \<open>Properties\<close>

text \<open>
  C22: a dead letter can be traced back and replayed. From the headers of the message that
  \<open>Produce\<close> sends, topic, partition and offset of the source message are read back exactly (for
  negative and extreme offsets too), also when the source message carries headers with the
  same keys, as a replayed dead letter does; reason and time are there; key, value and the
  original headers, in order, are unchanged.
\<close>

theorem dead_letter_round_trip:
  "dlq_source (dlq_message topic reason ts msg) = Some (m_Topic msg, m_Partition msg, m_Offset msg)
    \<and> header_text ''dlq.error.reason'' (km_Headers (dlq_message topic reason ts msg)) = Some reason
    \<and> header_text ''dlq.error.timestamp'' (km_Headers (dlq_message topic reason ts msg)) = Some ts
    \<and> km_Key (dlq_message topic reason ts msg) = m_Key msg
    \<and> km_Value (dlq_message topic reason ts msg) = m_Value msg
    \<and> drop 5 (km_Headers (dlq_message topic reason ts msg)) = m_Headers msg"
proof -
  have "length (buildDLQHeaders msg reason ts) = 5" by (simp add: buildDLQHeaders_def)
  moreover have "map (\<lambda>h. \<lparr>h_Key = h_Key h, h_Value = h_Value h\<rparr>) hs = hs" for hs :: "header list"
    by (simp add: map_idI)
  moreover have "Atoi (FormatInt (sint (m_Partition msg))) = Some (sint (m_Partition msg))"
    "Atoi (FormatInt (sint (m_Offset msg))) = Some (sint (m_Offset msg))"
    by (simp_all add: decimal.decode_encode)
  ultimately show ?thesis
    by (simp add: dlq_message_def dlq_source_def header_texts)
qed

text \<open>
  C23: when \<open>Produce\<close> says that a batch is in the dead-letter topic, it is. What it enqueues is,
  in order, the batch up to the first message the producer rejects; it returns no error exactly
  when every message was enqueued and the first reports to arrive, one for each message, are
  all without error and come before the end of the context.
\<close>

theorem produce_reports_delivery:
  assumes "Produce d enqueue evs ts msgs reason = (sent, result)"
  shows "sent = take (length sent) (map (dlq_message (dp_topic d) (Error reason) ts) msgs)
    \<and> (\<forall>k < length sent. enqueue k (sent ! k) = None)
    \<and> (length sent < length msgs \<longrightarrow>
        enqueue (length sent) (dlq_message (dp_topic d) (Error reason) ts (msgs ! length sent)) \<noteq> None)
    \<and> (result = Some None \<longleftrightarrow>
        length sent = length msgs \<and> take (length msgs) evs = replicate (length msgs) (Report None))"
proof -
  obtain err s where e: "enqueue_all enqueue (dp_topic d) (Error reason) ts 0 msgs = (err, s)" by fastforce
  with assms have "s = sent" "result = (case err of Some x \<Rightarrow> Some (Some x)
      | None \<Rightarrow> await_reports (length msgs) None evs)"
    by (auto simp: Produce_def split: option.splits)
  with enqueue_all_outcome [OF e] await_reports_ok show ?thesis
    by (auto split: option.splits if_splits)
qed

theorem produce_reports_delivery_witness:
  "\<forall>msg. snd (Produce \<lparr>dp_topic = ''dlq'', dp_config = fmempty\<rparr> (\<lambda>_ _. None) [Report None] ''now'' [msg]
      (ErrorString ''bad'')) = Some None"
proof
  fix msg
  obtain sent result where r: "Produce \<lparr>dp_topic = ''dlq'', dp_config = fmempty\<rparr> (\<lambda>_ _. None) [Report None]
      ''now'' [msg] (ErrorString ''bad'') = (sent, result)" by fastforce
  from produce_reports_delivery [OF r] have "\<not> length sent < 1" and "result = Some None \<longleftrightarrow> length sent = 1"
    and "length sent \<le> 1" by (auto dest: arg_cong [where f = length])
  then have "result = Some None" by linarith
  then show "snd (Produce \<lparr>dp_topic = ''dlq'', dp_config = fmempty\<rparr> (\<lambda>_ _. None) [Report None] ''now'' [msg]
      (ErrorString ''bad'')) = Some None" using r by simp
qed

end
