(* ===== verification/Component_Options.thy ===== *)
theory Component_Options
  imports Poll_Loop Kafka_Adapter DLQ_Producer
begin

text \<open>
  The functional options of the packages: \<^verbatim>\<open>consumer/options.go\<close>, \<^verbatim>\<open>internal/dispatcher/options.go\<close>,
  \<^verbatim>\<open>internal/pollloop/options.go\<close>, \<^verbatim>\<open>internal/offset/options.go\<close> and the options of
  \<^verbatim>\<open>internal/kafka/adapter.go\<close> and \<^verbatim>\<open>dlq.go\<close>. An option is a function on a package's struct of optional
  dependencies; a constructor starts from the defaults and applies its options in order.

  A logger is the number of its handler with the attributes that \<open>With\<close> has added to it; a
  pointer to one is an optional value, with \<open>None\<close> for nil. A Prometheus registry is a number.
  The locale \<open>logger_option\<close> states what the packages share; every package is an instance but
  the poll loop, whose \<open>WithLogger\<close> has no check for nil.
\<close>

subsection \<open>Loggers\<close>

record logger =
  lg_handler :: nat
  lg_attrs :: "(string \<times> string) list"

definition slog_Default :: logger where
  "slog_Default = \<lparr>lg_handler = 0, lg_attrs = []\<rparr>"

text \<open>\<open>logger.With(slog.String("component", name))\<close>\<close>

definition component_logger :: "string \<Rightarrow> logger \<Rightarrow> logger" where
  "component_logger name l = l\<lparr>lg_attrs := lg_attrs l @ [(''component'', name)]\<rparr>"

definition apply_options :: "'o \<Rightarrow> ('o \<Rightarrow> 'o) list \<Rightarrow> 'o" where
  "apply_options defaults opts = fold (\<lambda>opt. opt) opts defaults"

lemma apply_options_simps [simp]:
  "apply_options d [] = d" "apply_options d (f # fs) = apply_options (f d) fs"
  "apply_options d (fs @ gs) = apply_options (apply_options d fs) gs"
  by (simp_all add: apply_options_def)

subsection \<open>The interface\<close>

text \<open>
  Options with a logger: the default is the program's default logger, setting nil changes
  nothing, and setting a logger sets it.
\<close>

locale logger_option =
  fixes defaults :: 'o and logger_of :: "'o \<Rightarrow> logger option" and with_logger :: "logger option \<Rightarrow> 'o \<Rightarrow> 'o"
  assumes default_logger: "logger_of defaults = Some slog_Default"
    and nil_ignored: "with_logger None opts = opts"
    and logger_set: "logger_of (with_logger (Some l) opts) = Some l"
begin

definition silent :: "('o \<Rightarrow> 'o) \<Rightarrow> bool" where
  "silent f \<longleftrightarrow> (\<forall>opts. logger_of (f opts) = logger_of opts)"

definition known :: "('o \<Rightarrow> 'o) \<Rightarrow> bool" where
  "known f \<longleftrightarrow> silent f \<or> (\<exists>l. f = with_logger l)"

lemma silent_nil: "silent (with_logger None)"
  by (simp add: silent_def nil_ignored)

lemma silent_options: "(\<And>f. f \<in> set fs \<Longrightarrow> silent f) \<Longrightarrow> logger_of (apply_options opts fs) = logger_of opts"
  by (induction fs arbitrary: opts) (simp_all add: silent_def)

lemma keeps_logger:
  "(\<And>f. f \<in> set fs \<Longrightarrow> known f) \<Longrightarrow> logger_of opts \<noteq> None \<Longrightarrow> logger_of (apply_options opts fs) \<noteq> None"
proof (induction fs arbitrary: opts)
  case (Cons f fs)
  have "logger_of (f opts) \<noteq> None"
  proof (cases "silent f")
    case True
    with Cons.prems(2) show ?thesis by (simp add: silent_def)
  next
    case False
    with Cons.prems(1) [of f] obtain l where "f = with_logger l" by (auto simp: known_def)
    with Cons.prems(2) show ?thesis by (cases l) (simp_all add: nil_ignored logger_set)
  qed
  with Cons.IH [of "f opts"] Cons.prems(1) show ?case by simp
qed simp

lemma never_nil: "(\<And>f. f \<in> set fs \<Longrightarrow> known f) \<Longrightarrow> logger_of (apply_options defaults fs) \<noteq> None"
  by (rule keeps_logger) (simp_all add: default_logger)

lemma last_logger_wins:
  "(\<And>f. f \<in> set post \<Longrightarrow> silent f)
    \<Longrightarrow> logger_of (apply_options defaults (pre @ with_logger (Some l) # post)) = Some l"
  using silent_options [of post] by (simp add: logger_set)

lemma default_stays:
  "(\<And>f. f \<in> set fs \<Longrightarrow> silent f) \<Longrightarrow> logger_of (apply_options defaults fs) = Some slog_Default"
  using silent_options [of fs] by (simp add: default_logger)

end

subsection \<open>Offset coordinator\<close>

record coordinatorOptions =
  co_logger :: "logger option"

definition defaultCoordinatorOptions :: coordinatorOptions where
  "defaultCoordinatorOptions = \<lparr>co_logger = Some slog_Default\<rparr>"

definition offset_WithLogger :: "logger option \<Rightarrow> coordinatorOptions \<Rightarrow> coordinatorOptions" where
  "offset_WithLogger l opts = (if l \<noteq> None then opts\<lparr>co_logger := l\<rparr> else opts)"

interpretation coordinator_opts: logger_option defaultCoordinatorOptions co_logger offset_WithLogger
  by unfold_locales (simp_all add: defaultCoordinatorOptions_def offset_WithLogger_def)

subsection \<open>Dispatcher\<close>

record unorderedOptions =
  uo_logger :: "logger option"
  uo_metrics :: "dispatcher_metrics option"
  uo_dlqProducer :: "DLQProducer option"

definition defaultUnorderedOptions :: unorderedOptions where
  "defaultUnorderedOptions = \<lparr>uo_logger = Some slog_Default, uo_metrics = None, uo_dlqProducer = None\<rparr>"

definition dispatcher_WithLogger :: "logger option \<Rightarrow> unorderedOptions \<Rightarrow> unorderedOptions" where
  "dispatcher_WithLogger l opts = (if l \<noteq> None then opts\<lparr>uo_logger := l\<rparr> else opts)"

definition dispatcher_WithMetrics :: "dispatcher_metrics option \<Rightarrow> unorderedOptions \<Rightarrow> unorderedOptions" where
  "dispatcher_WithMetrics m opts = opts\<lparr>uo_metrics := m\<rparr>"

definition WithDLQProducer :: "DLQProducer option \<Rightarrow> unorderedOptions \<Rightarrow> unorderedOptions" where
  "WithDLQProducer dlq opts = opts\<lparr>uo_dlqProducer := dlq\<rparr>"

interpretation dispatcher_opts: logger_option defaultUnorderedOptions uo_logger dispatcher_WithLogger
  by unfold_locales (simp_all add: defaultUnorderedOptions_def dispatcher_WithLogger_def)

lemma dispatcher_silent [simp]:
  "dispatcher_opts.silent (dispatcher_WithMetrics m)" "dispatcher_opts.silent (WithDLQProducer dlq)"
  by (simp_all add: dispatcher_opts.silent_def dispatcher_WithMetrics_def WithDLQProducer_def)

subsection \<open>Poll loop\<close>

record pollloop_options =
  po_logger :: "logger option"
  po_metrics :: "pollloop_metrics option"

definition pollloop_defaultOptions :: pollloop_options where
  "pollloop_defaultOptions = \<lparr>po_logger = Some slog_Default, po_metrics = None\<rparr>"

definition pollloop_WithLogger :: "logger option \<Rightarrow> pollloop_options \<Rightarrow> pollloop_options" where
  "pollloop_WithLogger l opts = opts\<lparr>po_logger := l\<rparr>"

definition pollloop_WithMetrics :: "pollloop_metrics option \<Rightarrow> pollloop_options \<Rightarrow> pollloop_options" where
  "pollloop_WithMetrics m opts = opts\<lparr>po_metrics := m\<rparr>"

subsection \<open>Kafka adapter and dead-letter producer\<close>

record adapterOptions =
  ao_logger :: "logger option"
  ao_lagMetrics :: "lag_gauge option"

definition defaultAdapterOptions :: adapterOptions where
  "defaultAdapterOptions = \<lparr>ao_logger = Some slog_Default, ao_lagMetrics = None\<rparr>"

definition adapter_WithLogger :: "logger option \<Rightarrow> adapterOptions \<Rightarrow> adapterOptions" where
  "adapter_WithLogger l opts = (if l \<noteq> None then opts\<lparr>ao_logger := l\<rparr> else opts)"

definition WithLagMetrics :: "lag_gauge option \<Rightarrow> adapterOptions \<Rightarrow> adapterOptions" where
  "WithLagMetrics m opts = opts\<lparr>ao_lagMetrics := m\<rparr>"

interpretation adapter_opts: logger_option defaultAdapterOptions ao_logger adapter_WithLogger
  by unfold_locales (simp_all add: defaultAdapterOptions_def adapter_WithLogger_def)

lemma adapter_silent [simp]: "adapter_opts.silent (WithLagMetrics m)"
  by (simp add: adapter_opts.silent_def WithLagMetrics_def)

record dlqOptions =
  dlo_logger :: "logger option"

definition default_dlqOptions :: dlqOptions where
  "default_dlqOptions = \<lparr>dlo_logger = Some slog_Default\<rparr>"

definition WithDLQLogger :: "logger option \<Rightarrow> dlqOptions \<Rightarrow> dlqOptions" where
  "WithDLQLogger l opts = (if l \<noteq> None then opts\<lparr>dlo_logger := l\<rparr> else opts)"

interpretation dlq_opts: logger_option default_dlqOptions dlo_logger WithDLQLogger
  by unfold_locales (simp_all add: default_dlqOptions_def WithDLQLogger_def)

subsection \<open>Consumer\<close>

record options =
  o_logger :: "logger option"
  o_registerer :: nat

definition defaultOptions :: options where
  "defaultOptions = \<lparr>o_logger = Some slog_Default, o_registerer = 0\<rparr>"

definition WithLogger :: "logger option \<Rightarrow> options \<Rightarrow> options" where
  "WithLogger l opts = (if l \<noteq> None then opts\<lparr>o_logger := l\<rparr> else opts)"

definition WithMetrics :: "nat option \<Rightarrow> options \<Rightarrow> options" where
  "WithMetrics reg opts = (case reg of Some x \<Rightarrow> opts\<lparr>o_registerer := x\<rparr> | None \<Rightarrow> opts)"

interpretation consumer_opts: logger_option defaultOptions o_logger WithLogger
  by unfold_locales (simp_all add: defaultOptions_def WithLogger_def)

lemma consumer_silent [simp]: "consumer_opts.silent (WithMetrics reg)"
  by (simp add: consumer_opts.silent_def WithMetrics_def split: option.split)

end
