(* ===== verification/Metric_Registry.thy ===== *)
theory Metric_Registry
  imports Consumer_Prelude
begin

text \<open>
  Registration of the metrics, \<^verbatim>\<open>internal/metrics\<close>: the kind, name, help text and labels that
  \<open>NewPollLoopMetrics\<close>, \<open>NewDispatcherMetrics\<close> and \<open>NewLagMetrics\<close> give to Prometheus, in the order
  of their fields. What the metrics record is part of the components that use them; histograms
  have the default buckets. \<open>promauto\<close> registers each metric with \<open>MustRegister\<close>, which panics
  when the registry refuses it. The registry is library code: its answer, given what has been
  registered with it since, is an argument.
\<close>

subsection \<open>Names\<close>

definition MessagesPolledTotal :: string where
  "MessagesPolledTotal = ''kafka_consumer_messages_polled_total''"

definition PollErrorsTotal :: string where
  "PollErrorsTotal = ''kafka_consumer_poll_errors_total''"

definition CommitsTotal :: string where
  "CommitsTotal = ''kafka_consumer_commits_total''"

definition CommitFailuresTotal :: string where
  "CommitFailuresTotal = ''kafka_consumer_commit_failures_total''"

definition DegradedMode :: string where
  "DegradedMode = ''kafka_consumer_degraded_mode''"

definition PartitionsAssigned :: string where
  "PartitionsAssigned = ''kafka_consumer_partitions_assigned''"

definition RebalancesTotal :: string where
  "RebalancesTotal = ''kafka_consumer_rebalances_total''"

definition LastCommittedOffset :: string where
  "LastCommittedOffset = ''kafka_consumer_last_committed_offset''"

definition PartitionsPaused :: string where
  "PartitionsPaused = ''kafka_consumer_partitions_paused''"

definition MessagesProcessedTotal :: string where
  "MessagesProcessedTotal = ''kafka_consumer_messages_processed_total''"

definition MessageDelaySeconds :: string where
  "MessageDelaySeconds = ''kafka_consumer_message_delay_seconds''"

definition ProcessingTimeSeconds :: string where
  "ProcessingTimeSeconds = ''kafka_consumer_processing_time_seconds''"

definition RecordAgeSeconds :: string where
  "RecordAgeSeconds = ''kafka_consumer_record_age_seconds''"

definition InflightMessages :: string where
  "InflightMessages = ''kafka_consumer_inflight_messages''"

definition CircuitBreakerState :: string where
  "CircuitBreakerState = ''kafka_consumer_circuit_breaker_state''"

definition WorkersActive :: string where
  "WorkersActive = ''kafka_consumer_workers_active''"

definition DLQMessagesTotal :: string where
  "DLQMessagesTotal = ''kafka_consumer_dlq_messages_total''"

definition ConsumerLag :: string where
  "ConsumerLag = ''kafka_consumer_lag''"

subsection \<open>Metrics\<close>

datatype metric_kind = Counter | Gauge | Histogram

record metric =
  mt_Kind :: metric_kind
  mt_Name :: string
  mt_Help :: string
  mt_Labels :: "string list"

definition pollloop_metric_opts :: "metric list" where
  "pollloop_metric_opts =
     [\<lparr>mt_Kind = Counter, mt_Name = MessagesPolledTotal,
       mt_Help = ''Total messages received from Kafka, per partition.'', mt_Labels = [''partition'']\<rparr>,
      \<lparr>mt_Kind = Counter, mt_Name = PollErrorsTotal,
       mt_Help = ''Total Poll() errors.'', mt_Labels = []\<rparr>,
      \<lparr>mt_Kind = Counter, mt_Name = CommitsTotal,
       mt_Help = ''Total successful offset commits, per partition.'', mt_Labels = [''partition'']\<rparr>,
      \<lparr>mt_Kind = Counter, mt_Name = CommitFailuresTotal,
       mt_Help = ''Total failed offset commits.'', mt_Labels = []\<rparr>,
      \<lparr>mt_Kind = Gauge, mt_Name = DegradedMode,
       mt_Help = ''Whether the poll loop is in degraded mode (1=degraded, 0=normal).'', mt_Labels = []\<rparr>,
      \<lparr>mt_Kind = Gauge, mt_Name = PartitionsAssigned,
       mt_Help = ''Number of partitions currently assigned to this consumer instance.'', mt_Labels = []\<rparr>,
      \<lparr>mt_Kind = Counter, mt_Name = RebalancesTotal,
       mt_Help = ''Total rebalance events (incremented on each revoke).'', mt_Labels = []\<rparr>,
      \<lparr>mt_Kind = Gauge, mt_Name = LastCommittedOffset,
       mt_Help = ''Last successfully committed offset per partition.'', mt_Labels = [''partition'']\<rparr>,
      \<lparr>mt_Kind = Gauge, mt_Name = PartitionsPaused,
       mt_Help = ''Number of partitions currently paused due to backpressure or degraded mode.'', mt_Labels = []\<rparr>]"

definition dispatcher_metric_opts :: "metric list" where
  "dispatcher_metric_opts =
     [\<lparr>mt_Kind = Counter, mt_Name = MessagesProcessedTotal,
       mt_Help = ''Total messages processed, labeled by outcome and partition.'', mt_Labels = [''status'', ''partition'']\<rparr>,
      \<lparr>mt_Kind = Histogram, mt_Name = MessageDelaySeconds,
       mt_Help = ''Time from poll to processing completion per message.'', mt_Labels = [''partition'']\<rparr>,
      \<lparr>mt_Kind = Histogram, mt_Name = ProcessingTimeSeconds,
       mt_Help = ''Processor function execution time per batch.'', mt_Labels = [''partition'']\<rparr>,
      \<lparr>mt_Kind = Histogram, mt_Name = RecordAgeSeconds,
       mt_Help = ''End-to-end latency from message production to processing completion.'', mt_Labels = [''partition'']\<rparr>,
      \<lparr>mt_Kind = Gauge, mt_Name = InflightMessages,
       mt_Help = ''Messages currently buffered in worker channels or being processed, per partition.'', mt_Labels = [''partition'']\<rparr>,
      \<lparr>mt_Kind = Gauge, mt_Name = CircuitBreakerState,
       mt_Help = ''Current circuit breaker state: 0=closed, 1=half-open, 2=open.'', mt_Labels = []\<rparr>,
      \<lparr>mt_Kind = Gauge, mt_Name = WorkersActive,
       mt_Help = ''Number of workers currently processing a batch.'', mt_Labels = []\<rparr>,
      \<lparr>mt_Kind = Counter, mt_Name = DLQMessagesTotal,
       mt_Help = ''Total messages sent to the dead letter queue, labeled by reason and partition.'', mt_Labels = [''reason'', ''partition'']\<rparr>]"

definition lag_metric_opts :: "metric list" where
  "lag_metric_opts =
     [\<lparr>mt_Kind = Gauge, mt_Name = ConsumerLag,
       mt_Help = ''Current consumer lag per topic partition (high-water mark minus committed ''
       @ ''offset). Sourced from librdkafka statistics. Primary signal for KEDA horizontal ''
       @ ''autoscaling.'', mt_Labels = [''group'', ''topic'', ''partition'']\<rparr>]"

definition all_metrics :: "metric list" where
  "all_metrics = pollloop_metric_opts @ dispatcher_metric_opts @ lag_metric_opts"

text \<open>The names are different, have the documented prefix, and counters alone end in \<open>_total\<close>.\<close>

lemma all_metrics_names:
  "distinct (map mt_Name all_metrics)"
  "list_all (\<lambda>m. take (length ''kafka_consumer_'') (mt_Name m) = ''kafka_consumer_'') all_metrics"
  "list_all (\<lambda>m. mt_Kind m = Counter \<longleftrightarrow> drop (length (mt_Name m) - length ''_total'') (mt_Name m) = ''_total'')
     all_metrics"
  by code_simp+

subsection \<open>Registration\<close>

type_synonym registry = "metric list \<Rightarrow> metric \<Rightarrow> bool"

fun register_metrics :: "registry \<Rightarrow> metric list \<Rightarrow> metric list \<Rightarrow> panic + metric list" where
  "register_metrics accepts held [] = Inr held"
| "register_metrics accepts held (m # ms) =
     (if accepts held m then register_metrics accepts (held @ [m]) ms else Inl (MustRegister (mt_Name m)))"

lemma register_metrics_append:
  "register_metrics accepts held (ms @ ms') =
     go_bind (register_metrics accepts held ms) (\<lambda>held'. register_metrics accepts held' ms')"
  by (induction ms arbitrary: held) simp_all

text \<open>
  What Prometheus documents of a registry, for metrics without constant labels, as all of these
  are: it refuses a metric exactly when one with the same name is registered. \<open>used\<close> are the
  names it holds already.
\<close>

definition by_name :: "string set \<Rightarrow> registry \<Rightarrow> bool" where
  "by_name used accepts \<longleftrightarrow>
     (\<forall>held m. accepts held m \<longleftrightarrow> mt_Name m \<notin> used \<and> mt_Name m \<notin> mt_Name ` set held)"

lemma register_by_name:
  "by_name used accepts \<Longrightarrow> distinct (map mt_Name (held @ ms)) \<Longrightarrow>
    register_metrics accepts held ms =
      (case find (\<lambda>m. mt_Name m \<in> used) ms of
         None \<Rightarrow> Inr (held @ ms) | Some m \<Rightarrow> Inl (MustRegister (mt_Name m)))"
proof (induction ms arbitrary: held)
  case (Cons m ms)
  have "accepts held m \<longleftrightarrow> mt_Name m \<notin> used" using Cons.prems by (auto simp: by_name_def)
  with Cons.IH [of "held @ [m]"] Cons.prems show ?case by (simp split: option.split)
qed simp

lemma register_all_metrics:
  assumes "by_name used accepts"
  shows "register_metrics accepts [] all_metrics =
    (case find (\<lambda>m. mt_Name m \<in> used) all_metrics of
       None \<Rightarrow> Inr all_metrics | Some m \<Rightarrow> Inl (MustRegister (mt_Name m)))"
  using register_by_name [OF assms, of "[]" all_metrics] all_metrics_names(1) by (simp split: option.splits)

end
