(* ===== verification/Consumer_Run.thy ===== *)
theory Consumer_Run
  imports Poll_Loop_Runs Component_Options Metric_Registry
begin

text \<open>
  The consumer itself, \<^verbatim>\<open>consumer/consumer.go\<close>: construction with
  validation, the translation of the configuration for the parts, and \<open>Run\<close>, which assembles
  the parts, runs the poll loop and releases what it opened.

  What the client library answers is the record \<open>run_env\<close>. The result of \<open>Run\<close> is the sequence
  of its effects (what it opens, starts, stops and closes, and the calls the Kafka consumer
  gets) and what it returns; \<open>None\<close> is a run that has not returned. The dispatcher's operations
  and its \<open>Start\<close>, which makes the world they work on, are arguments. Deferred calls are effects
  at the end, in reverse order; when another goroutine's panic has ended the process none of
  them runs. The calls Kafka got before a panic are not among the effects.
\<close>

subsection \<open>Construction\<close>

record 'p Consumer =
  c_cfg :: Config
  c_processor :: 'p
  c_opts :: options

definition New :: "Config \<Rightarrow> 'p option \<Rightarrow> (options \<Rightarrow> options) list \<Rightarrow> go_error + 'p Consumer" where
  "New cfg processor opts =
     (case processor of
        None \<Rightarrow> Inl (ErrorString ''consumer: batch processor must not be nil'')
      | Some p \<Rightarrow>
          (case Validate cfg of
             Some err \<Rightarrow> Inl err
           | None \<Rightarrow> Inr \<lparr>c_cfg = cfg, c_processor = p, c_opts = apply_options defaultOptions opts\<rparr>))"

subsection \<open>Configuration of the parts\<close>

definition mapSecurityConfig :: "Config \<Rightarrow> KSecurityConfig" where
  "mapSecurityConfig cfg =
     \<lparr>k_Protocol = sec_Protocol (cf_Security cfg),
      k_TLS = map_option (\<lambda>t. \<lparr>kt_CAFile = tls_CAFile t, kt_CertFile = tls_CertFile t,
        kt_KeyFile = tls_KeyFile t, kt_InsecureSkipVerify = tls_InsecureSkipVerify t\<rparr>) (sec_TLS (cf_Security cfg)),
      k_SASL = map_option (\<lambda>a. \<lparr>ks_Mechanism = sasl_Mechanism a, ks_Username = sasl_Username a,
        ks_Password = sasl_Password a, ks_OAuthBearerConfig = sasl_OAuthBearerConfig a\<rparr>) (sec_SASL (cf_Security cfg))\<rparr>"

definition mapKafkaConfig :: "Config \<Rightarrow> AdapterConfig" where
  "mapKafkaConfig cfg =
     \<lparr>ac_Brokers = cf_Brokers cfg, ac_GroupID = cf_GroupID cfg, ac_Topics = cf_Topics cfg,
      ac_Security = mapSecurityConfig cfg, ac_LagReportInterval = cf_LagReportInterval cfg\<rparr>"

definition dispatcher_config :: "Config \<Rightarrow> config" where
  "dispatcher_config cfg =
     \<lparr>dc_WorkerCount = cf_WorkerCount cfg, dc_ChannelCap = cf_ChannelCap cfg, dc_BatchSize = cf_BatchSize cfg,
      dc_LingerTime = cf_LingerTime cfg, dc_MaxRetries = cf_MaxRetries cfg,
      dc_CBMinRequests = cf_CBMinRequests cfg, dc_CBFailureThreshold = cf_CBFailureThreshold cfg,
      dc_CBOpenTimeout = cf_CBOpenTimeout cfg, dc_CBMaxRequests = cf_CBMaxRequests cfg,
      dc_CBInterval = cf_CBInterval cfg\<rparr>"

text \<open>The options the parts are given.\<close>

definition coordinator_wiring :: "logger \<Rightarrow> coordinatorOptions" where
  "coordinator_wiring logger =
     apply_options defaultCoordinatorOptions
       [offset_WithLogger (Some (component_logger ''offset-coordinator'' logger))]"

definition dlq_wiring :: "logger \<Rightarrow> dlqOptions" where
  "dlq_wiring logger =
     apply_options default_dlqOptions [WithDLQLogger (Some (component_logger ''dlq-producer'' logger))]"

definition dispatcher_wiring :: "DLQProducer option \<Rightarrow> dispatcher_metrics \<Rightarrow> logger \<Rightarrow> unorderedOptions" where
  "dispatcher_wiring dlq dm logger =
     apply_options defaultUnorderedOptions
       ([dispatcher_WithLogger (Some (component_logger ''dispatcher'' logger)), dispatcher_WithMetrics (Some dm)]
         @ (if dlq \<noteq> None then [WithDLQProducer dlq] else []))"

definition adapter_wiring :: "logger \<Rightarrow> adapterOptions" where
  "adapter_wiring logger =
     apply_options defaultAdapterOptions
       [adapter_WithLogger (Some (component_logger ''kafka-adapter'' logger)), WithLagMetrics (Some NewLagMetrics)]"

definition pollloop_wiring :: "logger \<Rightarrow> pollloop_options" where
  "pollloop_wiring logger =
     apply_options pollloop_defaultOptions
       [pollloop_WithLogger (Some (component_logger ''poll-loop'' logger)),
        pollloop_WithMetrics (Some NewPollLoopMetrics)]"

text \<open>Every part has its own logger and its metrics, and the dispatcher its producer if there is one.\<close>

lemma wired:
  "co_logger (coordinator_wiring l) = Some (component_logger ''offset-coordinator'' l)"
  "dlo_logger (dlq_wiring l) = Some (component_logger ''dlq-producer'' l)"
  "uo_logger (dispatcher_wiring dlq dm l) = Some (component_logger ''dispatcher'' l)"
  "uo_metrics (dispatcher_wiring dlq dm l) = Some dm" "uo_dlqProducer (dispatcher_wiring dlq dm l) = dlq"
  "ao_logger (adapter_wiring l) = Some (component_logger ''kafka-adapter'' l)"
  "ao_lagMetrics (adapter_wiring l) = Some NewLagMetrics"
  "po_logger (pollloop_wiring l) = Some (component_logger ''poll-loop'' l)"
  "po_metrics (pollloop_wiring l) = Some NewPollLoopMetrics"
  by (simp_all add: coordinator_wiring_def dlq_wiring_def dispatcher_wiring_def adapter_wiring_def
      pollloop_wiring_def coordinator_opts.logger_set dlq_opts.logger_set dispatcher_WithLogger_def
      dispatcher_WithMetrics_def WithDLQProducer_def defaultUnorderedOptions_def adapter_WithLogger_def
      WithLagMetrics_def pollloop_WithLogger_def pollloop_WithMetrics_def)

lemmas wired_metrics [simp] = wired(4,7,9)

definition createDispatcher ::
  "'p Consumer \<Rightarrow> coordinator \<Rightarrow> DLQProducer option \<Rightarrow> dispatcher_metrics \<Rightarrow> logger
    \<Rightarrow> panic + (go_error + dispatcher)"
where
  "createDispatcher c coord dlq dm logger =
     (let mode = cf_DispatchMode (c_cfg c); dispOpts = dispatcher_wiring dlq dm logger
      in if mode = Unordered
         then NewUnorderedDispatcher (dispatcher_config (c_cfg c)) (Some (c_processor c)) (Some coord)
                (uo_metrics dispOpts)
         else if mode = PartitionOrdered \<or> mode = KeyOrdered
         then Inr (Inl (ErrorString (''dispatch mode '' @ Quote (DispatchMode_String mode) @ '' is not yet implemented'')))
         else Inr (Inl (ErrorString (''unknown dispatch mode: '' @ FormatInt mode))))"

definition pollloop_config :: "Config \<Rightarrow> pl_config" where
  "pollloop_config cfg =
     \<lparr>pc_PollInterval = cf_PollInterval cfg, pc_CommitInterval = cf_CommitInterval cfg,
      pc_CommitFailureThreshold = cf_CommitFailureThreshold cfg, pc_ShutdownTimeout = cf_ShutdownTimeout cfg\<rparr>"

subsection \<open>Run\<close>

record run_env =
  re_fl :: "rat \<Rightarrow> rat"
  re_getenv :: "string \<Rightarrow> string option"
  re_setKey :: set_key
  re_newProducer :: "ConfigMap \<Rightarrow> go_error option"
  re_newConsumer :: "ConfigMap \<Rightarrow> go_error option"
  re_subscribe :: "string list \<Rightarrow> go_error option"
  re_registry :: "nat \<Rightarrow> registry"
  re_isGatherer :: "nat \<Rightarrow> bool"

datatype run_effect =
    Warn grace_warning
  | OpenProducer | CloseProducer
  | OpenConsumer | Kafka kafka_call
  | StartWorkers | StartServer "string \<times> nat \<times> logger" | StopServer | CancelRun

type_synonym run_result = "(panic + go_error option) option"

text \<open>
  Whether the deferred calls run: \<open>Run\<close> returns, or its own goroutine panics and unwinds its
  stack. Another goroutine's panic ends the process on the spot.
\<close>

fun defers_run :: "run_result \<Rightarrow> bool" where
  "defers_run None = False"
| "defers_run (Some (Inl (OtherGoroutine e))) = False"
| "defers_run _ = True"

text \<open>The registry's own metrics are served if it can gather them, and the default ones otherwise.\<close>

definition resolveGatherer :: "run_env \<Rightarrow> nat \<Rightarrow> nat" where
  "resolveGatherer env reg = (if re_isGatherer env reg then reg else o_registerer defaultOptions)"

definition server_wiring :: "run_env \<Rightarrow> 'p Consumer \<Rightarrow> logger \<Rightarrow> string \<times> nat \<times> logger" where
  "server_wiring env c logger =
     (cf_HealthAddr (c_cfg c), resolveGatherer env (o_registerer (c_opts c)), component_logger ''health-server'' logger)"

text \<open>The part of \<open>Run\<close> after the Kafka adapter has been created: steps 7 to 11.\<close>

definition run_assembled ::
  "run_env \<Rightarrow> 'w disp_ops \<Rightarrow> (dispatcher \<Rightarrow> 'w) \<Rightarrow> (event \<times> answers \<times> ('w \<Rightarrow> 'w)) list \<Rightarrow> 'p Consumer \<Rightarrow> logger
    \<Rightarrow> dispatcher \<Rightarrow> run_effect list \<times> run_result"
where
  "run_assembled env ops start evs c logger disp =
     (case NewPollLoop (pollloop_config (c_cfg c)) (Some ()) (Some (start disp)) (Some ()) (Some new_health)
             (po_metrics (pollloop_wiring logger)) of
        Inl err \<Rightarrow> ([Kafka KClose], Some (Inr (Some (Wrapped ''consumer: create poll loop: '' err))))
      | Inr pl \<Rightarrow>
          let serve = cf_HealthAddr (c_cfg c) \<noteq> '''';
              up = StartWorkers # (if serve then [StartServer (server_wiring env c logger)] else []);
              down = (if serve then [StopServer] else []) @ [CancelRun]
          in case pl_Run ops evs pl of
               None \<Rightarrow> (up, None)
             | Some (Inl e) \<Rightarrow> (up @ (if defers_run (Some (Inl e)) then down else []), Some (Inl e))
             | Some (Inr (err, pl')) \<Rightarrow>
                 (case do_Crash ops (pl_world pl') of
                    Some e \<Rightarrow> (up, Some (Inl (OtherGoroutine e)))
                  | None \<Rightarrow> (up @ map Kafka (pl_calls pl') @ down, Some (Inr err))))"

text \<open>The part after the dead-letter producer: steps 3 to 11.\<close>

definition run_with_dlq ::
  "run_env \<Rightarrow> 'w disp_ops \<Rightarrow> (dispatcher \<Rightarrow> 'w) \<Rightarrow> (event \<times> answers \<times> ('w \<Rightarrow> 'w)) list \<Rightarrow> 'p Consumer \<Rightarrow> logger
    \<Rightarrow> DLQProducer option \<Rightarrow> run_effect list \<times> run_result"
where
  "run_with_dlq env ops start evs c logger dlq =
     (case createDispatcher c NewCoordinator dlq NewDispatcherMetrics logger of
        Inl e \<Rightarrow> ([], Some (Inl e))
      | Inr (Inl err) \<Rightarrow> ([], Some (Inr (Some (Wrapped ''consumer: create dispatcher: '' err))))
      | Inr (Inr disp) \<Rightarrow>
          (case NewAdapter (re_setKey env) (re_newConsumer env) (re_subscribe env) (mapKafkaConfig (c_cfg c))
                  (Some ()) (ao_lagMetrics (adapter_wiring logger)) of
             (wasClosed, Inl err) \<Rightarrow>
               (if wasClosed then [OpenConsumer, Kafka KClose] else [],
                Some (Inr (Some (Wrapped ''consumer: create kafka adapter: '' err))))
           | (_, Inr adapter) \<Rightarrow>
               let (effects, result) = run_assembled env ops start evs c logger disp
               in (OpenConsumer # effects, result)))"

text \<open>The part after the metrics have been registered.\<close>

definition run_registered ::
  "run_env \<Rightarrow> 'w disp_ops \<Rightarrow> (dispatcher \<Rightarrow> 'w) \<Rightarrow> (event \<times> answers \<times> ('w \<Rightarrow> 'w)) list \<Rightarrow> 'p Consumer \<Rightarrow> logger
    \<Rightarrow> run_effect list \<times> run_result"
where
  "run_registered env ops start evs c logger =
     (let cfg = c_cfg c;
          warnings = map Warn (warnKubernetesGracePeriod (re_fl env) (re_getenv env) cfg)
      in if cf_DLQTopic cfg = ''''
         then let (effects, result) = run_with_dlq env ops start evs c logger None in (warnings @ effects, result)
         else case NewDLQProducer (re_setKey env) (re_newProducer env)
                     \<lparr>dl_Topic = cf_DLQTopic cfg, dl_Brokers = cf_Brokers cfg, dl_Security = mapSecurityConfig cfg\<rparr> of
                Inl err \<Rightarrow> (warnings, Some (Inr (Some (Wrapped ''consumer: create DLQ producer: '' err))))
              | Inr dlq \<Rightarrow>
                  let (effects, result) = run_with_dlq env ops start evs c logger (Some dlq)
                  in (warnings @ OpenProducer # effects @ (if defers_run result then [CloseProducer] else []), result))"

text \<open>A nil logger would be dereferenced by the first log line.\<close>

definition Consumer_Run ::
  "run_env \<Rightarrow> 'w disp_ops \<Rightarrow> (dispatcher \<Rightarrow> 'w) \<Rightarrow> (event \<times> answers \<times> ('w \<Rightarrow> 'w)) list \<Rightarrow> 'p Consumer
    \<Rightarrow> run_effect list \<times> run_result"
where
  "Consumer_Run env ops start evs c =
     (case register_metrics (re_registry env (o_registerer (c_opts c))) [] all_metrics of
        Inl e \<Rightarrow> ([], Some (Inl e))
      | Inr _ \<Rightarrow>
          (case o_logger (c_opts c) of
             None \<Rightarrow> ([], Some (Inl NilDereference))
           | Some logger \<Rightarrow> run_registered env ops start evs c logger))"

text \<open>The options a user can write; the type of the struct is not exported.\<close>

definition public_options :: "(options \<Rightarrow> options) list \<Rightarrow> bool" where
  "public_options opts \<longleftrightarrow> (\<forall>f\<in>set opts. f \<in> range WithLogger \<union> range WithMetrics)"

lemma New_logger:
  assumes "New cfg (Some p) opts = Inr c" and "public_options opts"
  shows "\<exists>l. o_logger (c_opts c) = Some l"
proof -
  have "consumer_opts.known f" if "f \<in> set opts" for f
    using assms(2) that by (auto simp: public_options_def consumer_opts.known_def)
  then have "o_logger (apply_options defaultOptions opts) \<noteq> None" by (rule consumer_opts.never_nil)
  then show ?thesis using assms(1) by (auto simp: New_def split: option.splits)
qed

subsection \<open>The Kafka consumer is closed once, at the end\<close>

lemma no_close_frames:
  "KClose \<in> set (pl_calls (kcall c pl)) \<longleftrightarrow> c = KClose \<or> KClose \<in> set (pl_calls pl)"
  "KClose \<in> set (pl_calls (pausePartition ans p pl)) \<longleftrightarrow> KClose \<in> set (pl_calls pl)"
  "KClose \<in> set (pl_calls (resumeAllPausedPartitions ans ord pl)) \<longleftrightarrow> KClose \<in> set (pl_calls pl)"
  "KClose \<in> set (pl_calls (enterDegradedMode ans r pl)) \<longleftrightarrow> KClose \<in> set (pl_calls pl)"
  "KClose \<in> set (pl_calls (exitDegradedMode ans r pl)) \<longleftrightarrow> KClose \<in> set (pl_calls pl)"
  "KClose \<in> set (pl_calls (poll_error pl)) \<longleftrightarrow> KClose \<in> set (pl_calls pl)"
  "KClose \<in> set (pl_calls (pl_OnPartitionsRevoked ops ans ps pl)) \<longleftrightarrow> KClose \<in> set (pl_calls pl)"
  by (auto simp: pollloop_defs poll_error_def revoked_eq split: sum.split option.split)

lemma no_close_rebalances:
  "handle_rebalances ops ans rs pl = Inr pl' \<Longrightarrow> KClose \<in> set (pl_calls pl') \<longleftrightarrow> KClose \<in> set (pl_calls pl)"
proof (induction rs arbitrary: pl)
  case (Cons r rs)
  show ?case
  proof (cases r)
    case (Assigned ps)
    then obtain pl1 where "pl_OnPartitionsAssigned ops ps pl = Inr pl1" "handle_rebalances ops ans rs pl1 = Inr pl'"
      using Cons.prems by (auto simp: go_bind_Inr_iff)
    moreover from this(1) have "pl_calls pl1 = pl_calls pl"
      by (auto simp: pl_OnPartitionsAssigned_def go_bind_Inr_iff)
    ultimately show ?thesis using Cons.IH [of pl1] by simp
  next
    case (Revoked ps)
    with Cons.IH Cons.prems show ?thesis by (simp add: no_close_frames)
  qed
qed simp

lemma no_close_dispatch:
  "dispatch_groups ops ans g ps pl = Inr pl' \<Longrightarrow> KClose \<in> set (pl_calls pl') \<longleftrightarrow> KClose \<in> set (pl_calls pl)"
proof (induction ps arbitrary: pl)
  case (Cons p ps)
  have "send_group ops ans p xs pl = Inr pl1 \<Longrightarrow> KClose \<in> set (pl_calls pl1) \<longleftrightarrow> KClose \<in> set (pl_calls pl)" for xs pl1
    by (auto simp: send_group_def go_bind_Inr_iff no_close_frames split: option.splits if_splits)
  with Cons show ?case
    unfolding dispatch_groups_Cons by (auto simp: go_bind_Inr_iff split: option.splits if_splits)
qed simp

lemma no_close_poll:
  assumes "poll ops ans rs ord pl = Inr pl'"
  shows "KClose \<in> set (pl_calls pl') \<longleftrightarrow> KClose \<in> set (pl_calls pl)"
  using assms
  by (cases "an_poll ans") (auto simp: poll_def Let_def go_bind_Inr_iff no_close_frames split: if_splits
      dest!: no_close_rebalances no_close_dispatch)

lemma no_close_commit:
  "KClose \<in> set (pl_calls (commitOffsets ops ans pl)) \<longleftrightarrow> KClose \<in> set (pl_calls pl)"
  by (auto simp: commitOffsets_def Let_def no_close_frames split: option.split)

lemma no_close_event:
  "run_event ops ev ans pl = Inr pl' \<Longrightarrow> KClose \<in> set (pl_calls pl') \<longleftrightarrow> KClose \<in> set (pl_calls pl)"
  using no_close_poll no_close_commit
  by (fastforce simp: run_event_def onDispatcherReady_def onCircuitStateChanged_def no_close_frames
      split: event.splits circuit_state.splits if_splits)

lemma no_close_events:
  "run_events ops evs pl = Inr pl' \<Longrightarrow> KClose \<in> set (pl_calls pl') \<longleftrightarrow> KClose \<in> set (pl_calls pl)"
proof (induction evs arbitrary: pl)
  case (Cons e evs)
  obtain ev ans f where e: "e = (ev, ans, f)" by (cases e)
  from Cons.prems obtain pl1 where "run_event ops ev ans (pl\<lparr>pl_world := f (pl_world pl)\<rparr>) = Inr pl1"
    "run_events ops evs pl1 = Inr pl'" by (auto simp: e go_bind_Inr_iff)
  with Cons.IH no_close_event show ?case by fastforce
qed simp

lemma pl_Run_closes_once:
  assumes "pl_Run ops evs pl = Some (Inr (err, pl'))" and "KClose \<notin> set (pl_calls pl)"
  shows "\<exists>calls. pl_calls pl' = calls @ [KClose] \<and> KClose \<notin> set calls"
proof -
  obtain evs1 ans others evs2 pl1 w where r: "run_events ops evs1 (started pl) = Inr pl1"
    "pl_calls pl' = pl_calls pl1
        @ (if do_Committable ops w = fmempty then [] else [KCommit (do_Committable ops w)]) @ [KClose]"
    using pl_Run_shutdown [OF assms(1)] by blast
  have "KClose \<notin> set (pl_calls pl1)"
    using no_close_events [OF r(1)] assms(2) by (simp add: started_def)
  with r(2) show ?thesis by (cases "do_Committable ops w = fmempty") auto
qed

subsection \<open>What a run leaves open\<close>

definition producer_effects :: "run_effect list \<Rightarrow> run_effect list" where
  "producer_effects = filter (\<lambda>e. e \<in> {OpenProducer, CloseProducer})"

definition consumer_effects :: "run_effect list \<Rightarrow> run_effect list" where
  "consumer_effects = filter (\<lambda>e. e \<in> {OpenConsumer, Kafka KClose})"

fun is_server_effect :: "run_effect \<Rightarrow> bool" where
  "is_server_effect (StartServer _) = True"
| "is_server_effect StopServer = True"
| "is_server_effect _ = False"

definition server_effects :: "run_effect list \<Rightarrow> run_effect list" where
  "server_effects = filter is_server_effect"

text \<open>The calls the Kafka consumer gets.\<close>

definition kafka_calls :: "run_effect list \<Rightarrow> kafka_call list" where
  "kafka_calls es = concat (map (\<lambda>e. case e of Kafka c \<Rightarrow> [c] | _ \<Rightarrow> []) es)"

lemma kafka_calls_simps [simp]:
  "kafka_calls [] = []" "kafka_calls (xs @ ys) = kafka_calls xs @ kafka_calls ys"
  "kafka_calls (e # es) = (case e of Kafka c \<Rightarrow> c # kafka_calls es | _ \<Rightarrow> kafka_calls es)"
  "kafka_calls (map Kafka cs) = cs" "kafka_calls (map Warn ws) = []"
proof -
  show "kafka_calls (map Kafka cs) = cs" by (induction cs) (simp_all add: kafka_calls_def)
  show "kafka_calls (map Warn ws) = []" by (induction ws) (simp_all add: kafka_calls_def)
qed (simp_all add: kafka_calls_def split: run_effect.split)

lemmas effects_defs = producer_effects_def consumer_effects_def server_effects_def

lemma effects_kafka [simp]:
  "producer_effects (map Kafka calls) = []" "server_effects (map Kafka calls) = []"
  "consumer_effects (map Kafka calls) = map Kafka (filter (\<lambda>c. c = KClose) calls)"
  by (induction calls) (auto simp: effects_defs)

lemma effects_append [simp]:
  "producer_effects (xs @ ys) = producer_effects xs @ producer_effects ys"
  "consumer_effects (xs @ ys) = consumer_effects xs @ consumer_effects ys"
  "server_effects (xs @ ys) = server_effects xs @ server_effects ys"
  by (simp_all add: effects_defs)

lemma effects_warn [simp]:
  "producer_effects (map Warn ws) = []" "consumer_effects (map Warn ws) = []"
  "server_effects (map Warn ws) = []"
  by (induction ws) (simp_all add: effects_defs)

lemma effects_Cons [simp]:
  "producer_effects (e # es) = (if e \<in> {OpenProducer, CloseProducer} then [e] else []) @ producer_effects es"
  "consumer_effects (e # es) = (if e \<in> {OpenConsumer, Kafka KClose} then [e] else []) @ consumer_effects es"
  "server_effects (e # es) = (if is_server_effect e then [e] else []) @ server_effects es"
  "producer_effects [] = []" "consumer_effects [] = []" "server_effects [] = []"
  by (simp_all add: effects_defs)

lemma run_assembled_effects:
  assumes "run_assembled env ops start evs c logger disp = (effects, Some (Inr err))"
  shows "producer_effects effects = [] \<and> consumer_effects effects = [Kafka KClose]
    \<and> server_effects effects \<in> {[], [StartServer (server_wiring env c logger), StopServer]}
    \<and> (StartWorkers \<in> set effects \<longrightarrow> CancelRun \<in> set effects)"
proof (cases "NewPollLoop (pollloop_config (c_cfg c)) (Some ()) (Some (start disp)) (Some ()) (Some new_health)
             (Some NewPollLoopMetrics)")
  case (Inl e)
  with assms show ?thesis by (auto simp: run_assembled_def)
next
  case (Inr pl)
  then have pl: "KClose \<notin> set (pl_calls pl)" by (auto simp: NewPollLoop_def)
  obtain pl' where r: "pl_Run ops evs pl = Some (Inr (err, pl'))"
    using assms Inr by (auto simp: run_assembled_def Let_def split: option.splits sum.splits)
  from pl_Run_closes_once [OF r pl] obtain calls where c: "pl_calls pl' = calls @ [KClose]" "KClose \<notin> set calls"
    by blast
  then have "filter (\<lambda>c. c = KClose) calls = []" by (auto simp: filter_empty_conv)
  with assms Inr r c(1) show ?thesis
    by (cases "cf_HealthAddr (c_cfg c) = []")
      (auto simp: run_assembled_def Let_def split: option.splits)
qed

lemma run_with_dlq_effects:
  assumes "run_with_dlq env ops start evs c logger dlq = (effects, Some (Inr err))"
  shows "producer_effects effects = [] \<and> consumer_effects effects \<in> {[], [OpenConsumer, Kafka KClose]}
    \<and> server_effects effects \<in> {[], [StartServer (server_wiring env c logger), StopServer]}
    \<and> (StartWorkers \<in> set effects \<longrightarrow> CancelRun \<in> set effects)"
proof (cases "\<exists>es. effects = OpenConsumer # es \<and> (\<exists>disp. run_assembled env ops start evs c logger disp = (es, Some (Inr err)))")
  case True
  then obtain es disp where "effects = OpenConsumer # es" "run_assembled env ops start evs c logger disp = (es, Some (Inr err))"
    by blast
  with run_assembled_effects [OF this(2)] show ?thesis by auto
next
  case False
  with assms have "effects = [] \<or> effects = [OpenConsumer, Kafka KClose]"
    by (auto simp: run_with_dlq_def split: sum.splits prod.splits if_splits)
  then show ?thesis by auto
qed

end
