(* ===== verification/Consumer_Lifecycle.thy ===== *)
theory Consumer_Lifecycle
  imports Concurrent_Loop Consumer_Run
begin

text \<open>
  The consumer over its goroutines: \<open>Consumer_Run\<close> with the dispatcher operations of
  \<open>Concurrent_Loop\<close>. A consumer with a validated configuration comes up when the client library
  and the registry accept what they are given, and ends in the state of a run of the poll loop
  or, at shutdown only, by the panic of a linger callback on the closed channel.
\<close>

subsection \<open>The parts of a validated consumer\<close>

lemma New_validated: "New cfg (Some p) opts = Inr c \<Longrightarrow> c_cfg c = cfg \<and> c_processor c = p \<and> Validate cfg = None"
  by (auto simp: New_def split: option.splits)

text \<open>The dispatcher a validated consumer creates does not depend on its processor.\<close>

lemma createDispatcher_starts:
  assumes "New cfg (Some p) opts = Inr c" and "cf_DispatchMode cfg = Unordered"
  shows "\<exists>d. createDispatcher c NewCoordinator dlq NewDispatcherMetrics logger = Inr (Inr d)
    \<and> conc_start (dispatcher_config cfg) sched = Some (launch sched d)"
proof -
  have c: "c_cfg c = cfg" and v: "Validate cfg = None" using New_validated [OF assms(1)] by auto
  have "0 \<le> dc_ChannelCap (dispatcher_config cfg)"
    using Validate_None [OF v] by (simp add: dispatcher_config_def)
  then show ?thesis
    using assms(2) c by (simp add: createDispatcher_def conc_start_def NewUnorderedDispatcher_def)
qed

lemma dispatcher_config_ok:
  "Validate cfg = None \<Longrightarrow> 0 < dc_BatchSize (dispatcher_config cfg) \<and> 0 \<le> dc_MaxRetries (dispatcher_config cfg)"
  using Validate_None [of cfg] by (simp add: dispatcher_config_def)

lemma pollloop_config_ok:
  "Validate cfg = None \<Longrightarrow> 0 < pc_PollInterval (pollloop_config cfg) \<and> 0 < pc_CommitInterval (pollloop_config cfg)"
  using Validate_None [of cfg] by (simp add: pollloop_config_def)

text \<open>
  How a run over the goroutines goes on and ends. Until the context ends it is a run of the
  poll loop in a live process; then it returns with the calls of such a run, or a linger
  callback has ended the process.
\<close>

definition ends_like ::
  "Config \<Rightarrow> label list list \<Rightarrow> int32 list \<Rightarrow> bool \<Rightarrow> (event \<times> answers \<times> label list) list
    \<Rightarrow> run_effect list \<Rightarrow> run_result \<Rightarrow> bool"
where
  "ends_like cfg sched ord late evs effects result \<longleftrightarrow>
     (result \<noteq> None \<longleftrightarrow> CtxDone \<in> fst ` set evs)
     \<and> (result = None \<longrightarrow> (\<exists>pl. conc_run (dispatcher_config cfg) sched (pollloop_config cfg) ord late evs pl
          \<and> s_crash (cw_sys (pl_world pl)) = None))
     \<and> (\<forall>r. result = Some r \<longrightarrow> r = Inl (OtherGoroutine SendOnClosedChannel) \<or> (\<exists>err pl. r = Inr err
          \<and> conc_run (dispatcher_config cfg) sched (pollloop_config cfg) ord late evs pl
          \<and> kafka_calls effects = pl_calls pl))"

lemma run_assembled_ends:
  assumes v: "Validate cfg = None" and c: "c_cfg c = cfg" and d: "conc_start (dispatcher_config cfg) sched = Some (launch sched d)"
    and ev: "\<forall>(ev, ans, ls)\<in>set evs. event_ok ev"
    and run: "run_assembled env (conc_ops ord late) (launch sched) (conc_events evs) c logger d = (effects, result)"
  shows "ends_like cfg sched ord late evs effects result"
proof -
  obtain pl where pl: "NewPollLoop (pollloop_config cfg) (Some ()) (Some (launch sched d)) (Some ())
      (Some new_health) (Some NewPollLoopMetrics) = Inr pl" by (simp add: NewPollLoop_def)
  note ok = dispatcher_config_ok [OF v] pollloop_config_ok [OF v]
  let ?r = "pl_Run (conc_ops ord late) (conc_events evs) pl"
  have total: "?r \<noteq> None \<longleftrightarrow> CtxDone \<in> fst ` set evs"
    "?r = Some (Inl e) \<Longrightarrow> e = OtherGoroutine SendOnClosedChannel"
    "CtxDone \<notin> fst ` set evs \<Longrightarrow> \<exists>pl'. run_events (conc_ops ord late) (conc_events evs) (started pl) = Inr pl'
        \<and> s_crash (cw_sys (pl_world pl')) = None" for e
    using conc_Run_total [OF d _ _ pl, where evs = evs and ord = ord and late = late] ok ev by blast+
  show ?thesis
  proof (cases ?r)
    case None
    with total(1,3) obtain pl' where "run_events (conc_ops ord late) (conc_events evs) (started pl) = Inr pl'"
      "s_crash (cw_sys (pl_world pl')) = None" by auto
    with conc_runI [OF d pl] ok have "\<exists>pl. conc_run (dispatcher_config cfg) sched (pollloop_config cfg) ord late evs pl
        \<and> s_crash (cw_sys (pl_world pl)) = None" by blast
    with None run pl c total(1) show ?thesis by (auto simp: run_assembled_def Let_def ends_like_def)
  next
    case (Some x)
    show ?thesis
    proof (cases x)
      case (Inl e)
      with Some run pl c total show ?thesis by (auto simp: run_assembled_def Let_def ends_like_def)
    next
      case (Inr y)
      obtain err pl' where x: "x = Inr (err, pl')" using Inr by (cases y) auto
      then have run': "conc_run (dispatcher_config cfg) sched (pollloop_config cfg) ord late evs pl'"
        unfolding conc_run_def using d pl ok Some by blast
      then have "conc_wf (pl_world pl')" using conc_run_backed by (simp add: commits_backed_def)
      then have "result = Some (Inl (OtherGoroutine SendOnClosedChannel))
          \<or> result = Some (Inr err) \<and> kafka_calls effects = pl_calls pl'"
        using run pl c Some x late_crash [of "pl_world pl'"]
        by (auto simp: run_assembled_def Let_def split: option.splits if_splits)
      with run' Some total(1) show ?thesis by (auto simp: ends_like_def)
    qed
  qed
qed

definition env_ok :: "run_env \<Rightarrow> bool" where
  "env_ok env \<longleftrightarrow> sets_key (re_setKey env) \<and> (\<forall>m. re_newProducer env m = None)
     \<and> (\<forall>m. re_newConsumer env m = None) \<and> (\<forall>ts. re_subscribe env ts = None)
     \<and> (\<forall>reg. register_metrics (re_registry env reg) [] all_metrics = Inr all_metrics)"

lemma adapter_created:
  assumes "env_ok env"
  shows "\<exists>a. NewAdapter (re_setKey env) (re_newConsumer env) (re_subscribe env) cfg (Some ()) lag = (False, Inr a)"
proof -
  have "\<exists>m. BuildConsumerConfig (re_setKey env) cfg = Inr m"
    using BuildConsumerConfig_lookup [of "re_setKey env" cfg] assms by (auto simp: env_ok_def)
  with assms show ?thesis by (auto simp: NewAdapter_def env_ok_def)
qed

lemma ends_like_frame:
  "ends_like cfg sched ord late evs effects result \<Longrightarrow> kafka_calls effects' = kafka_calls effects
    \<Longrightarrow> ends_like cfg sched ord late evs effects' result"
  by (simp add: ends_like_def)

lemma run_with_dlq_ends:
  assumes new: "New cfg (Some p) opts = Inr c" and mode: "cf_DispatchMode cfg = Unordered" and env: "env_ok env"
    and ev: "\<forall>(ev, ans, ls)\<in>set evs. event_ok ev"
    and run: "run_with_dlq env (conc_ops ord late) (launch sched) (conc_events evs) c logger dlq = (effects, result)"
  shows "ends_like cfg sched ord late evs effects result"
proof -
  have c: "c_cfg c = cfg" and v: "Validate cfg = None" using New_validated [OF new] by auto
  obtain d where d: "createDispatcher c NewCoordinator dlq NewDispatcherMetrics logger = Inr (Inr d)"
    "conc_start (dispatcher_config cfg) sched = Some (launch sched d)"
    using createDispatcher_starts [OF new mode] by blast
  obtain es r where e: "run_assembled env (conc_ops ord late) (launch sched) (conc_events evs) c logger d = (es, r)" by fastforce
  have "effects = OpenConsumer # es" "result = r"
    using run d(1) adapter_created [OF env, of "mapKafkaConfig cfg" "Some NewLagMetrics"] e c
    by (auto simp: run_with_dlq_def)
  with run_assembled_ends [OF v c d(2) ev e] show ?thesis by (simp add: ends_like_frame [of _ _ _ _ _ es])
qed

lemma dlq_created:
  assumes "env_ok env" and "Validate cfg = None" and "cf_DLQTopic cfg \<noteq> ''''"
  shows "\<exists>d. NewDLQProducer (re_setKey env) (re_newProducer env)
    \<lparr>dl_Topic = cf_DLQTopic cfg, dl_Brokers = cf_Brokers cfg, dl_Security = sec\<rparr> = Inr d"
proof -
  have "applySecurity (re_setKey env) sec m \<noteq> Inl e" for m e
    using applySecurity_lookup [of "re_setKey env" sec m] assms(1) by (auto simp: env_ok_def)
  then show ?thesis
    using assms Validate_None [OF assms(2)] by (auto simp: NewDLQProducer_def env_ok_def split: sum.split)
qed

text \<open>Every run of a validated consumer goes on and ends in this way.\<close>

lemma consumer_ends:
  assumes "New cfg (Some p) opts = Inr c" and "cf_DispatchMode cfg = Unordered" and "env_ok env"
    and "\<forall>(ev, ans, ls)\<in>set evs. event_ok ev" and "public_options opts"
    and "Consumer_Run env (conc_ops ord late) (launch sched) (conc_events evs) c = (effects, result)"
  shows "ends_like cfg sched ord late evs effects result"
proof -
  have c: "c_cfg c = cfg" and v: "Validate cfg = None" using New_validated [OF assms(1)] by auto
  obtain l where l: "o_logger (c_opts c) = Some l" using New_logger [OF assms(1,5)] by blast
  have reg: "Consumer_Run env (conc_ops ord late) (launch sched) (conc_events evs) c
      = run_registered env (conc_ops ord late) (launch sched) (conc_events evs) c l"
    using l assms(3) by (simp add: Consumer_Run_def env_ok_def)
  obtain es r dlq where e: "run_with_dlq env (conc_ops ord late) (launch sched) (conc_events evs) c l dlq = (es, r)"
    and er: "result = r" "kafka_calls effects = kafka_calls es"
    using assms(6) c dlq_created [OF assms(3) v, of "mapSecurityConfig cfg"] unfolding reg
    by (auto simp: run_registered_def Let_def split: if_splits prod.splits)
  from run_with_dlq_ends [OF assms(1-4) e] er show ?thesis by (simp add: ends_like_def)
qed

subsection \<open>Concrete inputs\<close>

definition sample_config :: Config where
  "sample_config = DefaultConfig\<lparr>cf_Brokers := [''localhost:9092''], cf_Topics := [''orders''],
     cf_GroupID := ''billing'', cf_DLQTopic := ''orders.dlq''\<rparr>"

definition sample_env :: run_env where
  "sample_env = \<lparr>re_fl = (\<lambda>x. x), re_getenv = (\<lambda>_. None), re_setKey = (\<lambda>k v m. Inr (fmupd k v m)),
     re_newProducer = (\<lambda>_. None), re_newConsumer = (\<lambda>_. None), re_subscribe = (\<lambda>_. None),
     re_registry = (\<lambda>_ held m. mt_Name m \<notin> mt_Name ` set held), re_isGatherer = (\<lambda>_. True)\<rparr>"

lemma sample_env_ok: "env_ok sample_env"
proof -
  have "by_name {} (re_registry sample_env reg)" for reg by (simp add: by_name_def sample_env_def)
  then have "register_metrics (re_registry sample_env reg) [] all_metrics = Inr all_metrics" for reg
    using register_all_metrics [of "{}"] find_None_iff [of "\<lambda>m. mt_Name m \<in> {}" all_metrics] by simp
  then show ?thesis by (simp add: env_ok_def) (simp add: sample_env_def sets_key_def)
qed


definition sample_consumer :: "unit Consumer" where
  "sample_consumer = \<lparr>c_cfg = sample_config, c_processor = (), c_opts = defaultOptions\<rparr>"

lemma sample_consumer_new: "New sample_config (Some ()) [] = Inr sample_consumer"
  by (simp add: New_def sample_consumer_def sample_config_def DefaultConfig_def Validate_def Security_Validate_def)

text \<open>With workers that have not left by the deadline of \<open>Close\<close>, \<open>Run\<close> returns its error.\<close>

lemma sample_consumer_returns:
  "snd (Consumer_Run sample_env (conc_ops [] False) (launch []) (conc_events [(CtxDone, sample_answers, [])])
     sample_consumer) = Some (Inr (Some (Sentinel ContextDeadlineExceeded)))"
  by code_simp

text \<open>
  Both outcomes of a shutdown are possible. One message is polled, its linger timer fires and
  the callback, the sixth goroutine, has passed the closed check when \<open>Close\<close> comes; it meets
  the closed channel while \<open>Close\<close> waits, or after \<open>Close\<close> has returned.
\<close>

definition lingering_events :: "(event \<times> answers \<times> label list) list" where
  "lingering_events = [(PollTick [] [0], sample_answers\<lparr>an_poll := Inr [demo_msg 7]\<rparr>, []),
     (CtxDone, sample_answers, [Fire 0, Act 5 [], Act 5 [], Act 5 []])]"

lemma sample_consumer_crashes:
  "Consumer_Run sample_env (conc_ops [] False) (launch [[], [], [], [], [Act 5 [], Act 5 []]])
     (conc_events lingering_events) sample_consumer
   = ([OpenProducer, OpenConsumer, StartWorkers, StartServer (server_wiring sample_env sample_consumer slog_Default)],
      Some (Inl (OtherGoroutine SendOnClosedChannel)))"
  "Consumer_Run sample_env (conc_ops [] False) (launch [[], [], [], [], [], [Act 5 [], Act 5 []]])
     (conc_events lingering_events) sample_consumer
   = ([OpenProducer, OpenConsumer, StartWorkers, StartServer (server_wiring sample_env sample_consumer slog_Default)],
      Some (Inl (OtherGoroutine SendOnClosedChannel)))"
  by code_simp+

end
