(* ===== verification/Bench_Support.thy ===== *)
theory Bench_Support
  imports Dispatcher_Concurrency Poll_Loop Metric_Registry Go_Strings
begin

text \<open>
  The helpers of the benchmarks, \<^verbatim>\<open>internal/benchutil/helpers.go\<close>: messages of one partition with
  consecutive offsets, processors that succeed at once or after a fixed time, and metrics on a
  registry of their own.
\<close>

definition bench_value :: "nat \<Rightarrow> bytes" where
  "bench_value n = map (\<lambda>i. word_of_nat (i mod 256)) [0..<n]"

definition bench_message :: "int32 \<Rightarrow> int \<Rightarrow> int \<Rightarrow> bytes \<Rightarrow> int \<Rightarrow> message" where
  "bench_message p n now value i =
     \<lparr>m_Topic = ''bench-topic'', m_Partition = p, m_Offset = word_of_int i, m_Key = Some (bytes_of ''key''),
      m_Value = Some value, m_Timestamp = now + wrap64 (- (n - i) * Millisecond), m_Headers = [], m_PolledAt = now\<rparr>"

definition bench_NewMessages :: "int \<Rightarrow> int32 \<Rightarrow> int \<Rightarrow> int \<Rightarrow> panic + message list" where
  "bench_NewMessages now p n valueSize =
     (if valueSize < 0 \<or> n < 0 then Inl MakeSliceNegative
      else Inr (map (bench_message p n now (bench_value (nat valueSize))) [0..n - 1]))"

definition NoopProcessor :: "message list \<Rightarrow> go_error option" where
  "NoopProcessor msgs = None"

text \<open>What happens first while the processor waits: the context ends or the timer fires.\<close>

datatype race = CtxEnds go_error | TimerFires

definition FixedLatencyProcessor :: "duration \<Rightarrow> race \<Rightarrow> message list \<Rightarrow> go_error option" where
  "FixedLatencyProcessor d r msgs =
     (if d \<le> 0 then None else case r of CtxEnds err \<Rightarrow> Some err | TimerFires \<Rightarrow> None)"

definition DiscardDispatcherMetrics :: "registry \<Rightarrow> panic + dispatcher_metrics" where
  "DiscardDispatcherMetrics newRegistry =
     go_bind (register_metrics newRegistry [] dispatcher_metric_opts) (\<lambda>_. Inr NewDispatcherMetrics)"

definition DiscardPollLoopMetrics :: "registry \<Rightarrow> panic + pollloop_metrics" where
  "DiscardPollLoopMetrics newRegistry =
     go_bind (register_metrics newRegistry [] pollloop_metric_opts) (\<lambda>_. Inr NewPollLoopMetrics)"

text \<open>A new registry takes them.\<close>

lemma discard_metrics:
  assumes "by_name {} newRegistry"
  shows "DiscardDispatcherMetrics newRegistry = Inr NewDispatcherMetrics"
    "DiscardPollLoopMetrics newRegistry = Inr NewPollLoopMetrics"
proof -
  have none: "find (\<lambda>m :: metric. mt_Name m \<in> {}) ms = None" for ms by (simp add: find_None_iff)
  have "distinct (map mt_Name dispatcher_metric_opts)" "distinct (map mt_Name pollloop_metric_opts)"
    using all_metrics_names(1) by (simp_all add: all_metrics_def)
  with register_by_name [OF assms, of "[]"] none
  show "DiscardDispatcherMetrics newRegistry = Inr NewDispatcherMetrics"
    "DiscardPollLoopMetrics newRegistry = Inr NewPollLoopMetrics"
    by (simp_all add: DiscardDispatcherMetrics_def DiscardPollLoopMetrics_def go_bind_def)
qed

subsection \<open>Properties\<close>

lemma upto_offsets:
  assumes "0 \<le> i" and "i < n" and "n < 2 ^ 63"
  shows "sint (word_of_int i :: int64) = i"
  using assms by (simp add: sint_sbintrunc' signed_take_bit_int_eq_self)

text \<open>
  The messages of a benchmark are in one partition, with the increasing offsets that the
  dispatcher's guarantees ask for, and each has a payload of the asked size.
\<close>

theorem bench_messages_ordered:
  assumes "bench_NewMessages now p n valueSize = Inr msgs" and "n < 2 ^ 63"
  shows "increasing msgs \<and> length msgs = nat n
    \<and> (\<forall>m\<in>set msgs. m_Partition m = p \<and> (\<exists>v. m_Value m = Some v \<and> length v = nat valueSize))"
proof -
  have ms: "msgs = map (bench_message p n now (bench_value (nat valueSize))) [0..n - 1]"
    using assms(1) by (simp add: bench_NewMessages_def split: if_splits)
  have "sorted_wrt (<) [0..n - 1]" by (rule sorted_wrt_upto)
  then have "sorted_wrt (\<lambda>i j. sint (word_of_int i :: int64) < sint (word_of_int j :: int64)) [0..n - 1]"
    by (rule sorted_wrt_mono_rel [rotated]) (use upto_offsets assms(2) in auto)
  then show ?thesis
    using upto_offsets assms(2) unfolding ms increasing_def
    by (auto simp: sorted_wrt_map bench_message_def bench_value_def)
qed

theorem bench_messages_ordered_witness:
  "\<exists>msgs. bench_NewMessages 0 3 4 16 = Inr msgs \<and> increasing msgs \<and> length msgs = 4"
proof -
  have ok: "bench_NewMessages 0 3 4 16 = Inr (map (bench_message 3 4 0 (bench_value (nat 16))) [0..4 - 1])"
    by (simp add: bench_NewMessages_def)
  from bench_messages_ordered [OF this] ok show ?thesis by auto
qed

end
