(* ===== verification/Example_Programs.thy ===== *)
theory Example_Programs
  imports Consumer_Lifecycle Bench_Support
begin

text \<open>
  The programs of \<^verbatim>\<open>examples\<close>: each makes a configuration, defines a processor, creates a consumer
  and runs it until a signal ends its context. What they print is not modelled. A processor is
  a function of the batch; the JSON decoder and the outcome of a wait are arguments.
\<close>

subsection \<open>The common end of the programs\<close>

text \<open>
  How \<open>main\<close> ends by itself. A panic, of the main goroutine or (\<open>OtherGoroutine\<close>) of another one
  that does not recover it, ends the program too: the left of the result of \<open>example_main\<close>.
\<close>

datatype exit = Stopped | CreateFailed go_error | RunFailed go_error

definition example_main ::
  "run_env \<Rightarrow> 'w disp_ops \<Rightarrow> (dispatcher \<Rightarrow> 'w) \<Rightarrow> (event \<times> answers \<times> ('w \<Rightarrow> 'w)) list
    \<Rightarrow> Config \<Rightarrow> 'p \<Rightarrow> (options \<Rightarrow> options) list \<Rightarrow> (panic + exit) option"
where
  "example_main env ops start evs cfg processor opts =
     (case New cfg (Some processor) opts of
        Inl err \<Rightarrow> Some (Inr (CreateFailed err))
      | Inr c \<Rightarrow>
          (case snd (Consumer_Run env ops start evs c) of
             None \<Rightarrow> None
           | Some (Inl e) \<Rightarrow> Some (Inl e)
           | Some (Inr (Some err)) \<Rightarrow> Some (Inr (RunFailed err))
           | Some (Inr None) \<Rightarrow> Some (Inr Stopped)))"

text \<open>The logger the programs make, and the topics and brokers they share.\<close>

definition text_logger :: logger where
  "text_logger = \<lparr>lg_handler = 1, lg_attrs = []\<rparr>"

definition local_config :: "string \<Rightarrow> Config" where
  "local_config groupID =
     DefaultConfig\<lparr>cf_Brokers := [''localhost:9092''], cf_Topics := [''example-events''], cf_GroupID := groupID\<rparr>"

subsection \<open>Basic\<close>

definition basic_config :: Config where
  "basic_config = local_config ''basic-example''"

definition basic_processor :: "message list \<Rightarrow> go_error option" where
  "basic_processor batch = None"

definition basic_main where
  "basic_main env ops start evs = example_main env ops start evs basic_config basic_processor []"

subsection \<open>Batch processing\<close>

definition batch_config :: Config where
  "batch_config = (local_config ''batch-example'')\<lparr>cf_BatchSize := 200, cf_LingerTime := 50 * Millisecond,
     cf_WorkerCount := 8, cf_ChannelCap := 500\<rparr>"

text \<open>It logs the first and the last offset, which panics for an empty batch.\<close>

definition batch_processor :: "message list \<Rightarrow> panic + go_error option" where
  "batch_processor batch = (if batch = [] then Inl IndexOutOfRange else Inr None)"

definition batch_main where
  "batch_main env ops start evs =
     example_main env ops start evs batch_config batch_processor [WithLogger (Some text_logger)]"

subsection \<open>Custom metrics\<close>

definition metrics_config :: Config where
  "metrics_config = (local_config ''metrics-example'')\<lparr>cf_HealthAddr := '':9090''\<rparr>"

definition eventsProcessed :: metric where
  "eventsProcessed = \<lparr>mt_Kind = Counter, mt_Name = ''app_events_processed_total'',
     mt_Help = ''Total events processed by type.'', mt_Labels = [''event_type'']\<rparr>"

definition metrics_processor :: "message list \<Rightarrow> (string \<Rightarrow> int) \<Rightarrow> (string \<Rightarrow> int) \<times> go_error option" where
  "metrics_processor batch counter =
     (fold (\<lambda>_ c. c(''unknown'' := c ''unknown'' + 1)) batch counter, None)"

text \<open>Registry 1 is the program's own; the counter is registered before the consumer's metrics.\<close>

definition metrics_main where
  "metrics_main env ops start evs =
     (case register_metrics (re_registry env 1) [] [eventsProcessed] of
        Inl e \<Rightarrow> Some (Inl e)
      | Inr own \<Rightarrow>
          example_main (env\<lparr>re_registry := (re_registry env)(1 := \<lambda>hs. re_registry env 1 (own @ hs))\<rparr>)
            ops start evs metrics_config metrics_processor [WithLogger (Some text_logger), WithMetrics (Some 1)])"

subsection \<open>Dead letters\<close>

record Event =
  ev_ID :: string
  ev_Type :: string
  ev_Data :: string

definition dlq_config :: Config where
  "dlq_config = (local_config ''dlq-example'')\<lparr>cf_DLQTopic := ''example-events-dlq'', cf_MaxRetries := 3\<rparr>"

definition message_place :: "message \<Rightarrow> string" where
  "message_place m = ''partition='' @ FormatInt (sint (m_Partition m)) @ '' offset='' @ FormatInt (sint (m_Offset m))"

fun dlq_processor :: "(bytes option \<Rightarrow> go_error + Event) \<Rightarrow> message list \<Rightarrow> go_error option" where
  "dlq_processor unmarshal [] = None"
| "dlq_processor unmarshal (m # ms) =
     (case unmarshal (m_Value m) of
        Inl err \<Rightarrow> Some (ErrNonRetryable (Some (Wrapped (''invalid JSON in message '' @ message_place m @ '': '') err)))
      | Inr event \<Rightarrow>
          if ev_Type event = ''''
          then Some (ErrNonRetryable (Some (ErrorString (''missing event type in message '' @ message_place m))))
          else dlq_processor unmarshal ms)"

definition dlq_main where
  "dlq_main unmarshal env ops start evs =
     example_main env ops start evs dlq_config (dlq_processor unmarshal) [WithLogger (Some text_logger)]"

subsection \<open>Graceful shutdown\<close>

definition shutdown_config :: Config where
  "shutdown_config = (local_config ''graceful-shutdown-example'')\<lparr>cf_ShutdownTimeout := 30 * Second\<rparr>"

definition shutdown_processor :: "race \<Rightarrow> message list \<Rightarrow> go_error option" where
  "shutdown_processor r batch = (case r of TimerFires \<Rightarrow> None | CtxEnds err \<Rightarrow> Some err)"

definition shutdown_main where
  "shutdown_main env ops start evs =
     example_main env ops start evs shutdown_config shutdown_processor [WithLogger (Some text_logger)]"

subsection \<open>Security\<close>

definition getEnvOrDefault :: "(string \<Rightarrow> string option) \<Rightarrow> string \<Rightarrow> string \<Rightarrow> string" where
  "getEnvOrDefault getenv key defaultValue =
     (let v = (case getenv key of None \<Rightarrow> '''' | Some s \<Rightarrow> s) in if v \<noteq> '''' then v else defaultValue)"

text \<open>\<open>strings.Split\<close> with a separator of one character\<close>

fun Split :: "char \<Rightarrow> string \<Rightarrow> string list" where
  "Split sep [] = ['''']"
| "Split sep (c # cs) =
     (if c = sep then '''' # Split sep cs
      else case Split sep cs of [] \<Rightarrow> [[c]] | s # ss \<Rightarrow> (c # s) # ss)"

definition security_config :: "(string \<Rightarrow> string option) \<Rightarrow> Config" where
  "security_config getenv =
     (let brokers = getEnvOrDefault getenv ''KAFKA_BROKERS'' ''localhost:9092'';
          username = getEnvOrDefault getenv ''KAFKA_USERNAME'' '''';
          password = getEnvOrDefault getenv ''KAFKA_PASSWORD'' '''';
          caFile = getEnvOrDefault getenv ''KAFKA_CA_FILE'' '''';
          tls = \<lparr>tls_CAFile = caFile, tls_CertFile = '''', tls_KeyFile = '''', tls_InsecureSkipVerify = False\<rparr>;
          cfg = DefaultConfig\<lparr>cf_Brokers := Split (CHR '','') brokers, cf_Topics := [''example-events''],
                  cf_GroupID := ''security-example''\<rparr>
      in if username \<noteq> '''' \<and> caFile \<noteq> ''''
         then cfg\<lparr>cf_Security := \<lparr>sec_Protocol = ProtocolSASLSSL, sec_TLS = Some tls,
                sec_SASL = Some \<lparr>sasl_Mechanism = SASLSCRAMSHA512, sasl_Username = username, sasl_Password = password,
                  sasl_OAuthBearerConfig = ''''\<rparr>\<rparr>\<rparr>
         else if caFile \<noteq> ''''
         then cfg\<lparr>cf_Security := \<lparr>sec_Protocol = ProtocolSSL, sec_TLS = Some tls, sec_SASL = None\<rparr>\<rparr>
         else cfg)"

definition security_main where
  "security_main env ops start evs =
     example_main env ops start evs (security_config (re_getenv env)) basic_processor [WithLogger (Some text_logger)]"

subsection \<open>The configurations are valid\<close>

lemmas config_defs = local_config_def basic_config_def batch_config_def metrics_config_def dlq_config_def
  shutdown_config_def DefaultConfig_def

lemma examples_valid:
  "Validate basic_config = None" "Validate batch_config = None" "Validate metrics_config = None"
  "Validate dlq_config = None" "Validate shutdown_config = None"
  by (simp_all add: config_defs Validate_def Security_Validate_def)

lemma examples_unordered:
  "cf_DispatchMode basic_config = Unordered" "cf_DispatchMode batch_config = Unordered"
  "cf_DispatchMode metrics_config = Unordered" "cf_DispatchMode dlq_config = Unordered"
  "cf_DispatchMode shutdown_config = Unordered" "cf_DispatchMode (security_config getenv) = Unordered"
  by (simp_all add: config_defs security_config_def Let_def)

lemma Split_nonempty: "Split sep s \<noteq> []"
  by (induction sep s rule: Split.induct) (simp_all split: list.split)

text \<open>The brokers are the pieces between the commas.\<close>

lemma Join_Split: "Join (Split sep s) [sep] = s"
proof (induction sep s rule: Split.induct)
  case (2 sep c cs)
  obtain t ts where s: "Split sep cs = t # ts" using Split_nonempty [of sep cs] by (cases "Split sep cs") auto
  with 2 show ?case by (cases ts) auto
qed simp

definition credentials_complete :: "(string \<Rightarrow> string option) \<Rightarrow> bool" where
  "credentials_complete getenv \<longleftrightarrow>
     (getEnvOrDefault getenv ''KAFKA_USERNAME'' '''' \<noteq> '''' \<and> getEnvOrDefault getenv ''KAFKA_CA_FILE'' '''' \<noteq> ''''
       \<longrightarrow> getEnvOrDefault getenv ''KAFKA_PASSWORD'' '''' \<noteq> '''')"

lemma security_valid: "Validate (security_config getenv) = None \<longleftrightarrow> credentials_complete getenv"
  by (simp add: security_config_def credentials_complete_def Let_def DefaultConfig_def Validate_def
      Security_Validate_def validateTLS_def validateSASL_def Split_nonempty)

subsection \<open>The programs run until the signal\<close>

text \<open>
  The program with configuration \<open>cfg\<close> runs until the signal: before it the process is alive in
  a run of the poll loop over the goroutines; after it \<open>main\<close> stops or reports the error of
  \<open>Run\<close>, unless a linger callback has met the channel that \<open>Close\<close> closed and ended the process.
\<close>

definition runs_until_signal ::
  "Config \<Rightarrow> label list list \<Rightarrow> int32 list \<Rightarrow> bool \<Rightarrow> (event \<times> answers \<times> label list) list
    \<Rightarrow> (panic + exit) option \<Rightarrow> bool"
where
  "runs_until_signal cfg sched ord late evs r \<longleftrightarrow> (r \<noteq> None \<longleftrightarrow> CtxDone \<in> fst ` set evs)
     \<and> (r = None \<longrightarrow> (\<exists>pl. conc_run (dispatcher_config cfg) sched (pollloop_config cfg) ord late evs pl
          \<and> s_crash (cw_sys (pl_world pl)) = None))
     \<and> r \<in> {None, Some (Inr Stopped), Some (Inl (OtherGoroutine SendOnClosedChannel))}
          \<union> range (Some \<circ> Inr \<circ> RunFailed)"

lemma main_runs:
  assumes "Validate cfg = None" and "cf_DispatchMode cfg = Unordered" and "env_ok env"
    and "\<forall>(ev, ans, ls)\<in>set evs. event_ok ev" and "public_options opts"
  shows "runs_until_signal cfg sched ord late evs
    (example_main env (conc_ops ord late) (launch sched) (conc_events evs) cfg p opts)"
proof -
  obtain c where c: "New cfg (Some p) opts = Inr c" using assms(1) by (simp add: New_def)
  obtain effects result where r: "Consumer_Run env (conc_ops ord late) (launch sched) (conc_events evs) c = (effects, result)"
    by fastforce
  from consumer_ends [OF c assms(2-5) r]
  have "result \<noteq> None \<longleftrightarrow> CtxDone \<in> fst ` set evs"
    "result = None \<longrightarrow> (\<exists>pl. conc_run (dispatcher_config cfg) sched (pollloop_config cfg) ord late evs pl
        \<and> s_crash (cw_sys (pl_world pl)) = None)"
    "\<forall>x. result = Some x \<longrightarrow> x = Inl (OtherGoroutine SendOnClosedChannel) \<or> (\<exists>err. x = Inr err)"
    by (auto simp: ends_like_def)
  with c r show ?thesis
    by (auto simp: example_main_def runs_until_signal_def split: option.splits sum.splits)
qed

lemma main_refused:
  "Validate cfg = Some err \<Longrightarrow> example_main env ops start evs cfg p opts = Some (Inr (CreateFailed err))"
  by (simp add: example_main_def New_def)

lemma logger_options: "public_options []" "public_options [WithLogger l]" "public_options [WithLogger l, WithMetrics reg]"
  by (simp_all add: public_options_def)

text \<open>The program with metrics of its own leaves room for the consumer's.\<close>

lemma own_registry:
  assumes "env_ok env" and "by_name {} (re_registry env 1)"
  shows "register_metrics (re_registry env 1) [] [eventsProcessed] = Inr [eventsProcessed]"
    and "env_ok (env\<lparr>re_registry := (re_registry env)(1 := \<lambda>hs. re_registry env 1 ([eventsProcessed] @ hs))\<rparr>)"
proof -
  show "register_metrics (re_registry env 1) [] [eventsProcessed] = Inr [eventsProcessed]"
    using assms(2) by (simp add: by_name_def)
  have "by_name {mt_Name eventsProcessed} (\<lambda>hs. re_registry env 1 ([eventsProcessed] @ hs))"
    using assms(2) by (auto simp: by_name_def)
  moreover have "list_all (\<lambda>m. mt_Name m \<noteq> mt_Name eventsProcessed) all_metrics" by code_simp
  ultimately have "register_metrics (\<lambda>hs. re_registry env 1 ([eventsProcessed] @ hs)) [] all_metrics = Inr all_metrics"
    using register_all_metrics [of "{mt_Name eventsProcessed}"] by (simp add: find_None_iff list_all_iff split: option.split)
  with assms(1) show "env_ok (env\<lparr>re_registry := (re_registry env)(1 := \<lambda>hs. re_registry env 1 ([eventsProcessed] @ hs))\<rparr>)"
    by (simp add: env_ok_def)
qed

text \<open>The messages the dead-letter example refuses.\<close>

definition bad_message :: "(bytes option \<Rightarrow> go_error + Event) \<Rightarrow> message \<Rightarrow> bool" where
  "bad_message unmarshal m = (case unmarshal (m_Value m) of Inl _ \<Rightarrow> True | Inr event \<Rightarrow> ev_Type event = [])"

lemma refusal_texts:
  "Error (ErrNonRetryable (Some (Wrapped (''invalid JSON in message '' @ message_place m @ '': '') err)))
     = ''non-retryable: invalid JSON in message '' @ message_place m @ '': '' @ Error err"
  "Error (ErrNonRetryable (Some (ErrorString (''missing event type in message '' @ message_place m))))
     = ''non-retryable: missing event type in message '' @ message_place m @ []"
  by simp_all

lemma dlq_processor_bad:
  "case find (bad_message unmarshal) ms of
     None \<Rightarrow> dlq_processor unmarshal ms = None
   | Some m \<Rightarrow> \<exists>e pre post. dlq_processor unmarshal ms = Some e \<and> IsNonRetryable e
       \<and> Error e = pre @ message_place m @ post"
proof (induction ms)
  case (Cons m ms)
  show ?case
  proof (cases "bad_message unmarshal m")
    case True
    have "\<exists>e pre post. dlq_processor unmarshal (m # ms) = Some e \<and> IsNonRetryable e
        \<and> Error e = pre @ message_place m @ post"
    proof (cases "unmarshal (m_Value m)")
      case (Inl err)
      then have "dlq_processor unmarshal (m # ms) = Some (ErrNonRetryable
          (Some (Wrapped (''invalid JSON in message '' @ message_place m @ '': '') err)))" by simp
      with refusal_texts(1) [of m err] IsNonRetryable.simps(1) show ?thesis by blast
    next
      case (Inr event)
      with True have "dlq_processor unmarshal (m # ms) = Some (ErrNonRetryable
          (Some (ErrorString (''missing event type in message '' @ message_place m))))"
        by (simp add: bad_message_def)
      with refusal_texts(2) [of m] IsNonRetryable.simps(1) show ?thesis by blast
    qed
    with True show ?thesis by simp
  next
    case False
    then have "dlq_processor unmarshal (m # ms) = dlq_processor unmarshal ms"
      by (auto simp: bad_message_def split: sum.splits)
    with Cons False show ?thesis by (simp del: dlq_processor.simps split: option.splits)
  qed
qed simp

subsection \<open>Properties\<close>

text \<open>
  C40: with a client library that accepts its settings and a registry that takes the consumer's
  metrics, every example program comes up and runs until a signal ends its context, whatever
  Kafka answers and however the goroutines interleave, then stops or reports what \<open>Run\<close>
  returned. A panic can end it in one way only, at shutdown: a linger callback that meets the
  channel \<open>Close\<close> has closed. The program with a fresh registry of its own runs too, because its
  metric and the consumer's have different names. The program with security settings is
  refused exactly when it has a user and a CA file and no password.
\<close>

theorem examples_run:
  assumes "env_ok env" and "by_name {} (re_registry env 1)" and "\<forall>(ev, ans, ls)\<in>set evs. event_ok ev"
  shows "runs_until_signal basic_config sched ord late evs (basic_main env (conc_ops ord late) (launch sched) (conc_events evs))
    \<and> runs_until_signal batch_config sched ord late evs (batch_main env (conc_ops ord late) (launch sched) (conc_events evs))
    \<and> runs_until_signal metrics_config sched ord late evs (metrics_main env (conc_ops ord late) (launch sched) (conc_events evs))
    \<and> runs_until_signal dlq_config sched ord late evs (dlq_main unmarshal env (conc_ops ord late) (launch sched) (conc_events evs))
    \<and> runs_until_signal shutdown_config sched ord late evs (shutdown_main env (conc_ops ord late) (launch sched) (conc_events evs))
    \<and> (if credentials_complete (re_getenv env)
       then runs_until_signal (security_config (re_getenv env)) sched ord late evs (security_main env (conc_ops ord late) (launch sched) (conc_events evs))
       else \<exists>err. security_main env (conc_ops ord late) (launch sched) (conc_events evs) = Some (Inr (CreateFailed err)))"
proof -
  note run = main_runs [OF _ _ assms(1,3)]
  have "runs_until_signal metrics_config sched ord late evs (metrics_main env (conc_ops ord late) (launch sched) (conc_events evs))"
    unfolding metrics_main_def own_registry(1) [OF assms(1,2)] sum.case
    by (rule main_runs [OF _ _ own_registry(2) [OF assms(1,2)] assms(3)])
      (simp_all add: examples_valid examples_unordered logger_options)
  moreover have "if credentials_complete (re_getenv env)
       then runs_until_signal (security_config (re_getenv env)) sched ord late evs (security_main env (conc_ops ord late) (launch sched) (conc_events evs))
       else \<exists>err. security_main env (conc_ops ord late) (launch sched) (conc_events evs) = Some (Inr (CreateFailed err))"
  proof (cases "credentials_complete (re_getenv env)")
    case True
    then show ?thesis
      unfolding security_main_def by (simp add: run security_valid examples_unordered logger_options)
  next
    case False
    then show ?thesis using security_valid main_refused by (fastforce simp: security_main_def)
  qed
  ultimately show ?thesis
    by (simp add: run basic_main_def batch_main_def dlq_main_def shutdown_main_def
        examples_valid examples_unordered logger_options)
qed

theorem examples_run_witness:
  "dlq_main (\<lambda>_. Inl (ErrorString ''x'')) sample_env (conc_ops [] False) (launch [])
     (conc_events [(CtxDone, sample_answers, [])]) \<noteq> None"
proof -
  have "by_name {} (re_registry sample_env 1)" "\<forall>(ev, ans, ls)\<in>set [(CtxDone, sample_answers, [])]. event_ok ev"
    by (simp_all add: by_name_def sample_env_def event_ok_def)
  from examples_run [OF sample_env_ok this, where sched = "[]" and ord = "[]" and late = False
      and unmarshal = "\<lambda>_. Inl (ErrorString ''x'')"]
  show ?thesis by (simp add: runs_until_signal_def)
qed

text \<open>
  What the dead-letter example does with a batch. The processor succeeds exactly when every
  message decodes to an event with a type. Its verdict is reached with the first attempt: the
  batch succeeds, or it is given up as non-retryable, without a retry or a backoff; a bad
  message takes the whole batch with it, and the error names the first bad message.
\<close>

theorem dlq_example_verdict:
  assumes "r_exec r = Ran (PReturn (dlq_processor unmarshal batch))"
  shows "retry_loop (cf_MaxRetries dlq_config) 0 None (r # rs) =
      Some ([EvExecute], case dlq_processor unmarshal batch of None \<Rightarrow> Success | Some e \<Rightarrow> NonRetryable e)
    \<and> (case find (bad_message unmarshal) batch of
         None \<Rightarrow> dlq_processor unmarshal batch = None
       | Some m \<Rightarrow> \<exists>e pre post. dlq_processor unmarshal batch = Some e \<and> IsNonRetryable e
           \<and> Error e = pre @ message_place m @ post)"
proof -
  note bad = dlq_processor_bad [of unmarshal batch]
  then have "dlq_processor unmarshal batch = Some e \<Longrightarrow> IsNonRetryable e" for e
    by (fastforce split: option.splits)
  then have "retry_loop (cf_MaxRetries dlq_config) 0 None (r # rs) =
      Some ([EvExecute], case dlq_processor unmarshal batch of None \<Rightarrow> Success | Some e \<Rightarrow> NonRetryable e)"
    using assms by (auto simp: logged_def cb_request_def dlq_config_def split: option.split)
  with bad show ?thesis by blast
qed

theorem dlq_example_verdict_witness:
  "retry_loop (cf_MaxRetries dlq_config) 0 None
     [\<lparr>r_backoff = TimerFired,
       r_exec = Ran (PReturn (dlq_processor (\<lambda>_. Inl (ErrorString ''unexpected end'')) [demo_msg 7])),
       r_hold = TimerFired, r_state = StateClosed\<rparr>]
     = Some ([EvExecute], NonRetryable (the (dlq_processor (\<lambda>_. Inl (ErrorString ''unexpected end'')) [demo_msg 7])))"
  using dlq_example_verdict [of "\<lparr>r_backoff = TimerFired,
       r_exec = Ran (PReturn (dlq_processor (\<lambda>_. Inl (ErrorString ''unexpected end'')) [demo_msg 7])),
       r_hold = TimerFired, r_state = StateClosed\<rparr>" "\<lambda>_. Inl (ErrorString ''unexpected end'')" "[demo_msg 7]" "[]"]
  by simp

text \<open>
  What the security example connects with. With a user and a CA file it uses TLS with a
  password mechanism, with a CA file alone TLS without authentication. Without a CA file it
  uses neither: a user and a password given without a CA file are ignored and the connection
  is not encrypted. The brokers are those of the variable, or the local one.
\<close>

theorem security_example_settings:
  "(let cfg = security_config getenv;
        user = getEnvOrDefault getenv ''KAFKA_USERNAME'' '''';
        ca = getEnvOrDefault getenv ''KAFKA_CA_FILE'' '''';
        sec = cf_Security cfg
    in Join (cf_Brokers cfg) '','' = getEnvOrDefault getenv ''KAFKA_BROKERS'' ''localhost:9092''
     \<and> sec_Protocol sec = (if ca = '''' then '''' else if user = '''' then ProtocolSSL else ProtocolSASLSSL)
     \<and> (sec_TLS sec \<noteq> None \<longleftrightarrow> ca \<noteq> '''')
     \<and> map_option sasl_Username (sec_SASL sec) = (if ca \<noteq> '''' \<and> user \<noteq> '''' then Some user else None)
     \<and> (k_SASL (mapSecurityConfig cfg) = None \<longleftrightarrow> ca = '''' \<or> user = ''''))"
  by (simp add: security_config_def Let_def Join_Split mapSecurityConfig_def DefaultConfig_def)

text \<open>
  The processors of the examples in the hands of the workers. The batch example, which reads
  the first and last message, gets no empty batch in any run of the poll loop over the
  goroutines, so it does not panic.
\<close>

theorem batch_example_never_panics:
  assumes "conc_run dcfg sched cfg ord late evs pl" and "W_Run b \<in> set (s_threads (cw_sys (pl_world pl)))"
  shows "batch_processor (b_messages b) = Inr None"
  using working_batch [OF assms] by (simp add: batch_processor_def)

theorem batch_example_never_panics_witness:
  "batch_processor (b_messages (batch_of 0 [demo_msg 7, demo_msg 8])) = Inr None"
  using demo_working batch_example_never_panics by blast

text \<open>
  A batch that the shutdown example breaks off because its context has ended is abandoned
  before a second attempt: the dispatcher's state does not change, so the batch is neither
  completed nor sent to the dead-letter topic, and its messages are delivered again.
\<close>

theorem interrupted_batch_redelivered:
  assumes "r_exec r1 = Ran (PReturn (shutdown_processor (CtxEnds (Sentinel ContextCanceled)) (b_messages b)))"
    and "r_backoff r2 = ContextDone (Sentinel ContextCanceled)"
    and "d_cfg d = dispatcher_config shutdown_config"
  shows "processBatch dlq visit start now (r1 # r2 # rs) b d = Some (Inr d)"
  using assms by (simp add: processBatch_def shutdown_processor_def logged_def cb_request_def
      circuit_open_error_def dispatcher_config_def config_defs)

theorem interrupted_batch_redelivered_witness:
  "\<exists>d. NewUnorderedDispatcher (dispatcher_config shutdown_config) (Some ()) (Some NewCoordinator)
         (Some NewDispatcherMetrics) = Inr (Inr d)
     \<and> processBatch None [] 0 0 [round_ok\<lparr>r_exec := Ran (PReturn (Some (Sentinel ContextCanceled)))\<rparr>,
           round_ok\<lparr>r_backoff := ContextDone (Sentinel ContextCanceled)\<rparr>] (batch_of 0 [demo_msg 7]) d = Some (Inr d)"
proof -
  obtain d where d: "NewUnorderedDispatcher (dispatcher_config shutdown_config) (Some ()) (Some NewCoordinator)
      (Some NewDispatcherMetrics) = Inr (Inr d)" "d_cfg d = dispatcher_config shutdown_config"
    by (simp add: NewUnorderedDispatcher_def dispatcher_config_def config_defs)
  let ?r1 = "round_ok\<lparr>r_exec := Ran (PReturn (Some (Sentinel ContextCanceled)))\<rparr>"
  have "r_exec ?r1 = Ran (PReturn (shutdown_processor (CtxEnds (Sentinel ContextCanceled))
      (b_messages (batch_of 0 [demo_msg 7]))))" by (simp add: shutdown_processor_def)
  from interrupted_batch_redelivered [OF this _ d(2)] d(1) show ?thesis by simp
qed

end
