(* ===== verification/Test_Cluster.thy ===== *)
theory Test_Cluster
  imports Kafka_Adapter DLQ_Producer
begin

text \<open>
  The test cluster of the integration tests, \<^verbatim>\<open>internal/kafkatest\<close>: messages and topics for tests,
  and the helpers that produce to, read from and inspect a broker in a container.

  The container library, the Kafka client and the clock are arguments: what their calls return,
  and for a loop that polls, the list of its rounds with the time at which each begins. \<open>None\<close> is
  a loop that has used up its rounds and has not returned. A fatal failure of a test is the
  text given to \<open>t.Fatalf\<close>. The literals of the container request are not modelled.
\<close>

subsection \<open>Messages\<close>

record ProduceMessage =
  pr_Key :: "bytes option"
  pr_Value :: "bytes option"
  pr_Headers :: "header list"

definition test_NewMessages :: "int \<Rightarrow> (int \<Rightarrow> bytes option) \<Rightarrow> panic + ProduceMessage list" where
  "test_NewMessages n valueFn =
     (if n < 0 then Inl MakeSliceNegative
      else Inr (map (\<lambda>i. \<lparr>pr_Key = Some (bytes_of (''key-'' @ FormatInt (i mod 10))), pr_Value = valueFn i,
                          pr_Headers = []\<rparr>) [0..n - 1]))"

record ConsumedMessage =
  cm_Topic :: string
  cm_Partition :: int32
  cm_Offset :: int64
  cm_Key :: "bytes option"
  cm_Value :: "bytes option"
  cm_Headers :: "header list"

subsection \<open>The cluster\<close>

record Cluster =
  cl_container :: "nat option"
  cl_brokers :: string

datatype ready_attempt = AdminFailed | Metadata "go_error + nat"

fun wait_rounds :: "string \<Rightarrow> int \<Rightarrow> (int \<times> ready_attempt) list \<Rightarrow> go_error option option" where
  "wait_rounds brokers deadline [] = None"
| "wait_rounds brokers deadline ((now, attempt) # rounds) =
     (if now < deadline
      then case attempt of
             AdminFailed \<Rightarrow> wait_rounds brokers deadline rounds
           | Metadata (Inr n) \<Rightarrow> if 0 < n then Some None else wait_rounds brokers deadline rounds
           | Metadata (Inl _) \<Rightarrow> wait_rounds brokers deadline rounds
      else Some (Some (ErrorString (''kafkatest: timeout waiting for broker at '' @ brokers))))"

definition waitReady :: "Cluster \<Rightarrow> int \<Rightarrow> (int \<times> ready_attempt) list \<Rightarrow> go_error option option" where
  "waitReady c now rounds = wait_rounds (cl_brokers c) (now + 30 * Second) rounds"

record container_answers =
  ca_create :: "go_error + nat"
  ca_Host :: "go_error + string"
  ca_MappedPort :: "go_error + string"

text \<open>The hook that tells the broker its port; \<open>exec\<close> runs a command in the container.\<close>

definition post_start :: "(go_error + string) \<Rightarrow> (string list \<Rightarrow> go_error option) \<Rightarrow> go_error option" where
  "post_start mappedPort exec =
     (case mappedPort of
        Inl err \<Rightarrow> Some (Wrapped ''get mapped port: '' err)
      | Inr port \<Rightarrow> exec [''sh'', ''-c'', ''echo '' @ port @ '' > /tmp/external_port''])"

text \<open>The boolean says whether the container was terminated again.\<close>

definition cluster_Start ::
  "container_answers \<Rightarrow> int \<Rightarrow> (int \<times> ready_attempt) list \<Rightarrow> (bool \<times> (go_error + Cluster)) option"
where
  "cluster_Start ans now rounds =
     (case ca_create ans of
        Inl err \<Rightarrow> Some (False, Inl (Wrapped ''start kafka container: '' err))
      | Inr container \<Rightarrow>
          (case ca_Host ans of
             Inl err \<Rightarrow> Some (True, Inl (Wrapped ''get container host: '' err))
           | Inr host \<Rightarrow>
               (case ca_MappedPort ans of
                  Inl err \<Rightarrow> Some (True, Inl (Wrapped ''get mapped port: '' err))
                | Inr port \<Rightarrow>
                    let cluster = \<lparr>cl_container = Some container, cl_brokers = host @ '':'' @ port\<rparr>
                    in case waitReady cluster now rounds of
                         None \<Rightarrow> None
                       | Some (Some err) \<Rightarrow> Some (True, Inl err)
                       | Some None \<Rightarrow> Some (False, Inr cluster))))"

definition cluster_Terminate :: "(nat \<Rightarrow> go_error option) \<Rightarrow> Cluster \<Rightarrow> go_error option" where
  "cluster_Terminate terminate c = (case cl_container c of None \<Rightarrow> None | Some k \<Rightarrow> terminate k)"

subsection \<open>Topics and offsets\<close>

definition CreateTopic ::
  "go_error option \<Rightarrow> (string \<Rightarrow> int \<Rightarrow> go_error + go_error option list) \<Rightarrow> string \<Rightarrow> int \<Rightarrow> go_error option"
where
  "CreateTopic newAdmin createTopics topic partitions =
     (case newAdmin of
        Some err \<Rightarrow> Some (Wrapped ''create admin client: '' err)
      | None \<Rightarrow>
          (case createTopics topic partitions of
             Inl err \<Rightarrow> Some (Wrapped (''create topic '' @ Quote topic @ '': '') err)
           | Inr results \<Rightarrow>
               map_option (Wrapped (''create topic '' @ Quote topic @ '': ''))
                 (Option.bind (find (\<lambda>r. r \<noteq> None) results) (\<lambda>r. r))))"

definition committed_map :: "TopicPartition list \<Rightarrow> (int32, int64) fmap" where
  "committed_map tps =
     fold (\<lambda>tp result. if 0 \<le> sint (tp_Offset tp) then fmupd (tp_Partition tp) (tp_Offset tp) result else result)
       tps fmempty"

definition CommittedOffsets ::
  "go_error option \<Rightarrow> (TopicPartition list \<Rightarrow> go_error + TopicPartition list) \<Rightarrow> string \<Rightarrow> int
    \<Rightarrow> panic + (go_error + (int32, int64) fmap)"
where
  "CommittedOffsets newConsumer committed topic partitions =
     (case newConsumer of
        Some err \<Rightarrow> Inr (Inl (Wrapped ''create consumer for offset check: '' err))
      | None \<Rightarrow>
          if partitions < 0 then Inl MakeSliceNegative
          else Inr (case committed (map (\<lambda>i. \<lparr>tp_Topic = Some topic, tp_Partition = word_of_int i, tp_Offset = 0\<rparr>)
                           [0..partitions - 1]) of
                      Inl err \<Rightarrow> Inl (Wrapped ''get committed offsets: '' err)
                    | Inr tps \<Rightarrow> Inr (committed_map tps)))"

fun add_watermarks ::
  "(int32 \<Rightarrow> go_error + int64 \<times> int64) \<Rightarrow> string \<Rightarrow> int list \<Rightarrow> int64 \<Rightarrow> go_error + int64"
where
  "add_watermarks query topic [] acc = Inr acc"
| "add_watermarks query topic (i # is) acc =
     (case query (word_of_int i) of
        Inl err \<Rightarrow> Inl (Wrapped (''query watermark for '' @ topic @ ''['' @ FormatInt i @ '']: '') err)
      | Inr (low, high) \<Rightarrow> add_watermarks query topic is (acc + high))"

definition TopicMessageCount ::
  "go_error option \<Rightarrow> (int32 \<Rightarrow> go_error + int64 \<times> int64) \<Rightarrow> string \<Rightarrow> int \<Rightarrow> go_error + int64"
where
  "TopicMessageCount newConsumer query topic partitions =
     (case newConsumer of
        Some err \<Rightarrow> Inl (Wrapped ''create consumer for message count: '' err)
      | None \<Rightarrow> add_watermarks query topic [0..partitions - 1] 0)"

subsection \<open>Producing and consuming\<close>

definition test_message :: "string \<Rightarrow> ProduceMessage \<Rightarrow> kafka_message" where
  "test_message topic m =
     \<lparr>km_TopicPartition = \<lparr>tp_Topic = Some topic, tp_Partition = PartitionAny, tp_Offset = 0\<rparr>,
      km_Key = pr_Key m, km_Value = pr_Value m, km_Timestamp = 0,
      km_Headers = map (\<lambda>h. \<lparr>h_Key = h_Key h, h_Value = h_Value h\<rparr>) (pr_Headers m)\<rparr>"

fun test_enqueue ::
  "(nat \<Rightarrow> kafka_message \<Rightarrow> go_error option) \<Rightarrow> string \<Rightarrow> nat \<Rightarrow> ProduceMessage list
    \<Rightarrow> go_error option \<times> kafka_message list"
where
  "test_enqueue enqueue topic i [] = (None, [])"
| "test_enqueue enqueue topic i (m # ms) =
     (case enqueue i (test_message topic m) of
        Some err \<Rightarrow> (Some (Wrapped ''enqueue message: '' err), [])
      | None \<Rightarrow> let (err, sent) = test_enqueue enqueue topic (Suc i) ms in (err, test_message topic m # sent))"

fun await_delivered :: "nat \<Rightarrow> nat \<Rightarrow> wait_event list \<Rightarrow> (nat \<times> go_error option) option" where
  "await_delivered 0 delivered evs = Some (delivered, None)"
| "await_delivered (Suc n) delivered [] = None"
| "await_delivered (Suc n) delivered (Canceled err # evs) = Some (delivered, Some err)"
| "await_delivered (Suc n) delivered (Report (Some err) # evs) =
     Some (delivered, Some (Wrapped ''delivery failed: '' err))"
| "await_delivered (Suc n) delivered (Report None # evs) = await_delivered n (Suc delivered) evs"

definition test_Produce ::
  "go_error option \<Rightarrow> (nat \<Rightarrow> kafka_message \<Rightarrow> go_error option) \<Rightarrow> wait_event list \<Rightarrow> string
    \<Rightarrow> ProduceMessage list \<Rightarrow> kafka_message list \<times> (nat \<times> go_error option) option"
where
  "test_Produce newProducer enqueue evs topic msgs =
     (case newProducer of
        Some err \<Rightarrow> ([], Some (0, Some (Wrapped ''create producer: '' err)))
      | None \<Rightarrow>
          (case test_enqueue enqueue topic 0 msgs of
             (Some err, sent) \<Rightarrow> (sent, Some (0, Some err))
           | (None, sent) \<Rightarrow> (sent, await_delivered (length msgs) 0 evs)))"

definition consumed :: "kafka_message \<Rightarrow> panic + ConsumedMessage" where
  "consumed km =
     (case tp_Topic (km_TopicPartition km) of
        None \<Rightarrow> Inl NilDereference
      | Some topic \<Rightarrow> Inr
          \<lparr>cm_Topic = topic, cm_Partition = tp_Partition (km_TopicPartition km),
           cm_Offset = tp_Offset (km_TopicPartition km), cm_Key = km_Key km, cm_Value = km_Value km,
           cm_Headers = map (\<lambda>h. \<lparr>h_Key = h_Key h, h_Value = h_Value h\<rparr>) (km_Headers km)\<rparr>)"

text \<open>\<open>timedOut\<close> recognizes the code of a time-out.\<close>

fun consume_loop ::
  "(string \<Rightarrow> bool) \<Rightarrow> int \<Rightarrow> int \<Rightarrow> (int \<times> kafka_event option) list \<Rightarrow> ConsumedMessage list
    \<Rightarrow> (panic + ConsumedMessage list \<times> go_error option) option"
where
  "consume_loop timedOut maxMessages deadline rounds msgs =
     (if int (length msgs) < maxMessages
      then case rounds of
             [] \<Rightarrow> None
           | (now, ev) # rest \<Rightarrow>
               if now < deadline
               then (case ev of
                       Some (EvMessage km) \<Rightarrow>
                         (case consumed km of
                            Inl e \<Rightarrow> Some (Inl e)
                          | Inr cm \<Rightarrow> consume_loop timedOut maxMessages deadline rest (msgs @ [cm]))
                     | Some (EvError code err) \<Rightarrow>
                         if timedOut code then consume_loop timedOut maxMessages deadline rest msgs
                         else Some (Inr (msgs, Some (Wrapped ''consumer error: '' err)))
                     | _ \<Rightarrow> consume_loop timedOut maxMessages deadline rest msgs)
               else Some (Inr (msgs, None))
      else Some (Inr (msgs, None)))"

declare consume_loop.simps [simp del]

definition ConsumeAll ::
  "go_error option \<Rightarrow> (string \<Rightarrow> go_error option) \<Rightarrow> (string \<Rightarrow> bool) \<Rightarrow> string \<Rightarrow> int \<Rightarrow> int \<Rightarrow> duration
    \<Rightarrow> (int \<times> kafka_event option) list \<Rightarrow> (panic + ConsumedMessage list \<times> go_error option) option"
where
  "ConsumeAll newConsumer subscribe timedOut topic maxMessages now timeout rounds =
     (case newConsumer of
        Some err \<Rightarrow> Some (Inr ([], Some (Wrapped ''create consumer: '' err)))
      | None \<Rightarrow>
          (case subscribe topic of
             Some err \<Rightarrow> Some (Inr ([], Some (Wrapped (''subscribe to '' @ Quote topic @ '': '') err)))
           | None \<Rightarrow> consume_loop timedOut maxMessages (now + timeout) rounds []))"

subsection \<open>Wrappers for tests\<close>

definition fatal :: "string \<Rightarrow> go_error + 'a \<Rightarrow> string + 'a" where
  "fatal prefix r = (case r of Inl err \<Rightarrow> Inl (prefix @ Error err) | Inr x \<Rightarrow> Inr x)"

definition of_error :: "go_error option \<Rightarrow> go_error + unit" where
  "of_error e = (case e of None \<Rightarrow> Inr () | Some err \<Rightarrow> Inl err)"

definition CreateTopicT ::
  "go_error option \<Rightarrow> (string \<Rightarrow> int \<Rightarrow> go_error + go_error option list) \<Rightarrow> string \<Rightarrow> int \<Rightarrow> string + unit"
where
  "CreateTopicT newAdmin createTopics topic partitions =
     fatal ''kafkatest: '' (of_error (CreateTopic newAdmin createTopics topic partitions))"

definition CommittedOffsetsT ::
  "go_error option \<Rightarrow> (TopicPartition list \<Rightarrow> go_error + TopicPartition list) \<Rightarrow> string \<Rightarrow> int
    \<Rightarrow> panic + (string + (int32, int64) fmap)"
where
  "CommittedOffsetsT newConsumer committed topic partitions =
     go_bind (CommittedOffsets newConsumer committed topic partitions) (\<lambda>r. Inr (fatal ''kafkatest: '' r))"

definition TopicMessageCountT ::
  "go_error option \<Rightarrow> (int32 \<Rightarrow> go_error + int64 \<times> int64) \<Rightarrow> string \<Rightarrow> int \<Rightarrow> string + int64"
where
  "TopicMessageCountT newConsumer query topic partitions =
     fatal ''kafkatest: '' (TopicMessageCount newConsumer query topic partitions)"

definition ProduceT ::
  "go_error option \<Rightarrow> (nat \<Rightarrow> kafka_message \<Rightarrow> go_error option) \<Rightarrow> wait_event list \<Rightarrow> string
    \<Rightarrow> ProduceMessage list \<Rightarrow> (string + nat) option"
where
  "ProduceT newProducer enqueue evs topic msgs =
     map_option (\<lambda>(n, err). fatal (''kafkatest: produce to '' @ Quote topic @ '': '')
         (case err of None \<Rightarrow> Inr n | Some e \<Rightarrow> Inl e))
       (snd (test_Produce newProducer enqueue evs topic msgs))"

definition StartT :: "container_answers \<Rightarrow> int \<Rightarrow> (int \<times> ready_attempt) list \<Rightarrow> (string + Cluster) option" where
  "StartT ans now rounds =
     map_option (\<lambda>(_, r). fatal ''kafkatest: start cluster: '' r) (cluster_Start ans now rounds)"

lemma header_copy [simp]: "map (\<lambda>h. \<lparr>h_Key = h_Key h, h_Value = h_Value h\<rparr>) hs = hs"
  by (induction hs) simp_all

subsection \<open>What the helpers report\<close>

lemma committed_map_lookup:
  "fmlookup (committed_map tps) p =
     map_option tp_Offset (find (\<lambda>tp. tp_Partition tp = p \<and> 0 \<le> sint (tp_Offset tp)) (rev tps))"
proof (induction tps rule: rev_induct)
  case Nil
  then show ?case by (simp add: committed_map_def)
next
  case (snoc tp tps)
  then show ?case by (auto simp: committed_map_def)
qed

lemma add_watermarks_sum:
  "(\<And>i. i \<in> set is \<Longrightarrow> query (word_of_int i) = Inr (low i, high i))
    \<Longrightarrow> add_watermarks query topic is acc = Inr (acc + sum_list (map high is))"
  by (induction "is" arbitrary: acc) (simp_all add: add.assoc)

lemma await_delivered_all:
  "await_delivered n d evs = Some (k, None) \<longleftrightarrow>
     k = d + n \<and> n \<le> length evs \<and> (\<forall>i<n. evs ! i = Report None)"
proof (induction n d evs rule: await_delivered.induct)
  case (5 n d evs)
  then show ?case by (auto simp: All_less_Suc2)
qed (auto simp: All_less_Suc2)

text \<open>The messages of a test have at most ten keys: message \<open>i\<close> has that of message \<open>i + 10\<close>.\<close>

lemma test_keys_repeat:
  assumes "test_NewMessages n valueFn = Inr ms" and "0 \<le> i" and "i + 10 < n"
  shows "pr_Key (ms ! nat (i + 10)) = pr_Key (ms ! nat i)"
  using assms by (auto simp: test_NewMessages_def split: if_splits)

subsection \<open>Waiting for the broker\<close>

definition responds :: "ready_attempt \<Rightarrow> bool" where
  "responds a = (case a of Metadata (Inr n) \<Rightarrow> 0 < n | _ \<Rightarrow> False)"

lemma wait_rounds_find:
  "wait_rounds brokers deadline rounds =
     map_option (\<lambda>(now, _). if now < deadline then None
         else Some (ErrorString (''kafkatest: timeout waiting for broker at '' @ brokers)))
       (find (\<lambda>(now, a). now < deadline \<longrightarrow> responds a) rounds)"
proof (induction rounds)
  case (Cons r rounds)
  obtain now a where "r = (now, a)" by fastforce
  with Cons show ?case by (auto simp: responds_def split: ready_attempt.split sum.split)
qed simp

subsection \<open>Reading a topic back\<close>

text \<open>
  Rounds after which the helper polls again: nothing arrived, a message, a time-out, or an event
  it does not know.
\<close>

definition read_on :: "(string \<Rightarrow> bool) \<Rightarrow> kafka_event option \<Rightarrow> bool" where
  "read_on timedOut ev =
     (case ev of
        Some (EvMessage km) \<Rightarrow> tp_Topic (km_TopicPartition km) \<noteq> None
      | Some (EvError code err) \<Rightarrow> timedOut code
      | _ \<Rightarrow> True)"

text \<open>The messages among the events, as the helper returns them.\<close>

definition received :: "(int \<times> kafka_event option) list \<Rightarrow> ConsumedMessage list" where
  "received rounds =
     concat (map (\<lambda>r. case snd r of Some (EvMessage km) \<Rightarrow> [projr (consumed km)] | _ \<Rightarrow> []) rounds)"

lemma received_simps [simp]:
  "received [] = []"
  "received (r # rs) = (case snd r of Some (EvMessage km) \<Rightarrow> [projr (consumed km)] | _ \<Rightarrow> []) @ received rs"
  by (simp_all add: received_def)

lemma consume_loop_reads_on:
  assumes "\<forall>(t, ev)\<in>set pre. t < deadline \<and> read_on timedOut ev"
    and "int (length msgs + length (received pre)) < maxMessages"
  shows "consume_loop timedOut maxMessages deadline (pre @ rest) msgs
    = consume_loop timedOut maxMessages deadline rest (msgs @ received pre)"
  using assms
proof (induction pre arbitrary: msgs)
  case (Cons r pre)
  obtain t ev where r: "r = (t, ev)" by (cases r)
  let ?got = "case ev of Some (EvMessage km) \<Rightarrow> [projr (consumed km)] | _ \<Rightarrow> []"
  have lt: "int (length msgs) < maxMessages" using Cons.prems(2) by simp
  have "consume_loop timedOut maxMessages deadline ((r # pre) @ rest) msgs
      = consume_loop timedOut maxMessages deadline (pre @ rest) (msgs @ ?got)"
    using Cons.prems(1) lt r
    by (subst consume_loop.simps)
      (auto simp: read_on_def consumed_def split: option.splits kafka_event.splits)
  also have "\<dots> = consume_loop timedOut maxMessages deadline rest ((msgs @ ?got) @ received pre)"
    by (rule Cons.IH) (use Cons.prems r in \<open>auto split: if_splits\<close>)
  finally show ?case using r by simp
qed simp

subsection \<open>Properties\<close>

text \<open>
  Waiting for the broker ends. Every round that fails sleeps half a second, so round \<open>k\<close>
  begins at least \<open>k\<close> half seconds after the start; then the loop returns within 61 rounds. It
  reports success exactly when some round within the deadline, before any round beyond it, got
  metadata with a broker, and otherwise the time-out with the address of the brokers.
\<close>

theorem waitReady_returns:
  assumes "61 \<le> length rounds"
    and "\<forall>k<length rounds. now + int k * (500 * Millisecond) \<le> fst (rounds ! k)"
  shows "\<exists>r. waitReady c now rounds = Some r
    \<and> (r = None \<longleftrightarrow> (\<exists>k<61. responds (snd (rounds ! k)) \<and> (\<forall>j\<le>k. fst (rounds ! j) < now + 30 * Second)))
    \<and> r \<in> {None, Some (ErrorString (''kafkatest: timeout waiting for broker at '' @ cl_brokers c))}"
proof -
  let ?d = "now + 30 * Second"
  let ?P = "\<lambda>(t, a). t < ?d \<longrightarrow> responds a"
  have late: "\<not> fst (rounds ! k) < ?d" if "60 \<le> k" "k < length rounds" for k
    using assms(2) that by force
  then have stop: "?P (rounds ! 60)" using assms(1) by (simp add: case_prod_beta)
  have "rounds ! 60 \<in> set rounds" using assms(1) by simp
  with stop have "\<exists>x. x \<in> set rounds \<and> ?P x" by (intro exI [of _ "rounds ! 60"] conjI)
  then have "find ?P rounds \<noteq> None" by (simp only: find_None_iff not_not)
  then obtain x where x: "find ?P rounds = Some x" by blast
  then obtain i where i: "i < length rounds" "?P (rounds ! i)" "x = rounds ! i" "\<forall>j<i. \<not> ?P (rounds ! j)"
    by (auto simp: find_Some_iff)
  have "i \<le> 60" using i(4) stop by (meson not_le_imp_less)
  let ?r = "if fst x < ?d then None
    else Some (ErrorString (''kafkatest: timeout waiting for broker at '' @ cl_brokers c))"
  have "waitReady c now rounds = Some ?r"
    using x by (simp add: waitReady_def wait_rounds_find case_prod_beta)
  moreover have "?r = None \<longleftrightarrow> (\<exists>k<61. responds (snd (rounds ! k)) \<and> (\<forall>j\<le>k. fst (rounds ! j) < ?d))"
  proof
    assume "?r = None"
    then have "responds (snd (rounds ! i))" "\<forall>j\<le>i. fst (rounds ! j) < ?d"
      using i by (auto simp: case_prod_beta le_less split: if_splits)
    with \<open>i \<le> 60\<close> show "\<exists>k<61. responds (snd (rounds ! k)) \<and> (\<forall>j\<le>k. fst (rounds ! j) < ?d)" by (intro exI [of _ i]) simp
  next
    assume "\<exists>k<61. responds (snd (rounds ! k)) \<and> (\<forall>j\<le>k. fst (rounds ! j) < ?d)"
    then obtain k where k: "responds (snd (rounds ! k))" "\<forall>j\<le>k. fst (rounds ! j) < ?d" by blast
    then have "\<not> k < i" using i(4) by (auto simp: case_prod_beta)
    then have "i \<le> k" by simp
    with k i(3) show "?r = None" by simp
  qed
  ultimately show ?thesis by (intro exI [of _ ?r]) auto
qed


definition sample_rounds :: "(int \<times> ready_attempt) list" where
  "sample_rounds = map (\<lambda>k. (int k * (500 * Millisecond), if k = 3 then Metadata (Inr 1) else AdminFailed)) [0..<61]"

theorem waitReady_returns_witness:
  "waitReady \<lparr>cl_container = Some 1, cl_brokers = ''localhost:29092''\<rparr> 0 sample_rounds = Some None"
proof -
  let ?c = "\<lparr>cl_container = Some 1, cl_brokers = ''localhost:29092''\<rparr>"
  have "61 \<le> length sample_rounds" "\<forall>k<length sample_rounds. 0 + int k * (500 * Millisecond) \<le> fst (sample_rounds ! k)"
    by (simp_all add: sample_rounds_def)
  from waitReady_returns [OF this, of ?c] obtain r where r: "waitReady ?c 0 sample_rounds = Some r"
    "r = None \<longleftrightarrow> (\<exists>k<61. responds (snd (sample_rounds ! k)) \<and> (\<forall>j\<le>k. fst (sample_rounds ! j) < 0 + 30 * Second))"
    by blast
  have "(3 :: nat) < 61 \<and> responds (snd (sample_rounds ! 3)) \<and> (\<forall>j\<le>3. fst (sample_rounds ! j) < 0 + 30 * Second)"
    by (auto simp: sample_rounds_def responds_def)
  with r(2) have "r = None" by blast
  with r(1) show ?thesis by simp
qed

text \<open>
  C24: what reading a topic back returns. Let the polls of \<open>pre\<close> begin before the deadline, each
  with nothing, a message, a time-out or an unknown event, and bring fewer messages than asked
  for. Then \<open>ConsumeAll\<close> polls on: when nothing more is polled it has not returned. It returns
  the messages received, in order and with their content, when the next poll would begin after
  the deadline (with no error), when it meets an error that is not a time-out (with that
  error), and when the next message is the last one asked for (with that message); a message
  without a topic panics. It polls nothing when no message is asked for, and reports the error
  when the consumer cannot be created or subscribed.
\<close>

theorem consume_all_outcomes:
  assumes "\<forall>(t, ev)\<in>set pre. t < now + timeout \<and> read_on timedOut ev"
    and "int (length (received pre)) < maxMessages"
  shows "ConsumeAll None (\<lambda>_. None) timedOut topic maxMessages now timeout pre = None
    \<and> (now + timeout \<le> t \<longrightarrow> ConsumeAll None (\<lambda>_. None) timedOut topic maxMessages now timeout (pre @ (t, ev) # rest)
        = Some (Inr (received pre, None)))
    \<and> (t < now + timeout \<longrightarrow>
        (\<not> timedOut code \<longrightarrow> ConsumeAll None (\<lambda>_. None) timedOut topic maxMessages now timeout
           (pre @ (t, Some (EvError code err)) # rest)
           = Some (Inr (received pre, Some (Wrapped ''consumer error: '' err))))
      \<and> (tp_Topic (km_TopicPartition km) = None \<longrightarrow> ConsumeAll None (\<lambda>_. None) timedOut topic maxMessages now timeout
           (pre @ (t, Some (EvMessage km)) # rest) = Some (Inl NilDereference))
      \<and> (consumed km = Inr cm \<and> int (length (received pre)) + 1 = maxMessages
           \<longrightarrow> ConsumeAll None (\<lambda>_. None) timedOut topic maxMessages now timeout (pre @ (t, Some (EvMessage km)) # rest)
             = Some (Inr (received pre @ [cm], None))))
    \<and> (n \<le> 0 \<longrightarrow> ConsumeAll None (\<lambda>_. None) timedOut topic n now timeout rest = Some (Inr ([], None)))
    \<and> ConsumeAll (Some err) subscribe timedOut topic n now timeout rest
        = Some (Inr ([], Some (Wrapped ''create consumer: '' err)))
    \<and> ConsumeAll None (\<lambda>_. Some err) timedOut topic n now timeout rest
        = Some (Inr ([], Some (Wrapped (''subscribe to '' @ Quote topic @ '': '') err)))"
proof -
  from consume_loop_reads_on [OF assms(1), of "[]" maxMessages] assms(2)
  have on: "ConsumeAll None (\<lambda>_. None) timedOut topic maxMessages now timeout (pre @ xs)
      = consume_loop timedOut maxMessages (now + timeout) xs (received pre)" for xs
    by (simp add: ConsumeAll_def)
  have last: "consume_loop timedOut maxMessages (now + timeout) rest (received pre @ [cm]) = Some (Inr (received pre @ [cm], None))"
    if "int (length (received pre)) + 1 = maxMessages" using that by (subst consume_loop.simps) simp
  note step = consume_loop.simps [of timedOut maxMessages "now + timeout" _ "received pre"]
  show ?thesis
    using on [of "[]"] assms(2) last
    by (auto simp: on step consumed_def) (simp_all add: ConsumeAll_def consume_loop.simps)
qed

definition stored :: "string \<Rightarrow> int64 \<Rightarrow> kafka_message" where
  "stored topic off = \<lparr>km_TopicPartition = \<lparr>tp_Topic = Some topic, tp_Partition = 2, tp_Offset = off\<rparr>,
     km_Key = None, km_Value = Some [1, 2], km_Timestamp = 0, km_Headers = []\<rparr>"

text \<open>A fresh group joins, the broker times out once, and two messages arrive.\<close>

theorem consume_all_outcomes_witness:
  "ConsumeAll None (\<lambda>_. None) (\<lambda>c. c = ''_TIMED_OUT'') ''orders.dlq'' 2 0 Second
     [(1, None), (2, Some (EvError ''_TIMED_OUT'' (ErrorString ''timed out''))),
      (3, Some (EvMessage (stored ''orders.dlq'' 5))), (4, None), (5, Some (EvMessage (stored ''orders.dlq'' 6)))]
   = Some (Inr ([projr (consumed (stored ''orders.dlq'' 5)), projr (consumed (stored ''orders.dlq'' 6))], None))"
proof -
  let ?pre = "[(1, None), (2, Some (EvError ''_TIMED_OUT'' (ErrorString ''timed out''))),
      (3, Some (EvMessage (stored ''orders.dlq'' 5))), (4, None)]"
  have pre: "\<forall>(t, ev)\<in>set ?pre. t < 0 + Second \<and> read_on (\<lambda>c. c = ''_TIMED_OUT'') ev"
    by (simp add: read_on_def stored_def)
  have n: "int (length (received ?pre)) < 2" by simp
  have c: "consumed (stored ''orders.dlq'' 6) = Inr (projr (consumed (stored ''orders.dlq'' 6)))"
    by (simp add: consumed_def stored_def)
  have "(5 :: int) < 0 + Second" by simp
  with consume_all_outcomes [OF pre n, where t = 5 and km = "stored ''orders.dlq'' 6" and topic = "''orders.dlq''" and rest = "[]"] c
  show ?thesis by auto
qed

end
