(* ===== verification/Spec2Isabelle.thy ===== *)
theory Spec2Isabelle
  imports Adapter_Loop Probe_Server Example_Programs Test_Cluster
begin

text \<open>
  Verification of go-kafka-consumer, a Kafka consumer framework in Go.

  \<^bold>\<open>The program.\<close> A user gives \<open>consumer.New\<close> a configuration and a batch processor. \<open>Run\<close> builds
  an offset coordinator, an optional dead-letter producer, a dispatcher, a Kafka adapter, the
  poll loop and a probe server, and runs the poll loop. The poll loop is one goroutine: it polls
  Kafka, hands messages to the dispatcher by partition, commits the offsets that the coordinator
  reports, pauses and resumes partitions, and handles rebalances and shutdown. The dispatcher
  buffers messages per partition, cuts batches (full, or after a linger time), tracks each batch
  with the coordinator and puts it on a bounded channel; worker goroutines take batches, call the
  processor through a circuit breaker with retries, send what fails to the dead-letter topic,
  and release the partition. At most one batch per partition is in flight.

  \<^bold>\<open>Theories.\<close>

  \<^item> \<open>Consumer_Prelude\<close>: machine integers, panics and their sequencing, iteration orders of Go
    maps, transition systems with their invariant rules.
  \<^item> \<open>Go_Strings\<close>: the parts of \<open>strconv\<close>, \<open>strings\<close> and \<open>fmt\<close> that are used; the locales
    \<open>text_codec\<close> and \<open>codec_pair\<close> with the decimal and byte codecs.
  \<^item> \<open>Message_Types\<close> (\<^verbatim>\<open>internal/types\<close>): messages, error trees, the non-retryable marker.
  \<^item> \<open>Offset_Coordinator\<close> (\<^verbatim>\<open>internal/offset\<close>): the coordinator and its interface, the locale
    \<open>coordinator_contract\<close>; the concrete coordinator refines it.
  \<^item> \<open>Dispatcher_Config\<close> (\<^verbatim>\<open>internal/dispatcher/config.go\<close>, \<^verbatim>\<open>retry.go\<close>, \<^verbatim>\<open>internal/circuit\<close>): settings,
    retry delays, trip decision and notifications of the circuit breaker.
  \<^item> \<open>Unordered_Dispatcher\<close> (\<^verbatim>\<open>internal/dispatcher/unordered.go\<close>): the dispatcher's state and every
    method, as a composition of the stretches that run under one lock.
  \<^item> \<open>Batch_Processing\<close> (same file): the worker, the retry loop and the end of a batch.
  \<^item> \<open>Batch_Protocol\<close>: an abstract protocol of batches as tokens that move between buffer,
    assembler, channel and worker; \<open>Dispatcher_Concurrency\<close>: all goroutines of the dispatcher as
    a step relation over the locked stretches, simulated by that protocol.
  \<^item> \<open>Degraded_Health\<close> (\<^verbatim>\<open>internal/pollloop/degraded.go\<close>, \<^verbatim>\<open>health.go\<close>, \<^verbatim>\<open>internal/server\<close>): the
    degraded bitmask with its compare-and-swap loops, the health flags, the probe handlers.
  \<^item> \<open>Poll_Loop\<close> and \<open>Poll_Loop_Runs\<close> (\<^verbatim>\<open>internal/pollloop\<close>): every handler of the poll loop over a
    record of dispatcher operations; the locale \<open>dispatch_port\<close> says what the loop relies on,
    \<open>quiet_port\<close> what it sees of a dispatcher that nothing else drives; both are interpreted on
    the unordered dispatcher; runs are sequences of events with the answers Kafka gives.
  \<^item> \<open>Probe_Server\<close> (\<^verbatim>\<open>internal/server\<close>): the routes of the HTTP server and what the probes answer
    while the poll loop runs.
  \<^item> \<open>Commit_Safety\<close>: the locale \<open>commit_port\<close>, in which every offset a loop sends to Kafka is backed
    by what its world has settled, on every path to a commit (ticks, revocations, shutdown).
  \<^item> \<open>Concurrent_Loop\<close>: the poll loop over the goroutines of \<open>Dispatcher_Concurrency\<close>. A call of the
    loop is a sequence of steps of its own goroutine with steps of workers and timers before,
    between and after them; both locales are interpreted on these calls.
  \<^item> \<open>Consumer_Config\<close> (\<^verbatim>\<open>consumer/config.go\<close>, \<^verbatim>\<open>security.go\<close>, \<^verbatim>\<open>dispatch_mode.go\<close>, \<^verbatim>\<open>k8s.go\<close>):
    configuration, validation and the grace-period check.
  \<^item> \<open>Kafka_Config\<close>, \<open>Lag_Metrics\<close>, \<open>Kafka_Adapter\<close>, \<open>DLQ_Producer\<close> (\<^verbatim>\<open>internal/kafka\<close>,
    \<^verbatim>\<open>internal/metrics/lag.go\<close>): properties given to the client library, the lag gauge, the adapter
    behind the poll loop's client interface, the dead-letter producer. \<open>Adapter_Loop\<close>: the adapter
    under the poll loop over the goroutines, with the forwarder of rebalances.
  \<^item> \<open>Component_Options\<close> (the \<^verbatim>\<open>options.go\<close> files, \<^verbatim>\<open>adapter.go\<close>, \<^verbatim>\<open>dlq.go\<close>): the functional options, with
    the locale \<open>logger_option\<close>; \<open>Metric_Registry\<close> (\<^verbatim>\<open>internal/metrics\<close>): the metrics and their
    registration.
  \<^item> \<open>Consumer_Run\<close> (\<^verbatim>\<open>consumer/consumer.go\<close>): construction and assembly; \<open>Consumer_Lifecycle\<close>: the
    assembled consumer over its goroutines.
  \<^item> \<open>Test_Cluster\<close> (\<^verbatim>\<open>internal/kafkatest\<close>), \<open>Bench_Support\<close> (\<^verbatim>\<open>internal/benchutil\<close>) and
    \<open>Example_Programs\<close> (\<^verbatim>\<open>examples\<close>): the helpers of tests and benchmarks and the programs that use
    the library.

  \<^bold>\<open>What is shown.\<close> At least once for what the dispatcher is handed, end to end: in every run of the
  poll loop over the interleaved goroutines, across rebalances and up to the final commit, an
  offset sent to Kafka is one past a settled message, and the messages handed over for the
  partition up to that one, and not discarded by a revocation, are settled, as long as no batch
  of the partition met a full channel; with one topic this holds of what the client library is
  asked to commit. Of what the library delivers, the loop hands over everything, once and in
  order, for a partition that is not paused while the loop is not in degraded mode, and nothing
  otherwise: the messages dropped then are not covered by the statement on commits. Under every
  interleaving one batch per partition is in flight, the coordinator's panics are unreachable,
  and a worker gets non-empty batches of one partition. Functional behaviour of
  \<open>Send\<close>, of the retry loop (exact schedule, reasons for giving up, termination), of polls,
  commits, revocations and shutdown. Invariants: degraded mode, readiness, gauge and the
  answers of the probes follow their causes. Refinement of the coordinator's interface and of
  the bitmask to a set of reasons. Round trips of the dead-letter headers. Bounds of retry
  delays. That a validated configuration runs until its context ends, with no panic that ends
  the process, and then returns, unless the race of \<open>Close\<close> with a linger callback crashes the
  process at shutdown (both outcomes are reachable); that \<open>Run\<close> releases what it opens when it
  returns, and that the example programs run in the same way. Several theorems
  state what the code does where it does not do what its documentation says; the manifest
  lists them as findings.

  \<^bold>\<open>Conventions.\<close> Offsets and partitions are words, so \<open>maxOffset + 1\<close> wraps. A panic is a value; one
  that its goroutine does not recover ends the process, the field \<open>s_crash\<close> of the goroutines, and
  is \<open>OtherGoroutine\<close> for the goroutine that runs the poll loop. A
  loop that waits for the outside consumes a list of what it receives (events, answers, rounds,
  reports); when the list ends the loop has not returned, which is the value \<open>None\<close>. Fuel is
  used once: \<open>finish_send\<close> in \<open>Concurrent_Loop\<close> counts the steps of a \<open>Send\<close>, and six are proved to
  be enough. \<open>float64\<close> rounding is an argument \<open>fl\<close>. The processor, the breaker, the clock, the
  Kafka client, the metric registry, the container library and the JSON decoder are arguments
  too.

  \<^bold>\<open>Not modelled.\<close> Log lines and what the examples print; the sockets of the HTTP server and the
  handler that serves the metrics; the internals of gobreaker, confluent-kafka-go and
  Prometheus; the literals of the container request in \<^verbatim>\<open>internal/kafkatest\<close>; the draining of
  delivery reports that nobody waits for; the ordered dispatch modes, which the program
  rejects; an unbuffered batch channel, which validation excludes; redirects of request paths
  that are not clean and the request target \<^verbatim>\<open>*\<close>; rebalance callbacks while the client closes;
  constant labels of metrics; a failure threshold that is not a number; the Kafka calls that
  precede a panic. In \<open>Concurrent_Loop\<close> the rest of a handler between two calls of the dispatcher is
  atomic: it touches only the poll loop's own state.
\<close>

subsection \<open>Properties\<close>

text \<open>
  C6: a configuration that passes validation runs, with any options. With a client library that
  accepts its settings and a registry that takes its metrics, a consumer in unordered mode comes
  up. Until its context ends it neither returns nor panics, and no panic of a worker or a linger
  timer has ended the process, whatever Kafka answers, whatever events arrive and however the
  goroutines interleave: its state is that of a run of the poll loop over the started
  dispatcher. Once the context has ended it returns, and what Kafka was asked is what such a
  run asks, so that everything shown of these runs holds of the consumer. The one exception is
  the race of \<open>Close\<close> with a linger callback: then the process ends at shutdown with the panic
  of a send on the closed channel, in the callback's goroutine.
\<close>

theorem validated_consumer_runs:
  assumes "New cfg (Some p) opts = Inr c" and "cf_DispatchMode cfg = Unordered" and "env_ok env"
    and "\<forall>(ev, ans, ls)\<in>set evs. event_ok ev" and "public_options opts"
    and "Consumer_Run env (conc_ops ord late) (launch sched) (conc_events evs) c = (effects, result)"
  shows "(result \<noteq> None \<longleftrightarrow> CtxDone \<in> fst ` set evs)
    \<and> (result = None \<longrightarrow> (\<exists>pl. conc_run (dispatcher_config cfg) sched (pollloop_config cfg) ord late evs pl
          \<and> s_crash (cw_sys (pl_world pl)) = None))
    \<and> (\<forall>r. result = Some r \<longrightarrow> r = Inl (OtherGoroutine SendOnClosedChannel) \<or> (\<exists>err pl. r = Inr err
          \<and> conc_run (dispatcher_config cfg) sched (pollloop_config cfg) ord late evs pl
          \<and> kafka_calls effects = pl_calls pl))"
  using consumer_ends [OF assms] unfolding ends_like_def .

theorem validated_consumer_runs_witness:
  "\<exists>effects pl. Consumer_Run sample_env (conc_ops [] False) (launch []) (conc_events [(CtxDone, sample_answers, [])])
         sample_consumer = (effects, Some (Inr (Some (Sentinel ContextDeadlineExceeded))))
     \<and> conc_run (dispatcher_config sample_config) [] (pollloop_config sample_config) [] False
         [(CtxDone, sample_answers, [])] pl
     \<and> kafka_calls effects = pl_calls pl"
proof -
  let ?evs = "[(CtxDone, sample_answers, [])]"
  obtain effects where r: "Consumer_Run sample_env (conc_ops [] False) (launch []) (conc_events ?evs) sample_consumer
      = (effects, Some (Inr (Some (Sentinel ContextDeadlineExceeded))))"
    using sample_consumer_returns by (metis prod.collapse)
  have "cf_DispatchMode sample_config = Unordered" "\<forall>(ev, ans, ls)\<in>set ?evs. event_ok ev"
    "public_options []" by (simp_all add: sample_config_def DefaultConfig_def event_ok_def public_options_def)
  from validated_consumer_runs [OF sample_consumer_new this(1) sample_env_ok this(2,3) r] r show ?thesis by auto
qed

text \<open>
  C19: \<open>Run\<close> releases what it opened, on every path on which it returns, errors during assembly
  included: a dead-letter producer that was opened is closed, and after everything else; a
  Kafka consumer that was created is closed exactly once; the probe server is stopped if it was
  started, and the workers' context is canceled if they were.
\<close>

theorem run_releases_resources:
  assumes "Consumer_Run env ops start evs c = (effects, Some (Inr err))"
  shows "producer_effects effects \<in> {[], [OpenProducer, CloseProducer]}
    \<and> (CloseProducer \<in> set effects \<longrightarrow> last effects = CloseProducer)
    \<and> consumer_effects effects \<in> {[], [OpenConsumer, Kafka KClose]}
    \<and> (\<exists>logger. server_effects effects \<in> {[], [StartServer (server_wiring env c logger), StopServer]})
    \<and> (StartWorkers \<in> set effects \<longrightarrow> CancelRun \<in> set effects)"
proof -
  have none: "CloseProducer \<notin> set es" if "producer_effects es = []" for es
    using that by (auto simp: producer_effects_def filter_empty_conv)
  let ?ws = "map Warn (warnKubernetesGracePeriod (re_fl env) (re_getenv env) (c_cfg c))"
  obtain l where l: "run_registered env ops start evs c l = (effects, Some (Inr err))"
    using assms by (auto simp: Consumer_Run_def split: sum.splits option.splits)
  then consider (plain) es where "effects = ?ws @ es" "run_with_dlq env ops start evs c l None = (es, Some (Inr err))"
    | (failed) "effects = ?ws"
    | (dlq) es d where "effects = ?ws @ OpenProducer # es @ [CloseProducer]"
        "run_with_dlq env ops start evs c l (Some d) = (es, Some (Inr err))"
    by (auto simp: run_registered_def Let_def split: if_splits sum.splits prod.splits)
  then show ?thesis
  proof cases
    case plain
    with run_with_dlq_effects [OF plain(2)] none [of effects] show ?thesis by auto
  next
    case failed
    with none [of effects] show ?thesis by auto
  next
    case dlq
    with run_with_dlq_effects [OF dlq(2)] show ?thesis by auto
  qed
qed

theorem run_releases_resources_witness:
  "\<exists>err. Consumer_Run sample_env sample_ops Start [] \<lparr>c_cfg = sample_config\<lparr>cf_DispatchMode := KeyOrdered\<rparr>,
       c_processor = (), c_opts = defaultOptions\<rparr> = ([OpenProducer, CloseProducer], Some (Inr err))
     \<and> last [OpenProducer, CloseProducer] = CloseProducer"
proof -
  let ?c = "\<lparr>c_cfg = sample_config\<lparr>cf_DispatchMode := KeyOrdered\<rparr>, c_processor = (), c_opts = defaultOptions\<rparr>"
  have "Validate (c_cfg ?c) = None"
    by (simp add: sample_config_def DefaultConfig_def Validate_def Security_Validate_def)
  moreover have "cf_DLQTopic (c_cfg ?c) \<noteq> []" by (simp add: sample_config_def)
  ultimately obtain d where "NewDLQProducer (re_setKey sample_env) (re_newProducer sample_env)
      \<lparr>dl_Topic = cf_DLQTopic (c_cfg ?c), dl_Brokers = cf_Brokers (c_cfg ?c),
       dl_Security = mapSecurityConfig (c_cfg ?c)\<rparr> = Inr d"
    using dlq_created [OF sample_env_ok] by blast
  moreover have "warnKubernetesGracePeriod (re_fl sample_env) (re_getenv sample_env) (c_cfg ?c) = []"
    by (simp add: sample_env_def warnKubernetesGracePeriod_def)
  moreover have "Consumer_Run sample_env sample_ops Start [] ?c = run_registered sample_env sample_ops Start [] ?c slog_Default"
    using sample_env_ok by (simp add: Consumer_Run_def env_ok_def defaultOptions_def)
  ultimately have "\<exists>err. Consumer_Run sample_env sample_ops Start [] ?c = ([OpenProducer, CloseProducer], Some (Inr err))"
    by (simp add: run_registered_def run_with_dlq_def createDispatcher_def sample_config_def
        Unordered_def KeyOrdered_def PartitionOrdered_def)
  then obtain err where r: "Consumer_Run sample_env sample_ops Start [] ?c = ([OpenProducer, CloseProducer], Some (Inr err))"
    by blast
  from run_releases_resources [OF r] r show ?thesis by auto
qed

text \<open>
  C31: metrics are registered once. On a registry that refuses a metric exactly when the name is
  taken, a consumer of which a metric name is taken panics before it has done anything, with the
  first such name; so of two runs on one registry, in one process, the second panics. On a
  registry without these names the registration succeeds.
\<close>

theorem second_run_panics:
  assumes "New cfg (Some p) opts = Inr c" and "public_options opts"
    and "by_name used (re_registry env (o_registerer (c_opts c)))"
  shows "Consumer_Run env ops start evs c =
      (case find (\<lambda>m. mt_Name m \<in> used) all_metrics of
         Some m \<Rightarrow> ([], Some (Inl (MustRegister (mt_Name m))))
       | None \<Rightarrow> run_registered env ops start evs c (the (o_logger (c_opts c))))
    \<and> (mt_Name ` set all_metrics \<subseteq> used \<longrightarrow>
        Consumer_Run env ops start evs c = ([], Some (Inl (MustRegister MessagesPolledTotal))))"
proof -
  obtain l where l: "o_logger (c_opts c) = Some l" using New_logger [OF assms(1,2)] by blast
  have "all_metrics = hd all_metrics # tl all_metrics" "mt_Name (hd all_metrics) = MessagesPolledTotal"
    by (simp_all add: all_metrics_def pollloop_metric_opts_def)
  then have "find (\<lambda>m. mt_Name m \<in> used) all_metrics = Some (hd all_metrics)"
    if "mt_Name ` set all_metrics \<subseteq> used"
    using that find.simps(2) [of "\<lambda>m. mt_Name m \<in> used" "hd all_metrics" "tl all_metrics"]
    by (metis image_subset_iff list.set_intros(1))
  with l register_all_metrics [OF assms(3)] \<open>mt_Name (hd all_metrics) = MessagesPolledTotal\<close> show ?thesis
    by (auto simp: Consumer_Run_def split: option.split)
qed

theorem second_run_panics_witness:
  "\<exists>c. New sample_config (Some ()) [] = Inr c
     \<and> Consumer_Run (sample_env\<lparr>re_registry := \<lambda>_ held m. mt_Name m \<notin> mt_Name ` set (all_metrics @ held)\<rparr>)
         sample_ops Start [] c = ([], Some (Inl (MustRegister ''kafka_consumer_messages_polled_total'')))"
proof -
  let ?env = "sample_env\<lparr>re_registry := \<lambda>_ held m. mt_Name m \<notin> mt_Name ` set (all_metrics @ held)\<rparr>"
  obtain c where c: "New sample_config (Some ()) [] = Inr c"
    by (simp add: New_def sample_config_def DefaultConfig_def Validate_def Security_Validate_def)
  have "public_options []" "by_name (mt_Name ` set all_metrics) (re_registry ?env (o_registerer (c_opts c)))"
    by (auto simp: by_name_def public_options_def)
  from second_run_panics [OF c this, THEN conjunct2, of sample_ops Start "[]"] c
  show ?thesis unfolding MessagesPolledTotal_def by blast
qed

end
